(* ===== verification/Prelude.thy ===== *)
theory Prelude
  imports Main "HOL-Library.Word" "HOL-Library.AList"
begin

unbundle bit_operations_syntax

text \<open>
  The vocabulary the components share: the machine integers of the Rust sources, the outcome of a
  fallible call (a value, an \<^verbatim>\<open>anyhow\<close> error, or a panic), big-endian byte layouts, checked and
  wrapping arithmetic, association lists for \<^verbatim>\<open>HashMap\<close>, and the two interfaces most components
  implement: a wire format (a serialiser with its parser) and a transition system with an
  invariant.
\<close>

section \<open>Machine integers and byte strings\<close>

type_synonym u8 = "8 word"
type_synonym u16 = "16 word"
type_synonym u32 = "32 word"
type_synonym u64 = "64 word"
type_synonym i16 = "16 word"
type_synonym bytes = "u8 list"

named_theorems layout "byte layouts: lengths and big-endian round trips"
named_theorems outcome_defs "definitions of the outcome combinators"

section \<open>Outcomes of fallible calls\<close>

text \<open>Every \<^verbatim>\<open>anyhow!\<close> of the modelled sources is one constructor.\<close>

datatype error =
    HeaderTooShort nat
  | PacketTooShort nat
  | JoinTooShort
  | PeerListTooShort
  | PeerListTruncated
  | PeerListTruncatedV4
  | PeerListTruncatedV6
  | UnknownIpVersion u8
  | Argon2Failed
  | SendCounterOverflow
  | EncryptFailed
  | DecryptFailed
  | ZeroSharedSecret
  | HkdfFailed
  | KeyExchangeTooShort nat
  | PingTooShort
  | WrongFrameLength nat
  | OpusFailed
  | MaxPeersReached
  | OnlyHostAllocates
  | NoMorePeerIds
  | ReplayDetected u8
  | NonHostReceivedJoin
  | NoLocalIp
  | EmptyPeerList
  | UnknownPacketType u8
  | IoFailed
  | DeviceListFailed
  | DeviceNotFound string
  | NoDefaultDevice
  | NoSupportedConfig
  | StreamPlayFailed
  | UpnpDiscoveryFailed
  | UpnpExternalIpFailed
  | UpnpAddPortFailed
  | AddrParseFailed

text \<open>
  \<open>Ok\<close> and \<open>Err\<close> are the two sides of \<^verbatim>\<open>Result\<close>; \<open>Panic\<close> is a thread that dies, for instance on an
  index out of range.
\<close>

datatype 'a outcome = Ok 'a | Err error | Panic

text \<open>The \<^verbatim>\<open>?\<close> operator on a pure result.\<close>

fun and_then :: "'a outcome \<Rightarrow> ('a \<Rightarrow> 'b outcome) \<Rightarrow> 'b outcome" where
  "and_then (Ok x) k = k x"
| "and_then (Err e) k = Err e"
| "and_then Panic k = Panic"

text \<open>
  The \<^verbatim>\<open>?\<close> operator in a function that mutates a state \<open>s\<close>: an early return keeps the state as it is
  at that point.
\<close>

fun attempt :: "'a outcome \<Rightarrow> 's \<Rightarrow> ('a \<Rightarrow> 'b outcome \<times> 's) \<Rightarrow> 'b outcome \<times> 's" where
  "attempt (Ok x) s k = k x"
| "attempt (Err e) s k = (Err e, s)"
| "attempt Panic s k = (Panic, s)"

text \<open>The \<^verbatim>\<open>?\<close> operator on a call that itself returns an updated state.\<close>

fun attempt_st :: "'a outcome \<times> 's \<Rightarrow> ('a \<Rightarrow> 's \<Rightarrow> 'b outcome \<times> 's) \<Rightarrow> 'b outcome \<times> 's" where
  "attempt_st (Ok x, s) k = k x s"
| "attempt_st (Err e, s) k = (Err e, s)"
| "attempt_st (Panic, s) k = (Panic, s)"

definition ok_or :: "error \<Rightarrow> 'a option \<Rightarrow> 'a outcome" where
  "ok_or e x = (case x of None \<Rightarrow> Err e | Some v \<Rightarrow> Ok v)"

text \<open>Indexing a slice: out of range panics.\<close>

definition index :: "'a list \<Rightarrow> nat \<Rightarrow> 'a outcome" where
  "index xs i = (if i < length xs then Ok (xs ! i) else Panic)"

fun is_ok :: "'a outcome \<Rightarrow> bool" where
  "is_ok (Ok _) = True"
| "is_ok (Err _) = False"
| "is_ok Panic = False"

lemma outcome_case_pair:
  "(case x of Ok (a, b) \<Rightarrow> Q a b | Err e \<Rightarrow> False | Panic \<Rightarrow> False) \<longleftrightarrow> (\<exists>a b. x = Ok (a, b) \<and> Q a b)"
  by (cases x) auto

lemma and_then_eq_Ok: "and_then r k = Ok y \<longleftrightarrow> (\<exists>x. r = Ok x \<and> k x = Ok y)"
  by (cases r) auto

lemma and_then_eq_Panic: "and_then r k = Panic \<longleftrightarrow> r = Panic \<or> (\<exists>x. r = Ok x \<and> k x = Panic)"
  by (cases r) auto

lemma attempt_split:
  "P (attempt r s k) \<longleftrightarrow>
     (\<forall>x. r = Ok x \<longrightarrow> P (k x)) \<and> (\<forall>e. r = Err e \<longrightarrow> P (Err e, s)) \<and> (r = Panic \<longrightarrow> P (Panic, s))"
  by (cases r) auto

lemma attempt_eq_Ok: "attempt r s k = (Ok y, w) \<longleftrightarrow> (\<exists>x. r = Ok x \<and> k x = (Ok y, w))"
  by (cases r) auto

lemma attempt_st_split:
  "P (attempt_st rs k) \<longleftrightarrow>
     (\<forall>x s. rs = (Ok x, s) \<longrightarrow> P (k x s)) \<and> (\<forall>e s. rs = (Err e, s) \<longrightarrow> P (Err e, s)) \<and>
     (\<forall>s. rs = (Panic, s) \<longrightarrow> P (Panic, s))"
  by (cases "(rs, k)" rule: attempt_st.cases) auto

lemma ok_or_simps [simp]: "ok_or e (Some v) = Ok v" "ok_or e None = Err e"
  by (simp_all add: ok_or_def)

lemma ok_or_eq_Ok: "ok_or e x = Ok v \<longleftrightarrow> x = Some v"
  by (cases x) simp_all

lemma ok_or_not_Panic [simp]: "ok_or e x \<noteq> Panic"
  by (cases x) simp_all

lemma index_in_range [simp]: "i < length xs \<Longrightarrow> index xs i = Ok (xs ! i)"
  by (simp add: index_def)

section \<open>Big-endian layouts\<close>

text \<open>\<^verbatim>\<open>to_be_bytes\<close> and \<^verbatim>\<open>from_be_bytes\<close> of the standard library.\<close>

definition u16_to_be_bytes :: "u16 \<Rightarrow> bytes" where
  "u16_to_be_bytes w = [ucast (drop_bit 8 w), ucast w]"

definition u16_from_be_bytes :: "u8 \<Rightarrow> u8 \<Rightarrow> u16" where
  "u16_from_be_bytes a b = push_bit 8 (ucast a) OR ucast b"

definition u32_to_be_bytes :: "u32 \<Rightarrow> bytes" where
  "u32_to_be_bytes w = [ucast (drop_bit 24 w), ucast (drop_bit 16 w), ucast (drop_bit 8 w), ucast w]"

definition u32_from_be_bytes :: "u8 \<Rightarrow> u8 \<Rightarrow> u8 \<Rightarrow> u8 \<Rightarrow> u32" where
  "u32_from_be_bytes a b c d =
     push_bit 24 (ucast a) OR push_bit 16 (ucast b) OR push_bit 8 (ucast c) OR ucast d"

lemma u16_be_length [layout, simp]: "length (u16_to_be_bytes w) = 2"
  by (simp add: u16_to_be_bytes_def)

lemma u32_be_length [layout, simp]: "length (u32_to_be_bytes w) = 4"
  by (simp add: u32_to_be_bytes_def)

lemma u8_bit_high: "8 \<le> n \<Longrightarrow> \<not> bit (w :: u8) n"
  by (auto dest: bit_imp_le_length)

lemma u16_be_roundtrip [layout]:
  "u16_from_be_bytes (ucast (drop_bit 8 w)) (ucast w) = w"
  unfolding u16_from_be_bytes_def by (rule bit_word_eqI) (auto simp: bit_simps)

lemma u16_be_roundtrip_bytes [layout]:
  "u16_to_be_bytes (u16_from_be_bytes a b) = [a, b]"
  unfolding u16_to_be_bytes_def u16_from_be_bytes_def
  by (auto intro!: bit_word_eqI simp: bit_simps u8_bit_high)

lemma u32_be_roundtrip [layout]:
  "u32_from_be_bytes (ucast (drop_bit 24 w)) (ucast (drop_bit 16 w)) (ucast (drop_bit 8 w)) (ucast w) = w"
  unfolding u32_from_be_bytes_def
proof (rule bit_word_eqI)
  fix n :: nat
  assume "n < LENGTH(32)"
  then consider "n < 8" | "8 \<le> n \<and> n < 16" | "16 \<le> n \<and> n < 24" | "24 \<le> n \<and> n < 32"
    by fastforce
  then show "bit (push_bit 24 (ucast (ucast (drop_bit 24 w) :: u8)) OR
      push_bit 16 (ucast (ucast (drop_bit 16 w) :: u8)) OR
      push_bit 8 (ucast (ucast (drop_bit 8 w) :: u8)) OR ucast (ucast w :: u8) :: u32) n = bit w n"
    by cases (auto simp: bit_simps)
qed

lemma u32_be_roundtrip_bytes [layout]:
  "u32_to_be_bytes (u32_from_be_bytes a b c d) = [a, b, c, d]"
  unfolding u32_to_be_bytes_def u32_from_be_bytes_def
  by (auto intro!: bit_word_eqI simp: bit_simps u8_bit_high)

lemma u16_to_be_inject [simp]: "u16_to_be_bytes v = u16_to_be_bytes w \<longleftrightarrow> v = w"
  by (auto simp: u16_to_be_bytes_def) (metis u16_be_roundtrip)

lemma u32_to_be_inject [simp]: "u32_to_be_bytes v = u32_to_be_bytes w \<longleftrightarrow> v = w"
  by (auto simp: u32_to_be_bytes_def) (metis u32_be_roundtrip)

lemma unat_u8: "unat (w :: u8) < 256"
  using unsigned_less [of w] by simp

lemma unat_u16: "unat (w :: u16) < 65536"
  using unsigned_less [of w] by simp

lemma unat_u32: "unat (w :: u32) < 4294967296"
  using unsigned_less [of w] by simp

section \<open>Checked arithmetic\<close>

definition checked_add :: "'a::len word \<Rightarrow> 'a word \<Rightarrow> 'a word option" where
  "checked_add v w = (if unat v + unat w < 2 ^ LENGTH('a) then Some (v + w) else None)"

lemma checked_add_Some:
  "checked_add v w = Some x \<Longrightarrow> unat x = unat v + unat w"
  by (auto simp: checked_add_def unat_word_ariths split: if_splits)

lemma checked_add_None_iff:
  fixes v w :: "'a::len word"
  shows "checked_add v w = None \<longleftrightarrow> 2 ^ LENGTH('a) \<le> unat v + unat w"
  by (auto simp: checked_add_def)

section \<open>Association lists\<close>

text \<open>
  A \<^verbatim>\<open>HashMap\<close> that is iterated over is an association list with distinct keys; its length is
  \<^verbatim>\<open>len()\<close>, \<^const>\<open>map_of\<close> is \<^verbatim>\<open>get\<close> and \<^const>\<open>AList.map_entry\<close> is a write through \<^verbatim>\<open>get_mut\<close>. The
  order of iteration of a \<^verbatim>\<open>HashMap\<close> is not specified: the places of the code where it shows take
  an iteration function as an argument, of which \<open>iterates\<close> is all that is documented.
\<close>

definition iterates :: "('a list \<Rightarrow> 'a list) \<Rightarrow> bool" where
  "iterates it \<longleftrightarrow> (\<forall>xs. set (it xs) = set xs \<and> length (it xs) = length xs)"

lemma iterates_set: "iterates it \<Longrightarrow> set (it xs) = set xs"
  by (simp add: iterates_def)

lemma iterates_length: "iterates it \<Longrightarrow> length (it xs) = length xs"
  by (simp add: iterates_def)

lemma iterates_Nil: "iterates it \<Longrightarrow> it xs = [] \<longleftrightarrow> xs = []"
  by (metis iterates_length length_0_conv)

lemma iterates_distinct: "iterates it \<Longrightarrow> distinct xs \<Longrightarrow> distinct (it xs)"
  by (metis card_distinct distinct_card iterates_length iterates_set)

lemma iterates_rev: "iterates rev"
  by (simp add: iterates_def)

lemma iterates_id: "iterates (\<lambda>xs. xs)"
  by (simp add: iterates_def)

lemma length_map_entry [simp]: "length (AList.map_entry k f xs) = length xs"
  by (induction xs) auto

lemma map_fst_map_entry [simp]: "map fst (AList.map_entry k f xs) = map fst xs"
  by (induction xs) auto

lemma map_of_map_entry:
  "map_of (AList.map_entry k f xs) k' =
     (if k' = k then map_option f (map_of xs k) else map_of xs k')"
  by (induction xs) auto

lemma set_map_entry_cases:
  "(k', v') \<in> set (AList.map_entry k f xs) \<Longrightarrow>
     (k', v') \<in> set xs \<or> (k' = k \<and> (\<exists>v. (k, v) \<in> set xs \<and> v' = f v))"
  by (induction xs) (auto split: if_splits)

lemma length_update_new: "map_of xs k = None \<Longrightarrow> length (AList.update k v xs) = Suc (length xs)"
  by (induction xs) (auto split: if_splits)

lemma set_update_subset: "set (AList.update k v xs) \<subseteq> insert (k, v) (set xs)"
  by (induction xs) auto

section \<open>Vectors\<close>

text \<open>\<^verbatim>\<open>Iterator::position\<close>, \<^verbatim>\<open>Vec::insert\<close> and \<^verbatim>\<open>Vec::remove\<close>.\<close>

fun position :: "('a \<Rightarrow> bool) \<Rightarrow> 'a list \<Rightarrow> nat option" where
  "position p [] = None"
| "position p (x # xs) = (if p x then Some 0 else map_option Suc (position p xs))"

definition vec_insert :: "nat \<Rightarrow> 'a \<Rightarrow> 'a list \<Rightarrow> 'a list" where
  "vec_insert i x xs = take i xs @ x # drop i xs"

definition vec_remove :: "nat \<Rightarrow> 'a list \<Rightarrow> 'a list" where
  "vec_remove i xs = take i xs @ drop (Suc i) xs"

lemma position_Some:
  "position p xs = Some i \<Longrightarrow> i < length xs \<and> p (xs ! i) \<and> (\<forall>j < i. \<not> p (xs ! j))"
proof (induction xs arbitrary: i)
  case (Cons x xs)
  then show ?case
    by (auto split: if_splits simp: nth_Cons' less_Suc_eq_0_disj)
qed simp

lemma position_None: "position p xs = None \<longleftrightarrow> (\<forall>x \<in> set xs. \<not> p x)"
  by (induction xs) auto

lemma position_le: "position p xs = Some i \<Longrightarrow> i \<le> length xs"
  using position_Some by fastforce

lemma set_vec_insert [simp]: "set (vec_insert i x xs) = insert x (set xs)"
  by (metis Un_insert_right append_take_drop_id list.simps(15) set_append vec_insert_def)

lemma length_vec_insert [simp]: "length (vec_insert i x xs) = Suc (length xs)"
  by (simp add: vec_insert_def)

lemma map_vec_insert: "map f (vec_insert i x xs) = vec_insert i (f x) (map f xs)"
  by (simp add: vec_insert_def take_map drop_map)

lemma distinct_vec_insert [simp]: "distinct (vec_insert i x xs) \<longleftrightarrow> x \<notin> set xs \<and> distinct xs"
proof -
  define ys zs where d: "ys = take i xs" "zs = drop i xs"
  then have "xs = ys @ zs" by simp
  then show ?thesis unfolding vec_insert_def d [symmetric] by auto
qed

lemma map_vec_remove: "map f (vec_remove i xs) = vec_remove i (map f xs)"
  by (simp add: vec_remove_def take_map drop_map)

lemma distinct_vec_remove:
  assumes "i < length xs" "distinct xs"
  shows "distinct (vec_remove i xs) \<and> set (vec_remove i xs) = set xs - {xs ! i}"
proof -
  define ys x zs where d: "ys = take i xs" "x = xs ! i" "zs = drop (Suc i) xs"
  then have "xs = ys @ x # zs" using assms(1) by (simp add: id_take_nth_drop)
  with assms(2) show ?thesis unfolding vec_remove_def d [symmetric] by auto
qed

section \<open>Chunks\<close>

text \<open>\<^verbatim>\<open>chunks_exact\<close>: whole chunks only; the size must not be zero.\<close>

function chunks_exact :: "nat \<Rightarrow> 'a list \<Rightarrow> 'a list list" where
  "chunks_exact n xs = (if n = 0 \<or> length xs < n then [] else take n xs # chunks_exact n (drop n xs))"
  by pat_completeness auto

termination
  by (relation "measure (\<lambda>(_, xs). length xs)") auto

declare chunks_exact.simps [simp del]

lemma chunks_exact_concat:
  "0 < ch \<Longrightarrow> \<forall>x \<in> set xss. length x = ch \<Longrightarrow> length rest < ch \<Longrightarrow> chunks_exact ch (concat xss @ rest) = xss"
proof (induction xss)
  case Nil
  then show ?case by (simp add: chunks_exact.simps)
next
  case (Cons x xss)
  then show ?case by (subst chunks_exact.simps) simp
qed

lemma chunks_exact_append:
  "0 < n \<Longrightarrow> chunks_exact n (xs @ ys) = chunks_exact n xs @ chunks_exact n (drop (length xs div n * n) xs @ ys)"
proof (induction n xs rule: chunks_exact.induct)
  case (1 n xs)
  show ?case
  proof (cases "length xs < n")
    case True
    then show ?thesis using chunks_exact.simps [of n xs] by simp
  next
    case False
    then have d: "length xs div n = Suc ((length xs - n) div n)" using 1(2) by (simp add: div_if)
    have "chunks_exact n (xs @ ys) = take n xs # chunks_exact n (drop n xs @ ys)"
      using False 1(2) by (subst chunks_exact.simps) simp
    also have "chunks_exact n xs = take n xs # chunks_exact n (drop n xs)"
      using False 1(2) by (subst chunks_exact.simps) simp
    ultimately show ?thesis using 1(1) [OF _ 1(2)] False 1(2) by (simp add: d add.commute)
  qed
qed

text \<open>
  Three loops of the program, and the loopback test's two, have one shape: while a full chunk is
  waiting, take it and work on it; hand what is left to a final step. Such a loop is the fold of
  its body over the whole chunks.
\<close>

locale chunk_loop =
  fixes size_of_chunk :: nat
    and body :: "'a list \<Rightarrow> 's \<Rightarrow> 's"
    and finish :: "'a list \<Rightarrow> 's \<Rightarrow> 't"
    and loop :: "'a list \<Rightarrow> 's \<Rightarrow> 't"
  assumes chunk_pos: "0 < size_of_chunk"
    and unroll: "loop xs s = (if length xs < size_of_chunk then finish xs s
      else loop (drop size_of_chunk xs) (body (take size_of_chunk xs) s))"
begin

lemma loop_fold:
  "loop xs s = finish (drop (length xs div size_of_chunk * size_of_chunk) xs)
     (foldl (\<lambda>s c. body c s) s (chunks_exact size_of_chunk xs))"
proof (induction "length xs" arbitrary: xs s rule: less_induct)
  case less
  show ?case
  proof (cases "length xs < size_of_chunk")
    case True
    then show ?thesis using chunk_pos by (simp add: unroll [of xs] chunks_exact.simps [of _ xs])
  next
    case False
    then have d: "length xs div size_of_chunk = Suc ((length xs - size_of_chunk) div size_of_chunk)"
      using chunk_pos by (simp add: div_if)
    have "chunks_exact size_of_chunk xs = take size_of_chunk xs # chunks_exact size_of_chunk (drop size_of_chunk xs)"
      using False chunk_pos by (subst chunks_exact.simps) simp
    then show ?thesis
      using less [of "drop size_of_chunk xs" "body (take size_of_chunk xs) s"] False chunk_pos
      by (simp add: unroll [of xs] d add.commute)
  qed
qed

text \<open>Working through one slice and then, with what was left of it in front, through another is working
  through both at once, when the final step only puts the rest aside.\<close>

lemma loop_slices:
  assumes "\<And>r s. finish r (put s) = finish r s" "\<And>c s. body c (put s) = put (body c s)"
  shows "loop (drop (length xs div size_of_chunk * size_of_chunk) xs @ ys)
      (put (foldl (\<lambda>s c. body c s) s (chunks_exact size_of_chunk xs))) = loop (xs @ ys) s"
proof -
  let ?r = "drop (length xs div size_of_chunk * size_of_chunk) xs"
  let ?n = "length xs div size_of_chunk * size_of_chunk"
  have put: "foldl (\<lambda>s c. body c s) (put s) cs = put (foldl (\<lambda>s c. body c s) s cs)" for cs s
    by (induction cs arbitrary: s) (simp_all add: assms(2))
  have le: "?n \<le> length xs" by simp
  have "length (xs @ ys) div size_of_chunk * size_of_chunk = ?n + length (?r @ ys) div size_of_chunk * size_of_chunk"
  proof -
    have "length (xs @ ys) = length xs div size_of_chunk * size_of_chunk + length (?r @ ys)"
      using le by (simp only: length_append length_drop)
    then have "length (xs @ ys) div size_of_chunk = length xs div size_of_chunk + length (?r @ ys) div size_of_chunk"
      using chunk_pos by (metis div_mult_self3 not_gr_zero)
    then show ?thesis by (simp only: add_mult_distrib)
  qed
  then have "drop (length (xs @ ys) div size_of_chunk * size_of_chunk) (xs @ ys) =
      drop (length (?r @ ys) div size_of_chunk * size_of_chunk) (drop ?n (xs @ ys))"
    by (simp only: drop_drop add.commute)
  also have "drop ?n (xs @ ys) = ?r @ ys" using le by (simp only: drop_append) simp
  finally have rest: "drop (length (xs @ ys) div size_of_chunk * size_of_chunk) (xs @ ys) =
      drop (length (?r @ ys) div size_of_chunk * size_of_chunk) (?r @ ys)" .
  show ?thesis
    unfolding loop_fold [of "xs @ ys"] loop_fold [of "?r @ ys"] rest chunks_exact_append [OF chunk_pos, of xs ys] put assms(1)
    by (simp only: foldl_append)
qed

end

section \<open>Wire formats\<close>

text \<open>
  The contract of a serialiser and its parser: what was written is read back whatever follows it,
  and whatever parses is an encoding with something after it. Injectivity, unique framing and the
  rejection of truncated encodings follow.
\<close>

locale wire_format =
  fixes valid :: "'a \<Rightarrow> bool"
    and enc :: "'a \<Rightarrow> bytes"
    and dec :: "bytes \<Rightarrow> 'a outcome"
  assumes dec_enc: "valid x \<Longrightarrow> dec (enc x @ rest) = Ok x"
    and dec_Ok: "dec b = Ok x \<Longrightarrow> valid x \<and> (\<exists>rest. b = enc x @ rest)"
begin

lemma dec_iff: "dec b = Ok x \<longleftrightarrow> valid x \<and> (\<exists>rest. b = enc x @ rest)"
  using dec_Ok dec_enc by blast

lemma roundtrip: "valid x \<Longrightarrow> dec (enc x) = Ok x"
  using dec_enc [of x "[]"] by simp

lemma framing:
  assumes "valid x" "valid y" "enc x @ r = enc y @ r'"
  shows "x = y \<and> r = r'"
proof -
  have "Ok x = dec (enc y @ r')" using dec_enc [OF assms(1), of r] assms(3) by simp
  then have "x = y" using dec_enc [OF assms(2), of r'] by simp
  with assms(3) show ?thesis by simp
qed

lemma enc_inj: "valid x \<Longrightarrow> valid y \<Longrightarrow> enc x = enc y \<Longrightarrow> x = y"
  using framing [of x y "[]" "[]"] by simp

lemma truncated:
  assumes "valid x" "n < length (enc x)"
  shows "dec (take n (enc x)) \<noteq> Ok y"
proof
  assume "dec (take n (enc x)) = Ok y"
  then obtain r where y: "valid y" and r: "take n (enc x) = enc y @ r"
    using dec_Ok by blast
  have "enc x @ [] = enc y @ (r @ drop n (enc x))"
    using r by (metis append_assoc append_Nil2 append_take_drop_id)
  then have "drop n (enc x) = []"
    using framing [OF assms(1) y] by fastforce
  with assms(2) show False by simp
qed

end

section \<open>Transition systems with an invariant\<close>

inductive reach :: "('s \<Rightarrow> bool) \<Rightarrow> ('s \<Rightarrow> 's \<Rightarrow> bool) \<Rightarrow> 's \<Rightarrow> bool"
  for start :: "'s \<Rightarrow> bool" and step :: "'s \<Rightarrow> 's \<Rightarrow> bool" where
  reach_start: "start s \<Longrightarrow> reach start step s"
| reach_step: "reach start step s \<Longrightarrow> step s t \<Longrightarrow> reach start step t"

locale invariant_system =
  fixes start :: "'s \<Rightarrow> bool"
    and step :: "'s \<Rightarrow> 's \<Rightarrow> bool"
    and inv :: "'s \<Rightarrow> bool"
  assumes start_inv: "start s \<Longrightarrow> inv s"
    and step_inv: "inv s \<Longrightarrow> step s t \<Longrightarrow> inv t"
begin

lemma reach_inv: "reach start step s \<Longrightarrow> inv s"
  by (induction rule: reach.induct) (auto intro: start_inv step_inv)

lemma steps_inv: "step\<^sup>*\<^sup>* s t \<Longrightarrow> inv s \<Longrightarrow> inv t"
  by (induction rule: rtranclp_induct) (auto intro: step_inv)

end

end
