(* ===== verification/Net.thy ===== *)
theory Net
  imports Prelude
begin

text \<open>
  The wire protocol of \<^verbatim>\<open>vc-core/src/net.rs\<close>: the packet types, the 8-byte header, the wire packet
  (header followed by the sealed payload) and the control payloads JOIN and PEER_LIST. Each
  serialiser with its parser is an instance of the wire-format interface. The PEER_LIST parser is
  translated with its running offset, so that the one index that can be out of range is a branch
  of the model.
\<close>

section \<open>Socket addresses of the standard library\<close>

datatype ipv4_addr = Ipv4Addr u8 u8 u8 u8

datatype ip_addr = IpV4 ipv4_addr | IpV6 bytes

text \<open>A V6 socket address carries, beside its 16 octets and port, a flow label and a scope id.\<close>

datatype socket_addr =
    SocketV4 ipv4_addr u16
  | SocketV6 bytes u16 u32 u32

fun ipv4_octets :: "ipv4_addr \<Rightarrow> bytes" where
  "ipv4_octets (Ipv4Addr a b c d) = [a, b, c, d]"

fun addr_ip :: "socket_addr \<Rightarrow> ip_addr" where
  "addr_ip (SocketV4 ip _) = IpV4 ip"
| "addr_ip (SocketV6 ip _ _ _) = IpV6 ip"

fun addr_port :: "socket_addr \<Rightarrow> u16" where
  "addr_port (SocketV4 _ p) = p"
| "addr_port (SocketV6 _ p _ _) = p"

text \<open>\<^verbatim>\<open>SocketAddr::new\<close>: flow label and scope id start at zero.\<close>

fun socket_addr_new :: "ip_addr \<Rightarrow> u16 \<Rightarrow> socket_addr" where
  "socket_addr_new (IpV4 ip) p = SocketV4 ip p"
| "socket_addr_new (IpV6 ip) p = SocketV6 ip p 0 0"

fun is_unspecified :: "ip_addr \<Rightarrow> bool" where
  "is_unspecified (IpV4 (Ipv4Addr a b c d)) = (a = 0 \<and> b = 0 \<and> c = 0 \<and> d = 0)"
| "is_unspecified (IpV6 ip) = (ip = replicate 16 0)"

section \<open>Packet types and sizes\<close>

definition PKT_AUDIO :: u8 where "PKT_AUDIO = 0x01"
definition PKT_JOIN :: u8 where "PKT_JOIN = 0x02"
definition PKT_HELLO :: u8 where "PKT_HELLO = 0x03"
definition PKT_PEER_LIST :: u8 where "PKT_PEER_LIST = 0x04"
definition PKT_KEEPALIVE :: u8 where "PKT_KEEPALIVE = 0x05"
definition PKT_HELLO_ACK :: u8 where "PKT_HELLO_ACK = 0x06"
definition PKT_PING :: u8 where "PKT_PING = 0x07"
definition PKT_PONG :: u8 where "PKT_PONG = 0x08"
definition PKT_KEY_EXCHANGE :: u8 where "PKT_KEY_EXCHANGE = 0x09"

definition HEADER_LEN :: nat where "HEADER_LEN = 8"
definition MAX_PACKET_LEN :: nat where "MAX_PACKET_LEN = 1200"

lemmas pkt_defs = PKT_AUDIO_def PKT_JOIN_def PKT_HELLO_def PKT_PEER_LIST_def PKT_KEEPALIVE_def
  PKT_HELLO_ACK_def PKT_PING_def PKT_PONG_def PKT_KEY_EXCHANGE_def

section \<open>The packet header\<close>

record packet_header =
  pkt_type :: u8
  peer_id :: u8
  seq_num :: u16
  counter :: u32

definition packet_header_new :: "u8 \<Rightarrow> u8 \<Rightarrow> u16 \<Rightarrow> u32 \<Rightarrow> packet_header" where
  "packet_header_new ty pid sn ctr = \<lparr>pkt_type = ty, peer_id = pid, seq_num = sn, counter = ctr\<rparr>"

definition header_to_bytes :: "packet_header \<Rightarrow> bytes" where
  "header_to_bytes h =
     [pkt_type h, peer_id h] @ u16_to_be_bytes (seq_num h) @ u32_to_be_bytes (counter h)"

definition header_from_bytes :: "bytes \<Rightarrow> packet_header outcome" where
  "header_from_bytes buf =
     (if length buf < HEADER_LEN then Err (HeaderTooShort (length buf))
      else Ok \<lparr>pkt_type = buf ! 0, peer_id = buf ! 1,
               seq_num = u16_from_be_bytes (buf ! 2) (buf ! 3),
               counter = u32_from_be_bytes (buf ! 4) (buf ! 5) (buf ! 6) (buf ! 7)\<rparr>)"

section \<open>Wire packets\<close>

definition build_wire_packet :: "bytes \<Rightarrow> bytes \<Rightarrow> bytes" where
  "build_wire_packet header encrypted_payload = header @ encrypted_payload"

definition parse_wire_packet :: "bytes \<Rightarrow> (bytes \<times> bytes) outcome" where
  "parse_wire_packet data =
     (if length data < HEADER_LEN then Err (PacketTooShort (length data))
      else Ok (take HEADER_LEN data, drop HEADER_LEN data))"

section \<open>Control payloads\<close>

record join_payload =
  listen_port :: u16

definition join_to_bytes :: "join_payload \<Rightarrow> bytes" where
  "join_to_bytes j = u16_to_be_bytes (listen_port j)"

definition join_from_bytes :: "bytes \<Rightarrow> join_payload outcome" where
  "join_from_bytes data =
     (if length data < 2 then Err JoinTooShort
      else Ok \<lparr>listen_port = u16_from_be_bytes (data ! 0) (data ! 1)\<rparr>)"

record peer_list_payload =
  pl_session_id :: bytes
  pl_peers :: "(u8 \<times> socket_addr) list"

fun peer_entry_bytes :: "u8 \<times> socket_addr \<Rightarrow> bytes" where
  "peer_entry_bytes (pid, SocketV4 ip port) = [pid, 4] @ ipv4_octets ip @ u16_to_be_bytes port"
| "peer_entry_bytes (pid, SocketV6 ip port _ _) = [pid, 6] @ ip @ u16_to_be_bytes port"

definition peer_list_to_bytes :: "peer_list_payload \<Rightarrow> bytes" where
  "peer_list_to_bytes pl =
     pl_session_id pl @ [word_of_nat (length (pl_peers pl))] @
     concat (map peer_entry_bytes (pl_peers pl))"

text \<open>The loop of \<^verbatim>\<open>PeerListPayload::from_bytes\<close>, one call per remaining entry.\<close>

fun peer_list_loop ::
  "nat \<Rightarrow> bytes \<Rightarrow> nat \<Rightarrow> (u8 \<times> socket_addr) list \<Rightarrow> (u8 \<times> socket_addr) list outcome" where
  "peer_list_loop 0 data off peers = Ok peers"
| "peer_list_loop (Suc n) data off peers =
     (if off \<ge> length data then Err PeerListTruncated
      else and_then (index data off) (\<lambda>pid.
        and_then (index data (off + 1)) (\<lambda>ip_ver.
          if ip_ver = 4 then
            (if off + 2 + 6 > length data then Err PeerListTruncatedV4
             else peer_list_loop n data (off + 2 + 6)
               (peers @ [(pid, SocketV4
                  (Ipv4Addr (data ! (off + 2)) (data ! (off + 3)) (data ! (off + 4)) (data ! (off + 5)))
                  (u16_from_be_bytes (data ! (off + 6)) (data ! (off + 7))))]))
          else if ip_ver = 6 then
            (if off + 2 + 18 > length data then Err PeerListTruncatedV6
             else peer_list_loop n data (off + 2 + 18)
               (peers @ [(pid, SocketV6 (take 16 (drop (off + 2) data))
                  (u16_from_be_bytes (data ! (off + 18)) (data ! (off + 19))) 0 0)]))
          else Err (UnknownIpVersion ip_ver))))"

definition peer_list_from_bytes :: "bytes \<Rightarrow> peer_list_payload outcome" where
  "peer_list_from_bytes data =
     (if length data < 9 then Err PeerListTooShort
      else and_then (peer_list_loop (unat (data ! 8)) data 9 [])
        (\<lambda>peers. Ok \<lparr>pl_session_id = take 8 data, pl_peers = peers\<rparr>))"

text \<open>
  The payloads the format can carry: an 8-byte session id, at most 255 peers (the count is one
  byte), 16 octets per IPv6 address, and no flow label or scope id, which the format leaves out.
\<close>

fun wire_addr :: "socket_addr \<Rightarrow> bool" where
  "wire_addr (SocketV4 _ _) = True"
| "wire_addr (SocketV6 ip _ flow scope) = (length ip = 16 \<and> flow = 0 \<and> scope = 0)"

definition wire_peer_list :: "peer_list_payload \<Rightarrow> bool" where
  "wire_peer_list pl \<longleftrightarrow>
     length (pl_session_id pl) = 8 \<and> length (pl_peers pl) < 256 \<and>
     list_all (\<lambda>(_, a). wire_addr a) (pl_peers pl)"

section \<open>Header and JOIN\<close>

lemma header_length [layout, simp]: "length (header_to_bytes h) = HEADER_LEN"
  by (simp add: header_to_bytes_def HEADER_LEN_def)

lemma header_from_to: "header_from_bytes (header_to_bytes h @ rest) = Ok h"
  by (simp add: header_from_bytes_def header_to_bytes_def HEADER_LEN_def u16_to_be_bytes_def
      u32_to_be_bytes_def u16_be_roundtrip u32_be_roundtrip)

lemma list_of_length_ge_8:
  assumes "8 \<le> length b"
  shows "b = [b!0, b!1, b!2, b!3, b!4, b!5, b!6, b!7] @ drop 8 b"
proof -
  have "take 8 b = [b!0, b!1, b!2, b!3, b!4, b!5, b!6, b!7]"
    using assms by (intro nth_equalityI) (auto simp: nth_Cons' less_Suc_eq numeral_eq_Suc)
  then show ?thesis by (metis append_take_drop_id)
qed

lemma header_to_from:
  assumes "header_from_bytes b = Ok h"
  shows "b = header_to_bytes h @ drop HEADER_LEN b"
proof -
  have l: "8 \<le> length b" using assms by (auto simp: header_from_bytes_def HEADER_LEN_def split: if_splits)
  have "header_to_bytes h = [b!0, b!1, b!2, b!3, b!4, b!5, b!6, b!7]"
    using assms by (auto simp: header_from_bytes_def header_to_bytes_def u16_be_roundtrip_bytes
        u32_be_roundtrip_bytes split: if_splits)
  with list_of_length_ge_8 [OF l] show ?thesis by (simp add: HEADER_LEN_def)
qed

interpretation header_wire: wire_format "\<lambda>_. True" header_to_bytes header_from_bytes
  using header_to_from by unfold_locales (auto simp: header_from_to)

lemma join_from_to: "join_from_bytes (join_to_bytes j @ rest) = Ok j"
  by (simp add: join_from_bytes_def join_to_bytes_def u16_to_be_bytes_def u16_be_roundtrip)

lemma join_to_from: "join_from_bytes b = Ok j \<Longrightarrow> \<exists>rest. b = join_to_bytes j @ rest"
  by (cases b; cases "tl b")
    (auto simp: join_from_bytes_def join_to_bytes_def u16_be_roundtrip_bytes split: if_splits)

interpretation join_wire: wire_format "\<lambda>_. True" join_to_bytes join_from_bytes
  using join_to_from by unfold_locales (auto simp: join_from_to)

section \<open>PEER_LIST\<close>

lemma ipv4_octets_length [layout, simp]: "length (ipv4_octets ip) = 4"
  by (cases ip) simp

lemma peer_entry_length [layout]:
  "wire_addr a \<Longrightarrow> length (peer_entry_bytes (pid, a)) = (case a of SocketV4 _ _ \<Rightarrow> 8 | _ \<Rightarrow> 20)"
  by (cases a) auto

text \<open>One entry read at an offset: what the loop does when the entry is there.\<close>

lemma loop_reads_entry:
  assumes "wire_addr a" "drop off data = peer_entry_bytes (pid, a) @ rest"
  shows "peer_list_loop (Suc n) data off acc =
    peer_list_loop n data (off + length (peer_entry_bytes (pid, a))) (acc @ [(pid, a)])"
proof -
  have len: "off < length data"
    using assms by (cases a) (auto simp: not_le intro!: leI dest: arg_cong [of _ _ length])
  have nth: "\<And>i. data ! (off + i) = (peer_entry_bytes (pid, a) @ rest) ! i"
    using assms(2) len by (metis nth_drop less_imp_le)
  have l: "length data = off + length (peer_entry_bytes (pid, a)) + length rest"
    using arg_cong [OF assms(2), of length] len by simp
  show ?thesis
  proof (cases a)
    case (SocketV4 ip port)
    obtain w x y z where ip: "ip = Ipv4Addr w x y z" by (cases ip)
    have e: "length (peer_entry_bytes (pid, a)) = 8" using SocketV4 by simp
    show ?thesis unfolding e
      using l [unfolded e] nth [of 0] nth [of 1] nth [of 2] nth [of 3] nth [of 4] nth [of 5] nth [of 6] nth [of 7]
      by (simp add: SocketV4 ip u16_to_be_bytes_def u16_be_roundtrip add.commute)
  next
    case (SocketV6 ip port fl sc)
    with assms(1) have ip: "length ip = 16" "fl = 0" "sc = 0" by auto
    have tk: "take 16 (drop (off + 2) data) = ip"
      using assms(2) ip SocketV6 by (metis (no_types, lifting) append.assoc append_Cons append_Nil
          append_eq_conv_conj drop_Suc_Cons drop_drop drop0 numeral_2_eq_2 peer_entry_bytes.simps(2) add.commute)
    have e: "length (peer_entry_bytes (pid, a)) = 20" using SocketV6 ip by simp
    show ?thesis unfolding e
      using l [unfolded e] nth [of 0] nth [of 1] nth [of 18] nth [of 19] tk ip
      by (simp add: SocketV6 u16_to_be_bytes_def u16_be_roundtrip nth_append add.commute)
  qed
qed

lemma loop_reads_entries:
  assumes "list_all (\<lambda>(_, a). wire_addr a) ps"
    and "drop off data = concat (map peer_entry_bytes ps) @ rest"
  shows "peer_list_loop (length ps + n) data off acc =
    peer_list_loop n data (off + length (concat (map peer_entry_bytes ps))) (acc @ ps)"
  using assms
proof (induction ps arbitrary: off acc)
  case Nil
  then show ?case by simp
next
  case (Cons p ps)
  obtain pid a where p: "p = (pid, a)" by (cases p)
  have d: "drop off data = peer_entry_bytes (pid, a) @ (concat (map peer_entry_bytes ps) @ rest)"
    using Cons.prems(2) p by simp
  have "drop (off + length (peer_entry_bytes (pid, a))) data = concat (map peer_entry_bytes ps) @ rest"
    using d by (metis add.commute append_eq_conv_conj drop_drop)
  with Cons.IH Cons.prems(1) p loop_reads_entry [OF _ d, of "length ps + n" acc] show ?case
    by (simp add: add.assoc)
qed

lemma drop_entry_v4:
  assumes "off + 8 \<le> length data" "data ! (off + 1) = 4"
  shows "drop off data = peer_entry_bytes (data ! off, SocketV4
     (Ipv4Addr (data ! (off + 2)) (data ! (off + 3)) (data ! (off + 4)) (data ! (off + 5)))
     (u16_from_be_bytes (data ! (off + 6)) (data ! (off + 7)))) @ drop (off + 8) data"
proof -
  have "8 \<le> length (drop off data)" using assms(1) by simp
  from list_of_length_ge_8 [OF this] show ?thesis
    using assms by (simp add: u16_be_roundtrip_bytes add.commute)
qed

lemma drop_entry_v6:
  assumes "off + 20 \<le> length data" "data ! (off + 1) = 6"
  shows "drop off data = peer_entry_bytes (data ! off, SocketV6 (take 16 (drop (off + 2) data))
     (u16_from_be_bytes (data ! (off + 18)) (data ! (off + 19))) 0 0) @ drop (off + 20) data"
proof -
  have a: "drop off data = data ! off # data ! (off + 1) # drop (off + 2) data"
    using assms(1) by (simp add: Cons_nth_drop_Suc)
  have b: "drop (off + 18) data = data ! (off + 18) # data ! (off + 19) # drop (off + 20) data"
    using assms(1) Cons_nth_drop_Suc [of "off + 18" data] Cons_nth_drop_Suc [of "off + 19" data]
    by (simp add: numeral_eq_Suc)
  have "drop (off + 2) data = take 16 (drop (off + 2) data) @ drop (off + 18) data"
    using append_take_drop_id [of 16 "drop (off + 2) data"] by (simp add: add.commute)
  with a b assms(2) show ?thesis by (simp add: u16_be_roundtrip_bytes)
qed

text \<open>
  The loop on any input: it stops with the entries it was asked for, with an error, or with a panic
  when exactly one byte, a peer id, is left for an entry.
\<close>

lemma loop_step_cases:
  assumes "peer_list_loop (Suc n) data off acc = r"
  obtains (truncated) e where "r = Err e"
    | (panic) pid where "r = Panic" "drop off data = [pid]"
    | (entry) pid a rest where "wire_addr a" "drop off data = peer_entry_bytes (pid, a) @ rest"
        "r = peer_list_loop n data (off + length (peer_entry_bytes (pid, a))) (acc @ [(pid, a)])"
proof -
  consider "off \<ge> length data" | "off < length data" "length data \<le> off + 1"
    | "off + 1 < length data" "data ! (off + 1) = 4" "off + 8 \<le> length data"
    | "off + 1 < length data" "data ! (off + 1) = 6" "off + 20 \<le> length data"
    | "off + 1 < length data" "data ! (off + 1) = 4" "off + 8 > length data"
    | "off + 1 < length data" "data ! (off + 1) = 6" "off + 20 > length data"
    | "off + 1 < length data" "data ! (off + 1) \<noteq> 4" "data ! (off + 1) \<noteq> 6"
    by linarith
  then show ?thesis
  proof cases
    case 2
    then have "drop off data = [data ! off]"
      by (metis Cons_nth_drop_Suc Suc_eq_plus1 drop_all)
    with 2 assms show ?thesis by (intro panic) (auto simp: index_def)
  next
    case 3
    note d = drop_entry_v4 [OF 3(3,2)]
    show ?thesis by (rule entry [OF _ d]) (use assms loop_reads_entry [OF _ d] in simp_all)
  next
    case 4
    note d = drop_entry_v6 [OF 4(3,2)]
    show ?thesis
      by (rule entry [OF _ d]) (use assms 4 loop_reads_entry [OF _ d, of n acc] in simp_all)
  qed (use assms truncated in \<open>auto simp: index_def\<close>)
qed

lemma loop_Ok:
  assumes "peer_list_loop n data off acc = Ok ps"
  shows "\<exists>qs rest. ps = acc @ qs \<and> length qs = n \<and> list_all (\<lambda>(_, a). wire_addr a) qs \<and>
    drop off data = concat (map peer_entry_bytes qs) @ rest"
  using assms
proof (induction n arbitrary: off acc)
  case 0
  then show ?case by simp
next
  case (Suc n)
  from Suc.prems show ?case
  proof (cases rule: loop_step_cases)
    case (entry pid a rest)
    from Suc.IH [OF entry(3) [symmetric]] obtain qs r where
      qs: "ps = (acc @ [(pid, a)]) @ qs" "length qs = n" "list_all (\<lambda>(_, a). wire_addr a) qs"
        "drop (off + length (peer_entry_bytes (pid, a))) data = concat (map peer_entry_bytes qs) @ r"
      by blast
    have "rest = concat (map peer_entry_bytes qs) @ r"
      using entry(2) qs(4) by (metis add.commute append_eq_conv_conj drop_drop)
    with qs entry show ?thesis
      by (intro exI [of _ "(pid, a) # qs"] exI [of _ r]) simp
  qed auto
qed

lemma loop_Panic_iff:
  "peer_list_loop n data off acc = Panic \<longleftrightarrow>
    (\<exists>qs pid. length qs < n \<and> list_all (\<lambda>(_, a). wire_addr a) qs \<and>
      drop off data = concat (map peer_entry_bytes qs) @ [pid])" (is "?L \<longleftrightarrow> ?R")
proof
  assume ?L
  then show ?R
  proof (induction n arbitrary: off acc)
    case (Suc n)
    from Suc.prems show ?case
    proof (cases rule: loop_step_cases)
      case (panic pid)
      then show ?thesis by (intro exI [of _ "[]"]) simp
    next
      case (entry pid a rest)
      from Suc.IH [OF entry(3) [symmetric]] obtain qs q where
        qs: "length qs < n" "list_all (\<lambda>(_, a). wire_addr a) qs"
          "drop (off + length (peer_entry_bytes (pid, a))) data = concat (map peer_entry_bytes qs) @ [q]"
        by blast
      have "rest = concat (map peer_entry_bytes qs) @ [q]"
        using entry(2) qs(3) by (metis add.commute append_eq_conv_conj drop_drop)
      with qs entry show ?thesis by (intro exI [of _ "(pid, a) # qs"] exI [of _ q]) simp
    qed auto
  qed simp
next
  assume ?R
  then obtain qs pid m where n: "n = length qs + Suc m"
    and qs: "list_all (\<lambda>(_, a). wire_addr a) qs" "drop off data = concat (map peer_entry_bytes qs) @ [pid]"
    by (metis add_Suc_right less_iff_Suc_add)
  let ?o = "off + length (concat (map peer_entry_bytes qs))"
  have "drop ?o data = [pid]"
    using qs(2) by (metis add.commute append_eq_conv_conj drop_drop)
  then have "length data - ?o = 1"
    by (metis One_nat_def length_Cons length_drop list.size(3))
  then have "?o < length data" "length data \<le> ?o + 1" by linarith+
  then show ?L
    unfolding n loop_reads_entries [OF qs] by (simp add: index_def)
qed

lemma split_at_8: "9 \<le> length b \<Longrightarrow> b = take 8 b @ [b ! 8] @ drop 9 b"
  using id_take_nth_drop [of 8 b] by (simp add: numeral_eq_Suc)

lemma peer_list_from_to:
  assumes "wire_peer_list pl"
  shows "peer_list_from_bytes (peer_list_to_bytes pl @ rest) = Ok pl"
proof -
  let ?d = "peer_list_to_bytes pl @ rest" and ?n = "length (pl_peers pl)"
  have sid: "length (pl_session_id pl) = 8" and n: "?n < 256"
    and w: "list_all (\<lambda>(_, a). wire_addr a) (pl_peers pl)"
    using assms by (auto simp: wire_peer_list_def)
  have cnt: "?d ! 8 = word_of_nat ?n" "9 \<le> length ?d" "take 8 ?d = pl_session_id pl"
    and d: "drop 9 ?d = concat (map peer_entry_bytes (pl_peers pl)) @ rest"
    using sid by (simp_all add: peer_list_to_bytes_def nth_append)
  have "unat (word_of_nat ?n :: u8) = ?n"
    using n by (simp add: unat_of_nat)
  then show ?thesis
    using loop_reads_entries [OF w d, of 0 "[]"] cnt
    by (simp add: peer_list_from_bytes_def)
qed

lemma peer_list_to_from:
  assumes "peer_list_from_bytes b = Ok pl"
  shows "wire_peer_list pl \<and> (\<exists>rest. b = peer_list_to_bytes pl @ rest)"
proof -
  have l: "9 \<le> length b" using assms by (auto simp: peer_list_from_bytes_def split: if_splits)
  obtain ps where loop: "peer_list_loop (unat (b ! 8)) b 9 [] = Ok ps"
    and pl: "pl = \<lparr>pl_session_id = take 8 b, pl_peers = ps\<rparr>"
    using assms l by (auto simp: peer_list_from_bytes_def and_then_eq_Ok)
  from loop_Ok [OF loop] obtain rest where ps: "length ps = unat (b ! 8)"
    "list_all (\<lambda>(_, a). wire_addr a) ps" and d: "drop 9 b = concat (map peer_entry_bytes ps) @ rest"
    by auto
  have "b = take 8 b @ [b ! 8] @ drop 9 b" by (rule split_at_8 [OF l])
  moreover have "word_of_nat (length ps) = b ! 8" by (simp add: ps(1))
  moreover have "unat (b ! 8) < 256" by (rule unat_u8)
  ultimately show ?thesis
    using pl ps l d by (auto simp: wire_peer_list_def peer_list_to_bytes_def)
qed

interpretation peer_list_wire: wire_format wire_peer_list peer_list_to_bytes peer_list_from_bytes
  using peer_list_to_from by unfold_locales (auto simp: peer_list_from_to)

section \<open>Properties\<close>

text \<open>
  The header parser accepts exactly the byte strings that start with a serialised header, and
  gives back that header: \<^verbatim>\<open>PacketHeader::from_bytes\<close> and \<^verbatim>\<open>to_bytes\<close> are inverse to each other,
  whatever follows the eight bytes.
\<close>

theorem header_parse_iff:
  "header_from_bytes b = Ok h \<longleftrightarrow> (\<exists>rest. b = header_to_bytes h @ rest)"
  using header_wire.dec_iff by simp

text \<open>
  \<^verbatim>\<open>parse_wire_packet\<close> splits a datagram into an 8-byte header and the rest exactly when
  \<^verbatim>\<open>build_wire_packet\<close> of the two gives the datagram back.
\<close>

theorem wire_packet_iff:
  "parse_wire_packet d = Ok (h, c) \<longleftrightarrow> length h = HEADER_LEN \<and> d = build_wire_packet h c"
  by (auto simp: parse_wire_packet_def build_wire_packet_def HEADER_LEN_def)

text \<open>
  C15. The PEER_LIST parser accepts exactly the encodings of payloads the format can carry (an 8-byte
  session id, at most 255 peers, no flow label or scope id), followed by anything, and gives back
  that payload.
\<close>

theorem peer_list_parse_iff:
  "peer_list_from_bytes b = Ok pl \<longleftrightarrow> wire_peer_list pl \<and> (\<exists>rest. b = peer_list_to_bytes pl @ rest)"
  by (rule peer_list_wire.dec_iff)

text \<open>
  A strict prefix of an encoded PEER_LIST is never accepted: truncation is always noticed.
\<close>

theorem peer_list_truncated:
  assumes "wire_peer_list pl" "n < length (peer_list_to_bytes pl)"
  shows "peer_list_from_bytes (take n (peer_list_to_bytes pl)) \<noteq> Ok pl'"
  using assms by (rule peer_list_wire.truncated)

definition sample_peer_list :: peer_list_payload where
  "sample_peer_list = \<lparr>pl_session_id = replicate 8 0xAA,
     pl_peers = [(0, SocketV4 (Ipv4Addr 192 168 1 1) 5000), (1, SocketV6 (replicate 16 7) 6000 0 0)]\<rparr>"

theorem peer_list_truncated_witness:
  "wire_peer_list sample_peer_list \<and> 10 < length (peer_list_to_bytes sample_peer_list) \<and>
   peer_list_from_bytes (take 10 (peer_list_to_bytes sample_peer_list)) \<noteq> Ok sample_peer_list"
proof -
  have w: "wire_peer_list sample_peer_list"
    by (simp add: wire_peer_list_def sample_peer_list_def)
  have l: "10 < length (peer_list_to_bytes sample_peer_list)"
    by (simp add: peer_list_to_bytes_def sample_peer_list_def)
  from w l peer_list_truncated [OF w l] show ?thesis by blast
qed

text \<open>
  C16. The PEER_LIST parser panics, instead of reporting a truncated payload, exactly on the inputs
  that announce more entries than they hold and end right after the next peer id: the version
  marker is read at \<^verbatim>\<open>data[offset]\<close> without a bounds check.
\<close>

theorem peer_list_panics_iff:
  "peer_list_from_bytes b = Panic \<longleftrightarrow>
    (\<exists>sid n ps pid. length sid = 8 \<and> length ps < unat n \<and> list_all (\<lambda>(_, a). wire_addr a) ps \<and>
      b = sid @ [n] @ concat (map peer_entry_bytes ps) @ [pid])" (is "_ \<longleftrightarrow> ?R")
proof
  assume P: "peer_list_from_bytes b = Panic"
  then have l: "9 \<le> length b" by (auto simp: peer_list_from_bytes_def split: if_splits)
  from P have "peer_list_loop (unat (b ! 8)) b 9 [] = Panic"
    by (auto simp: peer_list_from_bytes_def and_then_eq_Panic split: if_splits)
  then obtain ps pid where "length ps < unat (b ! 8)" "list_all (\<lambda>(_, a). wire_addr a) ps"
    "drop 9 b = concat (map peer_entry_bytes ps) @ [pid]"
    unfolding loop_Panic_iff by blast
  moreover have "b = take 8 b @ [b ! 8] @ drop 9 b" by (rule split_at_8 [OF l])
  ultimately show ?R
    using l by (intro exI [of _ "take 8 b"] exI [of _ "b ! 8"] exI [of _ ps] exI [of _ pid]) auto
next
  assume ?R
  then obtain sid n ps pid where r: "length sid = 8" "length ps < unat n"
    "list_all (\<lambda>(_, a). wire_addr a) ps" and b: "b = sid @ [n] @ concat (map peer_entry_bytes ps) @ [pid]"
    by blast
  then have "b ! 8 = n" "9 \<le> length b" "drop 9 b = concat (map peer_entry_bytes ps) @ [pid]"
    by (simp_all add: nth_append)
  with r have "peer_list_loop (unat (b ! 8)) b 9 [] = Panic"
    unfolding loop_Panic_iff by blast
  with \<open>9 \<le> length b\<close> show "peer_list_from_bytes b = Panic"
    by (simp add: peer_list_from_bytes_def)
qed

end
