(* ===== verification/Crypto.thy ===== *)
theory Crypto
  imports Net
begin

text \<open>
  Packet protection, \<^verbatim>\<open>vc-core/src/crypto.rs\<close>: the key derivation call, the deterministic nonce, the
  encryption context with its send counter, and the sliding-window replay filter. The primitives
  of the crates \<^verbatim>\<open>chacha20poly1305\<close>, \<^verbatim>\<open>argon2\<close>, \<^verbatim>\<open>x25519-dalek\<close> and \<^verbatim>\<open>hkdf\<close> are the fields of a record
  that every definition using them takes as an argument.
\<close>

section \<open>Primitives outside the repository\<close>

text \<open>
  \<open>aead_encrypt key nonce aad msg\<close> and \<open>aead_decrypt key nonce aad ct\<close> are XChaCha20-Poly1305 (\<open>None\<close>
  is the crate's opaque error); \<open>argon2id memory passes lanes password salt out_len\<close>;
  \<open>x25519_public secret\<close>, \<open>x25519_dh secret public\<close>; \<open>hkdf_sha256 salt ikm info out_len\<close>.
\<close>

record crypto_prims =
  aead_encrypt :: "bytes \<Rightarrow> bytes \<Rightarrow> bytes \<Rightarrow> bytes \<Rightarrow> bytes option"
  aead_decrypt :: "bytes \<Rightarrow> bytes \<Rightarrow> bytes \<Rightarrow> bytes \<Rightarrow> bytes option"
  argon2id :: "nat \<Rightarrow> nat \<Rightarrow> nat \<Rightarrow> bytes \<Rightarrow> bytes \<Rightarrow> nat \<Rightarrow> bytes option"
  x25519_public :: "bytes \<Rightarrow> bytes"
  x25519_dh :: "bytes \<Rightarrow> bytes \<Rightarrow> bytes"
  hkdf_sha256 :: "bytes \<Rightarrow> bytes \<Rightarrow> bytes \<Rightarrow> nat \<Rightarrow> bytes option"

definition AUTH_TAG_LEN :: nat where "AUTH_TAG_LEN = 16"
definition SLIDING_WINDOW_SIZE :: u64 where "SLIDING_WINDOW_SIZE = 64"

text \<open>
  What the code relies on of an AEAD: opening what was sealed, under the same key, nonce and
  associated data, gives the plaintext back, and the ciphertext is the tag longer.
\<close>

definition aead_ok :: "crypto_prims \<Rightarrow> bool" where
  "aead_ok P \<longleftrightarrow> (\<forall>k n a m c. aead_encrypt P k n a m = Some c \<longrightarrow>
     aead_decrypt P k n a c = Some m \<and> length c = length m + AUTH_TAG_LEN)"

section \<open>Key derivation and nonce\<close>

definition SALT :: bytes where
  "SALT = [0x76, 0x6F, 0x69, 0x63, 0x65, 0x63, 0x68, 0x61, 0x74, 0x2D, 0x76, 0x31, 0, 0, 0, 0]"

definition derive_key_from_passphrase :: "crypto_prims \<Rightarrow> bytes \<Rightarrow> bytes outcome" where
  "derive_key_from_passphrase P passphrase =
     ok_or Argon2Failed (argon2id P 65536 3 1 passphrase SALT 32)"

datatype direction = Send | Recv

fun direction_byte :: "direction \<Rightarrow> u8" where
  "direction_byte Send = 0x00"
| "direction_byte Recv = 0x01"

definition build_nonce :: "bytes \<Rightarrow> u8 \<Rightarrow> direction \<Rightarrow> u16 \<Rightarrow> u32 \<Rightarrow> bytes" where
  "build_nonce sid pid dir sn ctr =
     sid @ [pid, direction_byte dir] @ u16_to_be_bytes sn @ u32_to_be_bytes ctr @ replicate 8 0"

section \<open>The encryption context\<close>

record crypto_context =
  cipher_key :: bytes
  ctx_session_id :: bytes
  send_counter :: u32

definition crypto_context_new :: "bytes \<Rightarrow> bytes \<Rightarrow> crypto_context" where
  "crypto_context_new key sid = \<lparr>cipher_key = key, ctx_session_id = sid, send_counter = 0\<rparr>"

definition next_counter :: "crypto_context \<Rightarrow> u32 outcome \<times> crypto_context" where
  "next_counter ctx =
     (let ctr = send_counter ctx in
      case checked_add ctr 1 of
        None \<Rightarrow> (Err SendCounterOverflow, ctx)
      | Some n \<Rightarrow> (Ok ctr, ctx\<lparr>send_counter := n\<rparr>))"

definition encrypt ::
  "crypto_prims \<Rightarrow> crypto_context \<Rightarrow> bytes \<Rightarrow> bytes \<Rightarrow> u8 \<Rightarrow> u16 \<Rightarrow> u32 \<Rightarrow> bytes outcome" where
  "encrypt P ctx header payload pid sn ctr =
     ok_or EncryptFailed (aead_encrypt P (cipher_key ctx)
       (build_nonce (ctx_session_id ctx) pid Send sn ctr) header payload)"

definition decrypt ::
  "crypto_prims \<Rightarrow> crypto_context \<Rightarrow> bytes \<Rightarrow> bytes \<Rightarrow> u8 \<Rightarrow> u16 \<Rightarrow> u32 \<Rightarrow> bytes outcome" where
  "decrypt P ctx header ciphertext_with_tag pid sn ctr =
     ok_or DecryptFailed (aead_decrypt P (cipher_key ctx)
       (build_nonce (ctx_session_id ctx) pid Send sn ctr) header ciphertext_with_tag)"

section \<open>The replay filter\<close>

record replay_filter =
  highest :: u64
  bitmap :: u64

definition replay_filter_new :: replay_filter where
  "replay_filter_new = \<lparr>highest = 0, bitmap = 0\<rparr>"

definition check_and_accept :: "replay_filter \<Rightarrow> u32 \<Rightarrow> bool \<times> replay_filter" where
  "check_and_accept f ctr32 =
     (let ctr = ucast ctr32 :: u64 in
      if ctr > highest f then
        let shift = ctr - highest f;
            bm = (if shift \<ge> SLIDING_WINDOW_SIZE then 0 else push_bit (unat shift) (bitmap f))
        in (True, \<lparr>highest = ctr, bitmap = bm OR 1\<rparr>)
      else
        let diff = highest f - ctr in
        if diff \<ge> SLIDING_WINDOW_SIZE then (False, f)
        else let b = push_bit (unat diff) 1 in
          if bitmap f AND b \<noteq> 0 then (False, f)
          else (True, f\<lparr>bitmap := bitmap f OR b\<rparr>))"

text \<open>The counters a filter lets through, of a sequence of received ones, and the filter left.\<close>

fun accepted :: "('f \<Rightarrow> u32 \<Rightarrow> bool \<times> 'f) \<Rightarrow> 'f \<Rightarrow> u32 list \<Rightarrow> u32 list \<times> 'f" where
  "accepted acc f [] = ([], f)"
| "accepted acc f (c # cs) =
     (case acc f c of (ok, f') \<Rightarrow>
       (case accepted acc f' cs of (xs, f'') \<Rightarrow> (if ok then c # xs else xs, f'')))"

text \<open>Reserving \<open>n\<close> counters in a row; an overflow ends the list.\<close>

fun reserve :: "nat \<Rightarrow> crypto_context \<Rightarrow> u32 list" where
  "reserve 0 ctx = []"
| "reserve (Suc n) ctx =
     (case next_counter ctx of (Ok c, ctx') \<Rightarrow> c # reserve n ctx' | _ \<Rightarrow> [])"

section \<open>Nonces and counters\<close>

lemma nonce_length [layout]: "length sid = 8 \<Longrightarrow> length (build_nonce sid pid dir sn ctr) = 24"
  by (simp add: build_nonce_def)

lemma direction_byte_inject [simp]: "direction_byte d = direction_byte d' \<longleftrightarrow> d = d'"
  by (cases d; cases d') auto

lemma build_nonce_eq_iff:
  assumes "length sid = 8" "length sid' = 8"
  shows "build_nonce sid pid dir sn ctr = build_nonce sid' pid' dir' sn' ctr' \<longleftrightarrow>
    sid = sid' \<and> pid = pid' \<and> dir = dir' \<and> sn = sn' \<and> ctr = ctr'"
  using assms by (auto simp: build_nonce_def)

lemma next_counter_Ok:
  "next_counter ctx = (Ok c, ctx') \<longleftrightarrow>
     c = send_counter ctx \<and> unat c + 1 < 2 ^ 32 \<and> ctx' = ctx\<lparr>send_counter := c + 1\<rparr>"
  by (auto simp: next_counter_def checked_add_def Let_def split: option.splits if_splits)

lemma next_counter_frame:
  "next_counter ctx = (r, ctx') \<Longrightarrow>
     cipher_key ctx' = cipher_key ctx \<and> ctx_session_id ctx' = ctx_session_id ctx"
  by (auto simp: next_counter_def Let_def split: option.splits)

lemma next_counter_mono:
  "next_counter ctx = (r, ctx') \<Longrightarrow> send_counter ctx \<le> send_counter ctx'"
  by (auto simp: next_counter_def Let_def word_le_nat_alt dest: checked_add_Some split: option.splits)

lemma next_counter_not_Panic: "next_counter ctx \<noteq> (Panic, ctx')"
  by (auto simp: next_counter_def Let_def split: option.splits)

lemma reserve_bounds:
  "c \<in> set (reserve n ctx) \<Longrightarrow> unat (send_counter ctx) \<le> unat c \<and> unat c < unat (send_counter ctx) + n"
proof (induction n arbitrary: ctx)
  case (Suc n)
  obtain r ctx' where nc: "next_counter ctx = (r, ctx')" by fastforce
  show ?case
  proof (cases r)
    case (Ok x)
    with nc have x: "x = send_counter ctx" "unat x + 1 < 2 ^ 32" "ctx' = ctx\<lparr>send_counter := x + 1\<rparr>"
      by (auto simp: next_counter_Ok)
    then have "unat (send_counter ctx') = unat x + 1" by (simp add: unat_word_ariths)
    with Suc Ok nc x show ?thesis by fastforce
  qed (use Suc.prems nc in auto)
qed simp

lemma reserve_distinct: "distinct (reserve n ctx)"
proof (induction n arbitrary: ctx)
  case (Suc n)
  obtain r ctx' where nc: "next_counter ctx = (r, ctx')" by fastforce
  show ?case
  proof (cases r)
    case (Ok x)
    with nc have x: "x = send_counter ctx" "unat x + 1 < 2 ^ 32" "ctx' = ctx\<lparr>send_counter := x + 1\<rparr>"
      by (auto simp: next_counter_Ok)
    then have "unat (send_counter ctx') = unat x + 1" by (simp add: unat_word_ariths)
    then have "x \<notin> set (reserve n ctx')" using reserve_bounds by fastforce
    with Suc Ok nc show ?thesis by simp
  qed (use nc in auto)
qed simp

section \<open>Sealing and opening\<close>

lemma decrypt_encrypt:
  assumes "aead_ok P" "cipher_key rx = cipher_key tx" "ctx_session_id rx = ctx_session_id tx"
    and "encrypt P tx h m pid sn ctr = Ok c"
  shows "decrypt P rx h c pid sn ctr = Ok m"
  using assms by (simp add: encrypt_def decrypt_def aead_ok_def ok_or_eq_Ok)

lemma encrypt_length:
  "aead_ok P \<Longrightarrow> encrypt P tx h m pid sn ctr = Ok c \<Longrightarrow> length c = length m + AUTH_TAG_LEN"
  by (simp add: encrypt_def aead_ok_def ok_or_eq_Ok)

lemma encrypt_not_Panic [simp]: "encrypt P tx h m pid sn ctr \<noteq> Panic"
  by (simp add: encrypt_def)

lemma decrypt_not_Panic [simp]: "decrypt P rx h m pid sn ctr \<noteq> Panic"
  by (simp add: decrypt_def)

section \<open>The replay window\<close>

text \<open>
  What a filter state stands for: a set of accepted counters, of which the highest is kept and the
  bitmap records which of the last 64 values are in the set.
\<close>

definition filter_rep :: "replay_filter \<Rightarrow> u32 set \<Rightarrow> bool" where
  "filter_rep f S \<longleftrightarrow>
     unat (highest f) = Max (insert 0 (unat ` S)) \<and>
     (\<forall>i < 64. bit (bitmap f) i \<longleftrightarrow> (\<exists>c \<in> S. unat c + i = unat (highest f)))"

lemma unat_widen [simp]: "unat (ucast (c :: u32) :: u64) = unat c"
  using unat_u32 [of c] by (simp add: unsigned_ucast_eq take_bit_nat_eq_self_iff)

lemma filter_rep_le: "filter_rep f S \<Longrightarrow> c \<in> S \<Longrightarrow> unat c \<le> unat (highest f)"
  by (simp add: filter_rep_def)

lemma filter_rep_new: "filter_rep replay_filter_new {}"
  by (simp add: filter_rep_def replay_filter_new_def)

lemma window_unat: "SLIDING_WINDOW_SIZE \<le> w \<longleftrightarrow> 64 \<le> unat w"
  by (simp add: SLIDING_WINDOW_SIZE_def word_le_nat_alt)

text \<open>The decision, in numbers.\<close>

definition window_accepts :: "nat \<Rightarrow> u32 set \<Rightarrow> u32 \<Rightarrow> bool" where
  "window_accepts h S c \<longleftrightarrow> h < unat c \<or> (h - unat c < 64 \<and> c \<notin> S)"

lemma filter_rep_bit:
  assumes "filter_rep f S" "unat c \<le> unat (highest f)" "unat (highest f) - unat c < 64"
  shows "bit (bitmap f) (unat (highest f) - unat c) \<longleftrightarrow> c \<in> S"
proof -
  have "bit (bitmap f) (unat (highest f) - unat c) \<longleftrightarrow>
      (\<exists>x \<in> S. unat x + (unat (highest f) - unat c) = unat (highest f))"
    using assms by (simp add: filter_rep_def)
  also have "\<dots> \<longleftrightarrow> (\<exists>x \<in> S. unat x = unat c)"
    using assms(2) by (intro bex_cong refl) linarith
  also have "\<dots> \<longleftrightarrow> c \<in> S" by (metis word_unat_eq_iff)
  finally show ?thesis .
qed

lemma check_and_accept_new_highest:
  assumes rep: "filter_rep f S" and gt: "unat (highest f) < unat c"
  shows "\<exists>f'. check_and_accept f c = (True, f') \<and> filter_rep f' (insert c S)"
proof -
  let ?c = "ucast c :: u64" and ?h = "unat (highest f)"
  let ?sh = "?c - highest f"
  let ?bm = "if ?sh \<ge> SLIDING_WINDOW_SIZE then 0 else push_bit (unat ?sh) (bitmap f)"
  have g: "highest f < ?c" using gt by (simp add: word_less_nat_alt)
  then have sh: "unat ?sh = unat c - ?h" by (simp add: unat_sub less_imp_le)
  have "bit (?bm OR 1) i \<longleftrightarrow> (\<exists>x \<in> insert c S. unat x + i = unat c)" if i: "i < 64" for i
  proof (cases "i = 0")
    case False
    have "bit (?bm OR 1) i \<longleftrightarrow> unat ?sh \<le> i \<and> bit (bitmap f) (i - unat ?sh)"
      using i False by (auto simp: bit_simps window_unat)
    also have "\<dots> \<longleftrightarrow> unat c - ?h \<le> i \<and> (\<exists>x \<in> S. unat x + (i - (unat c - ?h)) = ?h)"
      using rep i by (auto simp: filter_rep_def sh)
    also have "\<dots> \<longleftrightarrow> (\<exists>x \<in> S. unat c - ?h \<le> i \<and> unat x + (i - (unat c - ?h)) = ?h)"
      by blast
    also have "\<dots> \<longleftrightarrow> (\<exists>x \<in> S. unat x + i = unat c)"
    proof (intro bex_cong refl)
      fix x assume "x \<in> S"
      then show "unat c - ?h \<le> i \<and> unat x + (i - (unat c - ?h)) = ?h \<longleftrightarrow> unat x + i = unat c"
        using gt filter_rep_le [OF rep, of x] by linarith
    qed
    finally show ?thesis using False by auto
  qed (auto simp: bit_simps)
  moreover have "Max (insert 0 (unat ` insert c S)) = unat c"
    using gt filter_rep_le [OF rep] by (intro Max_eqI) fastforce+
  ultimately have "filter_rep \<lparr>highest = ?c, bitmap = ?bm OR 1\<rparr> (insert c S)"
    by (simp add: filter_rep_def)
  then show ?thesis using g by (simp add: check_and_accept_def Let_def)
qed

lemma check_and_accept_in_window:
  assumes rep: "filter_rep f S" and le: "unat c \<le> unat (highest f)"
    and win: "unat (highest f) - unat c < 64" and new: "c \<notin> S"
  shows "\<exists>f'. check_and_accept f c = (True, f') \<and> filter_rep f' (insert c S)"
proof -
  let ?d = "unat (highest f) - unat c"
  have ng: "\<not> highest f < (ucast c :: u64)" using le by (simp add: word_less_nat_alt)
  then have d: "unat (highest f - ucast c) = ?d" by (simp add: unat_sub not_less)
  have nb: "\<not> bit (bitmap f) ?d" using filter_rep_bit [OF rep le win] new by simp
  have "bit (bitmap f OR push_bit ?d 1) i \<longleftrightarrow> (\<exists>x \<in> insert c S. unat x + i = unat (highest f))"
    if i: "i < 64" for i
    using rep i le by (auto simp: filter_rep_def bit_simps)
  moreover have "Max (insert 0 (unat ` insert c S)) = unat (highest f)"
    using rep le by (simp add: filter_rep_def insert_commute [of 0] max_def)
  ultimately have "filter_rep (f\<lparr>bitmap := bitmap f OR push_bit ?d 1\<rparr>) (insert c S)"
    by (simp add: filter_rep_def)
  then show ?thesis
    using ng nb win d
    by (simp add: check_and_accept_def Let_def window_unat bit_iff_and_push_bit_not_eq_0)
qed

lemma check_and_accept_rejects:
  assumes rep: "filter_rep f S" and no: "\<not> window_accepts (unat (highest f)) S c"
  shows "check_and_accept f c = (False, f)"
proof -
  have le: "unat c \<le> unat (highest f)" using no by (auto simp: window_accepts_def)
  then have ng: "\<not> highest f < (ucast c :: u64)" by (simp add: word_less_nat_alt)
  then have d: "unat (highest f - ucast c) = unat (highest f) - unat c" by (simp add: unat_sub not_less)
  show ?thesis
  proof (cases "unat (highest f) - unat c < 64")
    case True
    then have "c \<in> S" using no by (simp add: window_accepts_def)
    then have "bit (bitmap f) (unat (highest f) - unat c)" using filter_rep_bit [OF rep le True] by simp
    then show ?thesis using ng d True
      by (simp add: check_and_accept_def Let_def window_unat bit_iff_and_push_bit_not_eq_0)
  next
    case False
    then show ?thesis using ng d by (simp add: check_and_accept_def Let_def window_unat)
  qed
qed

text \<open>
  The contract the receiver relies on: a filter state stands for the set of counters it has let
  through; it decides by the window rule, records what it lets through and is unchanged by what it
  rejects. At-most-once acceptance, over any sequence of received counters, follows.
\<close>

locale replay_guard =
  fixes check :: "'f \<Rightarrow> u32 \<Rightarrow> bool \<times> 'f"
    and stands_for :: "'f \<Rightarrow> u32 set \<Rightarrow> bool"
    and admits :: "u32 set \<Rightarrow> u32 \<Rightarrow> bool"
  assumes admit_fresh: "admits S c \<Longrightarrow> c \<notin> S"
    and check_admits: "stands_for f S \<Longrightarrow> admits S c \<Longrightarrow>
      \<exists>f'. check f c = (True, f') \<and> stands_for f' (insert c S)"
    and check_rejects: "stands_for f S \<Longrightarrow> \<not> admits S c \<Longrightarrow> check f c = (False, f)"
begin

lemma check_decides: "stands_for f S \<Longrightarrow> fst (check f c) \<longleftrightarrow> admits S c"
  using check_admits check_rejects by fastforce

lemma check_stands_for:
  "stands_for f S \<Longrightarrow> check f c = (ok, f') \<Longrightarrow> stands_for f' (if ok then insert c S else S)"
  using check_admits [of f S c] check_rejects [of f S c] by (cases "admits S c") auto

lemma check_twice: "stands_for f S \<Longrightarrow> check f c = (True, f') \<Longrightarrow> check f' c = (False, f')"
  using check_stands_for [of f S c True f'] admit_fresh check_rejects by fastforce

lemma accepted_stands_for:
  "stands_for f S \<Longrightarrow> accepted check f cs = (xs, f') \<Longrightarrow> stands_for f' (S \<union> set xs)"
proof (induction cs arbitrary: f S xs f')
  case (Cons c cs)
  obtain ok g where g: "check f c = (ok, g)" by fastforce
  obtain ys h where y: "accepted check g cs = (ys, h)" by fastforce
  from Cons.IH [OF check_stands_for [OF Cons.prems(1) g] y] Cons.prems(2) g y show ?case
    by (auto split: if_splits)
qed simp

lemma accepted_once:
  "stands_for f S \<Longrightarrow> accepted check f cs = (xs, f') \<Longrightarrow> distinct xs \<and> set xs \<inter> S = {}"
proof (induction cs arbitrary: f S xs f')
  case (Cons c cs)
  obtain ok g where g: "check f c = (ok, g)" by fastforce
  obtain ys h where y: "accepted check g cs = (ys, h)" by fastforce
  have "ok \<Longrightarrow> c \<notin> S" using check_decides [OF Cons.prems(1), of c] admit_fresh g by auto
  with Cons.IH [OF check_stands_for [OF Cons.prems(1) g] y] Cons.prems(2) g y show ?case
    by (auto split: if_splits)
qed simp

end

definition window_admits :: "u32 set \<Rightarrow> u32 \<Rightarrow> bool" where
  "window_admits S c = window_accepts (Max (insert 0 (unat ` S))) S c"

interpretation window: replay_guard check_and_accept filter_rep window_admits
proof unfold_locales
  fix S c
  assume a: "window_admits S c"
  show "c \<notin> S"
  proof
    assume "c \<in> S"
    then have "unat c \<le> Max (insert 0 (unat ` S))" by simp
    with a \<open>c \<in> S\<close> show False
      by (auto simp add: window_admits_def window_accepts_def)
  qed
next
  fix f S c
  assume r: "filter_rep f S" and a: "window_admits S c"
  then have "window_accepts (unat (highest f)) S c" by (simp add: window_admits_def filter_rep_def)
  then show "\<exists>f'. check_and_accept f c = (True, f') \<and> filter_rep f' (insert c S)"
    using check_and_accept_new_highest [OF r, of c] check_and_accept_in_window [OF r, of c]
    unfolding window_accepts_def by (metis not_less)
next
  fix f S c
  assume r: "filter_rep f S" and a: "\<not> window_admits S c"
  then show "check_and_accept f c = (False, f)"
    by (intro check_and_accept_rejects [OF r]) (simp add: window_admits_def filter_rep_def)
qed

lemma replay_filter_default: "accepted check_and_accept replay_filter_new cs = (xs, f) \<Longrightarrow> filter_rep f (set xs)"
  using window.accepted_stands_for [OF filter_rep_new] by simp

section \<open>A concrete instance of the primitives\<close>

text \<open>
  Functions with the documented laws, to evaluate the model on: the sealed message is the message
  and a 16-byte checksum of key, nonce, associated data and message; the key agreement adds the two
  secrets; key derivation repeats a checksum of its inputs.
\<close>

definition demo_tag :: "bytes \<Rightarrow> bytes \<Rightarrow> bytes \<Rightarrow> bytes \<Rightarrow> bytes" where
  "demo_tag k n a m = replicate 16 (sum_list k + sum_list n + sum_list a + sum_list m)"

definition demo_prims :: crypto_prims where
  "demo_prims = \<lparr>
     aead_encrypt = (\<lambda>k n a m. Some (m @ demo_tag k n a m)),
     aead_decrypt = (\<lambda>k n a c. let m = take (length c - 16) c in
       if length c \<ge> 16 \<and> drop (length c - 16) c = demo_tag k n a m then Some m else None),
     argon2id = (\<lambda>_ _ _ p s l. Some (replicate l (sum_list p + sum_list s))),
     x25519_public = (\<lambda>a. replicate 32 (sum_list a)),
     x25519_dh = (\<lambda>a b. replicate 32 (sum_list a * hd (b @ [0]))),
     hkdf_sha256 = (\<lambda>s i f l. Some (replicate l (sum_list s + sum_list i + sum_list f)))\<rparr>"

lemma demo_aead_ok: "aead_ok demo_prims"
  by (auto simp: aead_ok_def demo_prims_def demo_tag_def AUTH_TAG_LEN_def)

section \<open>Properties\<close>

text \<open>
  The nonce is an injective function of session id, sender id, direction, sequence number and
  counter: two packets share a nonce only if all five agree.
\<close>

theorem build_nonce_injective:
  assumes "length sid = 8" "length sid' = 8"
  shows "build_nonce sid pid dir sn ctr = build_nonce sid' pid' dir' sn' ctr' \<longleftrightarrow>
    sid = sid' \<and> pid = pid' \<and> dir = dir' \<and> sn = sn' \<and> ctr = ctr'"
  using assms by (rule build_nonce_eq_iff)

theorem build_nonce_injective_witness:
  "length (replicate 8 0xAA :: bytes) = 8 \<and>
   build_nonce (replicate 8 0xAA) 3 Send 42 7 \<noteq> build_nonce (replicate 8 0xAA) 3 Send 42 8"
  using build_nonce_injective [of "replicate 8 0xAA" "replicate 8 0xAA" 3 Send 42 7 3 Send 42 8] by simp

text \<open>
  Nonces of one sending context never repeat: the counters \<^verbatim>\<open>next_counter\<close> hands out are pairwise
  different, so are the nonces built from them, whatever sender ids and sequence numbers go in, and
  once the 32-bit counter is used up every further call is an error.
\<close>

theorem reserved_nonces_distinct:
  "distinct (map (\<lambda>(c, pid, sn). build_nonce (ctx_session_id ctx) pid Send sn c)
     (zip (reserve n ctx) ids)) \<and>
   next_counter (ctx\<lparr>send_counter := - 1\<rparr>) = (Err SendCounterOverflow, ctx\<lparr>send_counter := - 1\<rparr>)"
proof
  let ?f = "\<lambda>(c, pid, sn). build_nonce (ctx_session_id ctx) pid Send sn c"
  have eq: "?f x = ?f y \<longleftrightarrow> x = y" for x y
    by (auto simp: build_nonce_def split: prod.splits)
  have "distinct (zip (reserve n ctx) ids)" by (rule distinct_zipI1 [OF reserve_distinct])
  then show "distinct (map ?f (zip (reserve n ctx) ids))"
    by (simp add: distinct_map inj_on_def eq)
  show "next_counter (ctx\<lparr>send_counter := - 1\<rparr>) = (Err SendCounterOverflow, ctx\<lparr>send_counter := - 1\<rparr>)"
    by (simp add: next_counter_def checked_add_def Let_def unsigned_minus_1_eq_mask mask_eq_exp_minus_1)
qed

text \<open>
  What one context seals, any context with the same key and session id opens to the same
  plaintext, given the header, sender id, sequence number and counter of the packet; the sealed
  payload is 16 bytes longer.
\<close>

theorem seal_open_roundtrip:
  assumes "aead_ok P" "cipher_key rx = cipher_key tx" "ctx_session_id rx = ctx_session_id tx"
    and "encrypt P tx h m pid sn ctr = Ok c"
  shows "decrypt P rx h c pid sn ctr = Ok m \<and> length c = length m + AUTH_TAG_LEN"
  using decrypt_encrypt [OF assms] encrypt_length [OF assms(1,4)] by blast

theorem seal_open_roundtrip_witness:
  "\<exists>c. encrypt demo_prims (crypto_context_new [1, 2] (replicate 8 9)) [7] [104, 105] 0 1 5 = Ok c \<and>
     decrypt demo_prims (crypto_context_new [1, 2] (replicate 8 9)) [7] c 0 1 5 = Ok [104, 105]"
proof -
  let ?t = "crypto_context_new [1, 2] (replicate 8 9)"
  obtain c where c: "encrypt demo_prims ?t [7] [104, 105] 0 1 5 = Ok c"
    by (simp add: encrypt_def demo_prims_def)
  from seal_open_roundtrip [OF demo_aead_ok refl refl c] c show ?thesis by blast
qed

text \<open>
  C7. The bitmap filter decides exactly by the window rule on the set of counters it has accepted so
  far: a received counter passes if and only if it exceeds every accepted one, or is less than 64
  behind the highest and has not been accepted before.
\<close>

theorem replay_filter_decision:
  assumes "accepted check_and_accept replay_filter_new cs = (xs, f)"
  shows "fst (check_and_accept f c) \<longleftrightarrow>
    (let h = Max (insert 0 (unat ` set xs)) in h < unat c \<or> (h - unat c < 64 \<and> c \<notin> set xs))"
  using window.check_decides [OF replay_filter_default [OF assms], of c]
  by (simp add: window_admits_def window_accepts_def Let_def)

theorem replay_filter_decision_witness:
  "accepted check_and_accept replay_filter_new [1, 100] = ([1, 100], \<lparr>highest = 100, bitmap = 1\<rparr>) \<and>
   fst (check_and_accept \<lparr>highest = 100, bitmap = 1\<rparr> 50) \<and> \<not> fst (check_and_accept \<lparr>highest = 100, bitmap = 1\<rparr> 30)"
proof -
  have a: "accepted check_and_accept replay_filter_new [1, 100] = ([1, 100], \<lparr>highest = 100, bitmap = 1\<rparr>)"
    by (simp add: replay_filter_new_def check_and_accept_def SLIDING_WINDOW_SIZE_def)
  show ?thesis
    using a replay_filter_decision [OF a, of 50] replay_filter_decision [OF a, of 30]
    by (simp add: Let_def)
qed

text \<open>
  No counter is ever accepted twice: over any sequence of received counters, with any repetition
  and reordering, the accepted ones are pairwise different.
\<close>

theorem replay_filter_at_most_once:
  "distinct (fst (accepted check_and_accept replay_filter_new cs))"
  using window.accepted_once [OF filter_rep_new] by (metis prod.collapse)

lemma window_admits_newer:
  assumes "\<And>x. x \<in> S \<Longrightarrow> x < c"
  shows "window_admits S c"
proof (cases "S = {}")
  case False
  then have "Max (insert 0 (unat ` S)) < unat c \<or> unat c = 0"
    using assms by (auto simp: word_less_nat_alt)
  with False assms show ?thesis
    by (fastforce simp: window_admits_def window_accepts_def word_less_nat_alt)
qed (auto simp: window_admits_def window_accepts_def)

text \<open>
  A stream that arrives in order is never dropped: strictly increasing counters are all accepted.
\<close>

theorem replay_filter_in_order:
  assumes "sorted_wrt (<) cs"
  shows "fst (accepted check_and_accept replay_filter_new cs) = cs"
proof -
  have "filter_rep f S \<Longrightarrow> sorted_wrt (<) cs \<Longrightarrow> (\<And>x c. x \<in> S \<Longrightarrow> c \<in> set cs \<Longrightarrow> x < c) \<Longrightarrow>
    fst (accepted check_and_accept f cs) = cs" for f S
  proof (induction cs arbitrary: f S)
    case (Cons c cs)
    have "window_admits S c" using Cons.prems(3) by (intro window_admits_newer) simp
    then obtain g where g: "check_and_accept f c = (True, g)" "filter_rep g (insert c S)"
      using window.check_admits [OF Cons.prems(1)] by blast
    have "fst (accepted check_and_accept g cs) = cs"
      by (rule Cons.IH [OF g(2)]) (use Cons.prems(2,3) in auto)
    with g(1) show ?case by (auto split: prod.splits)
  qed simp
  from this [OF filter_rep_new assms] show ?thesis by simp
qed

theorem replay_filter_in_order_witness:
  "fst (accepted check_and_accept replay_filter_new [0, 3, 200]) = [0, 3, 200]"
  by (rule replay_filter_in_order) simp

end
