(* ===== verification/Key_Exchange.thy ===== *)
theory Key_Exchange
  imports Crypto
begin

text \<open>
  The ephemeral key agreement of \<^verbatim>\<open>vc-core/src/key_exchange.rs\<close>: X25519 and HKDF are parameters; the
  rejection of a zero shared secret, the sorted peer ids in the info string and the KEY_EXCHANGE
  payload are translated.
\<close>

record key_exchange =
  kx_secret :: bytes
  kx_public :: bytes

text \<open>The random secret is an argument: \<^verbatim>\<open>rand::thread_rng\<close> draws it.\<close>

definition key_exchange_new :: "crypto_prims \<Rightarrow> bytes \<Rightarrow> key_exchange" where
  "key_exchange_new P secret = \<lparr>kx_secret = secret, kx_public = x25519_public P secret\<rparr>"

definition public_key_bytes :: "key_exchange \<Rightarrow> bytes" where
  "public_key_bytes kx = kx_public kx"

definition INFO_PREFIX :: bytes where
  "INFO_PREFIX =
     [0x76, 0x6F, 0x69, 0x63, 0x65, 0x63, 0x68, 0x61, 0x74, 0x2D, 0x61, 0x75, 0x64, 0x69, 0x6F]"

definition derive_peer_key ::
  "crypto_prims \<Rightarrow> key_exchange \<Rightarrow> bytes \<Rightarrow> bytes \<Rightarrow> u8 \<Rightarrow> u8 \<Rightarrow> bytes outcome" where
  "derive_peer_key P kx peer_public_bytes sid lid pid =
     (let shared_secret = x25519_dh P (kx_secret kx) peer_public_bytes in
      if list_all (\<lambda>b. b = 0) shared_secret then Err ZeroSharedSecret
      else
        let (id_low, id_high) = (if lid < pid then (lid, pid) else (pid, lid));
            info = INFO_PREFIX @ [id_low] @ [id_high]
        in ok_or HkdfFailed (hkdf_sha256 P sid shared_secret info 32))"

record key_exchange_payload =
  public_key :: bytes

definition kx_to_bytes :: "key_exchange_payload \<Rightarrow> bytes" where
  "kx_to_bytes k = public_key k"

definition kx_from_bytes :: "bytes \<Rightarrow> key_exchange_payload outcome" where
  "kx_from_bytes data =
     (if length data < 32 then Err (KeyExchangeTooShort (length data))
      else Ok \<lparr>public_key = take 32 data\<rparr>)"

definition wire_kx :: "key_exchange_payload \<Rightarrow> bool" where
  "wire_kx k \<longleftrightarrow> length (public_key k) = 32"

text \<open>What the code relies on of X25519: both sides compute the same shared secret.\<close>

definition dh_ok :: "crypto_prims \<Rightarrow> bool" where
  "dh_ok P \<longleftrightarrow> (\<forall>a b. x25519_dh P a (x25519_public P b) = x25519_dh P b (x25519_public P a)) \<and>
     (\<forall>a. length (x25519_public P a) = 32)"

lemma kx_wire_Ok: "kx_from_bytes b = Ok k \<Longrightarrow> wire_kx k \<and> (\<exists>rest. b = kx_to_bytes k @ rest)"
  by (auto simp: kx_from_bytes_def kx_to_bytes_def wire_kx_def split: if_splits)
    (metis append_take_drop_id)

interpretation kx_wire: wire_format wire_kx kx_to_bytes kx_from_bytes
  using kx_wire_Ok
  by unfold_locales (auto simp: kx_from_bytes_def kx_to_bytes_def wire_kx_def)

lemma demo_dh_ok: "dh_ok demo_prims"
  by (simp add: dh_ok_def demo_prims_def hd_append)

lemma derive_peer_key_comm:
  assumes "dh_ok P"
  shows "derive_peer_key P (key_exchange_new P a) (public_key_bytes (key_exchange_new P b)) sid x y =
    derive_peer_key P (key_exchange_new P b) (public_key_bytes (key_exchange_new P a)) sid y x"
proof -
  have "x25519_dh P a (x25519_public P b) = x25519_dh P b (x25519_public P a)"
    using assms by (simp add: dh_ok_def)
  then show ?thesis
    unfolding derive_peer_key_def key_exchange_new_def public_key_bytes_def
    by (cases x y rule: linorder_cases) (auto simp: Let_def)
qed

text \<open>
  Both ends of a key exchange derive the same outcome, key or error, from the other's public key,
  whoever is local and whoever is the peer.
\<close>

theorem derive_peer_key_symmetric:
  assumes "dh_ok P"
  shows "derive_peer_key P (key_exchange_new P a) (public_key_bytes (key_exchange_new P b)) sid x y =
    derive_peer_key P (key_exchange_new P b) (public_key_bytes (key_exchange_new P a)) sid y x"
  by (rule derive_peer_key_comm [OF assms])

theorem derive_peer_key_symmetric_witness:
  "dh_ok demo_prims \<and>
   derive_peer_key demo_prims (key_exchange_new demo_prims [3])
     (public_key_bytes (key_exchange_new demo_prims [5])) [1] 0 1 =
   derive_peer_key demo_prims (key_exchange_new demo_prims [5])
     (public_key_bytes (key_exchange_new demo_prims [3])) [1] 1 0"
  using demo_dh_ok derive_peer_key_symmetric [OF demo_dh_ok] by blast

text \<open>
  A key is derived only from a shared secret that is not all zeros, as a public key of small order
  would give, and is then HKDF of that secret under the session id and the two peer ids in
  ascending order.
\<close>

theorem derive_peer_key_Ok_iff:
  "derive_peer_key P kx pub sid lid pid = Ok key \<longleftrightarrow>
    (\<exists>b \<in> set (x25519_dh P (kx_secret kx) pub). b \<noteq> 0) \<and>
    hkdf_sha256 P sid (x25519_dh P (kx_secret kx) pub)
      (INFO_PREFIX @ [min lid pid, max lid pid]) 32 = Some key"
  by (auto simp: derive_peer_key_def Let_def ok_or_eq_Ok list_all_iff min_def max_def
      split: if_splits)

end
