(* ===== verification/Rust_Float.thy ===== *)
theory Rust_Float
  imports Complex_Main Prelude
begin

text \<open>
  The floating-point arithmetic of Rust's \<^verbatim>\<open>f32\<close> and \<^verbatim>\<open>f64\<close>, as the sources use it: IEEE 754 binary32
  and binary64 with rounding to nearest, ties to even. A finite value is the rational number it
  denotes; every operation computes the exact rational result and rounds it. The two zeros are one
  value: no code of the repository reads the sign of a zero or divides by one.
\<close>

datatype fl = NaN | NInf | Fin rat | PInf

datatype format = F32 | F64

text \<open>Digits of the significand, exponent of the smallest unit, exponent at which values overflow.\<close>

fun fprec :: "format \<Rightarrow> nat" where
  "fprec F32 = 24"
| "fprec F64 = 53"

fun fmin_exp :: "format \<Rightarrow> int" where
  "fmin_exp F32 = -149"
| "fmin_exp F64 = -1074"

fun fmax_exp :: "format \<Rightarrow> int" where
  "fmax_exp F32 = 128"
| "fmax_exp F64 = 1024"

section \<open>Rounding\<close>

fun nlog2 :: "nat \<Rightarrow> nat" where
  "nlog2 n = (if n \<le> 1 then 0 else Suc (nlog2 (n div 2)))"

declare nlog2.simps [simp del]

text \<open>The exponent of the binade of a positive rational.\<close>

definition ilog2 :: "rat \<Rightarrow> int" where
  "ilog2 q =
     (let (a, b) = quotient_of q; e = int (nlog2 (nat a)) - int (nlog2 (nat b))
      in if 2 powi e \<le> q then e else e - 1)"

text \<open>For evaluation: the same exponent computed on integers, without unary numbers.\<close>

fun zlog2 :: "int \<Rightarrow> int" where
  "zlog2 n = (if n \<le> 1 then 0 else 1 + zlog2 (n div 2))"

declare zlog2.simps [simp del]

lemma int_nlog2: "int (nlog2 n) = zlog2 (int n)"
  by (induction n rule: nlog2.induct) (subst nlog2.simps, subst zlog2.simps, simp add: zdiv_int)

lemma int_nlog2_nat: "int (nlog2 (nat a)) = zlog2 a"
proof (cases "a \<ge> 0")
  case False
  then show ?thesis by (subst nlog2.simps, subst zlog2.simps) simp
qed (simp add: int_nlog2)

lemma ilog2_code [code]:
  "ilog2 q = (let (a, b) = quotient_of q; e = zlog2 a - zlog2 b in if 2 powi e \<le> q then e else e - 1)"
  by (simp add: ilog2_def int_nlog2_nat)

text \<open>The nearest integer, the even one of two equally near.\<close>

definition round_half_even :: "rat \<Rightarrow> int" where
  "round_half_even q =
     (let f = \<lfloor>q\<rfloor>; d = q - of_int f
      in if d < 1 / 2 then f else if d > 1 / 2 then f + 1 else if even f then f else f + 1)"

definition ulp_exp :: "format \<Rightarrow> rat \<Rightarrow> int" where
  "ulp_exp fmt q = max (fmin_exp fmt) (ilog2 \<bar>q\<bar> - (int (fprec fmt) - 1))"

definition round_unit :: "int \<Rightarrow> rat \<Rightarrow> rat" where
  "round_unit e q = of_int (round_half_even (q / 2 powi e)) * 2 powi e"

definition round_fmt :: "format \<Rightarrow> rat \<Rightarrow> rat" where
  "round_fmt fmt q = (if q = 0 then 0 else round_unit (ulp_exp fmt q) q)"

definition fround :: "format \<Rightarrow> rat \<Rightarrow> fl" where
  "fround fmt q =
     (let v = round_fmt fmt q
      in if v \<ge> 2 powi fmax_exp fmt then PInf else if v \<le> - (2 powi fmax_exp fmt) then NInf else Fin v)"

section \<open>Operations\<close>

instantiation fl :: ord
begin

fun less_fl :: "fl \<Rightarrow> fl \<Rightarrow> bool" where
  "less_fl (Fin a) (Fin b) = (a < b)"
| "less_fl NInf (Fin _) = True"
| "less_fl NInf PInf = True"
| "less_fl (Fin _) PInf = True"
| "less_fl _ _ = False"

fun less_eq_fl :: "fl \<Rightarrow> fl \<Rightarrow> bool" where
  "less_eq_fl NaN _ = False"
| "less_eq_fl _ NaN = False"
| "less_eq_fl (Fin a) (Fin b) = (a \<le> b)"
| "less_eq_fl NInf _ = True"
| "less_eq_fl _ PInf = True"
| "less_eq_fl _ _ = False"

instance ..

end

fun f_add :: "format \<Rightarrow> fl \<Rightarrow> fl \<Rightarrow> fl" where
  "f_add fmt (Fin a) (Fin b) = fround fmt (a + b)"
| "f_add fmt NaN _ = NaN"
| "f_add fmt _ NaN = NaN"
| "f_add fmt PInf NInf = NaN"
| "f_add fmt NInf PInf = NaN"
| "f_add fmt PInf _ = PInf"
| "f_add fmt _ PInf = PInf"
| "f_add fmt NInf _ = NInf"
| "f_add fmt _ NInf = NInf"

fun f_neg :: "fl \<Rightarrow> fl" where
  "f_neg NaN = NaN"
| "f_neg NInf = PInf"
| "f_neg PInf = NInf"
| "f_neg (Fin a) = Fin (- a)"

definition f_sub :: "format \<Rightarrow> fl \<Rightarrow> fl \<Rightarrow> fl" where
  "f_sub fmt x y = f_add fmt x (f_neg y)"

fun f_sgn :: "fl \<Rightarrow> rat" where
  "f_sgn NaN = 0"
| "f_sgn NInf = - 1"
| "f_sgn PInf = 1"
| "f_sgn (Fin a) = sgn a"

definition f_inf :: "rat \<Rightarrow> fl" where
  "f_inf s = (if s > 0 then PInf else if s < 0 then NInf else NaN)"

fun f_mul :: "format \<Rightarrow> fl \<Rightarrow> fl \<Rightarrow> fl" where
  "f_mul fmt (Fin a) (Fin b) = fround fmt (a * b)"
| "f_mul fmt x y = f_inf (f_sgn x * f_sgn y)"

text \<open>A zero divisor is taken as the positive zero.\<close>

fun f_div :: "format \<Rightarrow> fl \<Rightarrow> fl \<Rightarrow> fl" where
  "f_div fmt (Fin a) (Fin b) = (if b = 0 then f_inf (sgn a) else fround fmt (a / b))"
| "f_div fmt NaN _ = NaN"
| "f_div fmt _ NaN = NaN"
| "f_div fmt (Fin a) _ = Fin 0"
| "f_div fmt x (Fin b) = f_inf (f_sgn x * (if b < 0 then - 1 else 1))"
| "f_div fmt _ _ = NaN"

fun f_abs :: "fl \<Rightarrow> fl" where
  "f_abs NaN = NaN"
| "f_abs (Fin a) = Fin \<bar>a\<bar>"
| "f_abs _ = PInf"

text \<open>\<^verbatim>\<open>clamp\<close>: a NaN stays a NaN.\<close>

definition f_clamp :: "fl \<Rightarrow> fl \<Rightarrow> fl \<Rightarrow> fl" where
  "f_clamp lo hi x = (let x = (if x < lo then lo else x) in if x > hi then hi else x)"

definition f_of_int :: "format \<Rightarrow> int \<Rightarrow> fl" where
  "f_of_int fmt n = fround fmt (of_int n)"

text \<open>
  \<^verbatim>\<open>as\<close> from a float to an integer type with bounds \<open>lo\<close> and \<open>hi\<close>: towards zero, saturating, NaN to
  zero.
\<close>

definition rat_truncate :: "rat \<Rightarrow> int" where
  "rat_truncate q = (if q < 0 then - \<lfloor>- q\<rfloor> else \<lfloor>q\<rfloor>)"

fun f_to_int :: "int \<Rightarrow> int \<Rightarrow> fl \<Rightarrow> int" where
  "f_to_int lo hi NaN = 0"
| "f_to_int lo hi NInf = lo"
| "f_to_int lo hi PInf = hi"
| "f_to_int lo hi (Fin q) = max lo (min hi (rat_truncate q))"

section \<open>The binade\<close>

lemma nlog2_bounds: "0 < n \<Longrightarrow> 2 ^ nlog2 n \<le> n \<and> n < 2 ^ Suc (nlog2 n)"
proof (induction n rule: nlog2.induct)
  case (1 n)
  show ?case
  proof (cases "n \<le> 1")
    case True
    with 1 show ?thesis by (simp add: nlog2.simps [of n])
  next
    case False
    with 1 have "2 ^ nlog2 (n div 2) \<le> n div 2 \<and> n div 2 < 2 ^ Suc (nlog2 (n div 2))" by simp
    with False show ?thesis by (simp add: nlog2.simps [of n]) linarith
  qed
qed

lemma nlog2_int:
  assumes "0 < a"
  shows "2 ^ nlog2 (nat a) \<le> (of_int a :: rat)" "(of_int a :: rat) < 2 * 2 ^ nlog2 (nat a)"
proof -
  let ?l = "nlog2 (nat a)"
  have "int (2 ^ ?l) \<le> int (nat a)" "int (nat a) < int (2 ^ Suc ?l)"
    unfolding of_nat_le_iff of_nat_less_iff using nlog2_bounds [of "nat a"] assms by auto
  then have "2 ^ ?l \<le> a" "a < 2 * 2 ^ ?l" using assms by simp_all
  then have "of_int (2 ^ ?l) \<le> (of_int a :: rat)" "(of_int a :: rat) < of_int (2 * 2 ^ ?l)"
    by (simp_all only: of_int_le_iff of_int_less_iff)
  then show "2 ^ ?l \<le> (of_int a :: rat)" "(of_int a :: rat) < 2 * 2 ^ ?l" by simp_all
qed

lemma powi_double: "2 powi (e + 1) = 2 * (2 powi e :: rat)"
  by (simp add: power_int_add)

lemma ilog2_bounds:
  assumes "0 < q"
  shows "2 powi ilog2 q \<le> q \<and> q < 2 * 2 powi ilog2 q"
proof -
  obtain a b where ab: "quotient_of q = (a, b)" by fastforce
  then have b: "0 < b" by (rule quotient_of_denom_pos)
  have q: "q = of_int a / of_int b" using ab by (rule quotient_of_div)
  with assms b have a: "0 < a" by (simp add: zero_less_divide_iff)
  define l m where "l = nlog2 (nat a)" and "m = nlog2 (nat b)"
  note ia = nlog2_int [OF a, folded l_def] and ib = nlog2_int [OF b, folded m_def]
  let ?e = "int l - int m"
  have pe: "(2 powi ?e :: rat) = 2 ^ l / 2 ^ m" by (simp add: power_int_diff)
  have up: "q < 2 * 2 powi ?e"
  proof -
    have "q < 2 * 2 ^ l / of_int b" using ia(2) b by (simp add: q divide_strict_right_mono)
    also have "\<dots> \<le> 2 * 2 ^ l / 2 ^ m" using ib(1) b by (intro divide_left_mono) auto
    finally show ?thesis by (simp add: pe)
  qed
  have lo: "2 powi ?e < 2 * q"
  proof -
    have "2 ^ l / 2 ^ m = 2 * (2 ^ l / (2 * 2 ^ m :: rat))" by simp
    also have "\<dots> < 2 * (2 ^ l / of_int b)"
      using ib(2) b by (intro mult_strict_left_mono divide_strict_left_mono) auto
    also have "\<dots> \<le> 2 * q" using ia(1) b by (simp add: q divide_right_mono)
    finally show ?thesis by (simp add: pe)
  qed
  have half: "2 * 2 powi (?e - 1) = (2 powi ?e :: rat)"
    using powi_double [of "?e - 1"] by simp
  show ?thesis
    using up lo half by (auto simp: ilog2_def ab l_def [symmetric] m_def [symmetric] Let_def)
qed

lemma powi_less_iff: "(2 powi m :: rat) < 2 powi n \<longleftrightarrow> m < n"
  by (metis linorder_neqE_linordered_idom not_less_iff_gr_or_eq one_less_numeral_iff
      power_int_strict_increasing semiring_norm(76))

lemma powi_le_iff: "(2 powi m :: rat) \<le> 2 powi n \<longleftrightarrow> m \<le> n"
  by (metis linorder_not_less powi_less_iff)

lemma ilog2_mono:
  assumes "0 < q" "q \<le> r"
  shows "ilog2 q \<le> ilog2 r"
proof -
  have "2 powi ilog2 q < 2 * (2 powi ilog2 r :: rat)"
    using ilog2_bounds [of q] ilog2_bounds [of r] assms by linarith
  then have "ilog2 q < ilog2 r + 1" by (simp add: powi_double [symmetric] powi_less_iff)
  then show ?thesis by simp
qed

section \<open>Rounding is monotone and exact\<close>

lemma round_half_even_int [simp]: "round_half_even (of_int n) = n"
  by (simp add: round_half_even_def Let_def)

lemma round_half_even_floor: "\<lfloor>q\<rfloor> \<le> round_half_even q \<and> round_half_even q \<le> \<lfloor>q\<rfloor> + 1"
  by (simp add: round_half_even_def Let_def)

lemma round_half_even_mono:
  assumes "q \<le> r"
  shows "round_half_even q \<le> round_half_even r"
proof (cases "\<lfloor>q\<rfloor> = \<lfloor>r\<rfloor>")
  case True
  with assms show ?thesis by (auto simp: round_half_even_def Let_def)
next
  case False
  with assms have "\<lfloor>q\<rfloor> + 1 \<le> \<lfloor>r\<rfloor>" using floor_mono [OF assms] by linarith
  then show ?thesis using round_half_even_floor [of q] round_half_even_floor [of r] by linarith
qed

lemma round_half_even_minus: "round_half_even (- q) = - round_half_even q"
proof (cases "q = of_int \<lfloor>q\<rfloor>")
  case True
  then show ?thesis by (metis of_int_minus round_half_even_int)
next
  case False
  then have "\<lfloor>- q\<rfloor> = - \<lfloor>q\<rfloor> - 1"
    by (metis ceiling_altdef ceiling_def minus_minus minus_add_distrib diff_conv_add_uminus)
  then show ?thesis by (auto simp: round_half_even_def Let_def)
qed

lemma round_unit_mono: "q \<le> r \<Longrightarrow> round_unit e q \<le> round_unit e r"
  by (simp add: round_unit_def round_half_even_mono divide_right_mono)

lemma round_unit_exact: "round_unit e (of_int m * 2 powi e) = of_int m * 2 powi e"
  by (simp add: round_unit_def)

lemma round_unit_minus: "round_unit e (- q) = - round_unit e q"
  using round_half_even_minus [of "q / 2 powi e"] by (simp add: round_unit_def)

lemma round_unit_powi:
  assumes "e \<le> k"
  shows "round_unit e (2 powi k) = 2 powi k"
proof -
  have "(2 powi k :: rat) = of_int (2 ^ nat (k - e)) * 2 powi e"
    using assms by (simp add: power_int_add [symmetric] power_int_of_nat [symmetric] del: power_int_of_nat)
  then show ?thesis by (metis round_unit_exact)
qed

lemma round_fmt_0 [simp]: "round_fmt fmt 0 = 0"
  by (simp add: round_fmt_def)

lemma round_fmt_minus: "round_fmt fmt (- q) = - round_fmt fmt q"
  by (simp add: round_fmt_def ulp_exp_def round_unit_minus)

text \<open>A positive value stays inside its binade, or below the end of the subnormal range.\<close>

lemma round_fmt_pos_bounds:
  assumes "0 < q" and e: "e = ulp_exp fmt q"
  shows "0 \<le> round_fmt fmt q" "round_fmt fmt q \<le> 2 powi (e + int (fprec fmt))"
    "fmin_exp fmt < e \<Longrightarrow> 2 powi (e + int (fprec fmt) - 1) \<le> round_fmt fmt q"
proof -
  have p: "0 < int (fprec fmt)" by (cases fmt) auto
  have r: "round_fmt fmt q = round_unit e q" using assms by (simp add: round_fmt_def)
  have i: "ilog2 q + 1 \<le> e + int (fprec fmt)" using assms by (simp add: ulp_exp_def)
  have "q \<le> 2 powi (ilog2 q + 1)" using ilog2_bounds [OF assms(1)] by (simp add: powi_double)
  also have "\<dots> \<le> 2 powi (e + int (fprec fmt))" using i by (simp add: powi_le_iff)
  finally have "round_unit e q \<le> round_unit e (2 powi (e + int (fprec fmt)))" by (rule round_unit_mono)
  with r round_unit_powi [of e "e + int (fprec fmt)"]
  show "round_fmt fmt q \<le> 2 powi (e + int (fprec fmt))" by simp
  have "round_unit e 0 \<le> round_unit e q" using assms by (intro round_unit_mono) simp
  then show "0 \<le> round_fmt fmt q" using r round_unit_exact [of e 0] by simp
  assume "fmin_exp fmt < e"
  then have "e + int (fprec fmt) - 1 = ilog2 q" using assms by (simp add: ulp_exp_def)
  then have "round_unit e (2 powi (e + int (fprec fmt) - 1)) \<le> round_unit e q"
    using ilog2_bounds [OF assms(1)] by (intro round_unit_mono) simp
  then show "2 powi (e + int (fprec fmt) - 1) \<le> round_fmt fmt q"
    using r p round_unit_powi [of e "e + int (fprec fmt) - 1"] by simp
qed

lemma round_fmt_pos_mono:
  assumes "0 < q" "q \<le> r"
  shows "round_fmt fmt q \<le> round_fmt fmt r"
proof -
  have le: "ulp_exp fmt q \<le> ulp_exp fmt r"
    using ilog2_mono [OF assms] assms by (simp add: ulp_exp_def)
  show ?thesis
  proof (cases "ulp_exp fmt q = ulp_exp fmt r")
    case True
    with assms show ?thesis by (simp add: round_fmt_def round_unit_mono)
  next
    case False
    with le have lt: "ulp_exp fmt q + int (fprec fmt) \<le> ulp_exp fmt r + int (fprec fmt) - 1" by simp
    have "fmin_exp fmt \<le> ulp_exp fmt q" by (simp add: ulp_exp_def)
    with le False have "fmin_exp fmt < ulp_exp fmt r" by simp
    then have "2 powi (ulp_exp fmt r + int (fprec fmt) - 1) \<le> round_fmt fmt r"
      using assms by (intro round_fmt_pos_bounds(3)) auto
    moreover have "round_fmt fmt q \<le> 2 powi (ulp_exp fmt q + int (fprec fmt))"
      using assms by (intro round_fmt_pos_bounds(2)) auto
    moreover have "2 powi (ulp_exp fmt q + int (fprec fmt)) \<le> (2 powi (ulp_exp fmt r + int (fprec fmt) - 1) :: rat)"
      using lt by (simp only: powi_le_iff)
    ultimately show ?thesis by linarith
  qed
qed

lemma round_fmt_nonneg: "0 \<le> q \<Longrightarrow> 0 \<le> round_fmt fmt q"
  using round_fmt_pos_bounds(1) by (cases "q = 0") auto

lemma round_fmt_mono:
  assumes "q \<le> r"
  shows "round_fmt fmt q \<le> round_fmt fmt r"
proof -
  consider "0 < q" | "q \<le> 0" "0 \<le> r" | "r < 0" by linarith
  then show ?thesis
  proof cases
    case 2
    then have "round_fmt fmt q \<le> 0"
      using round_fmt_nonneg [of "- q" fmt] round_fmt_minus [of fmt q] by simp
    with 2 round_fmt_nonneg [of r fmt] show ?thesis by simp
  next
    case 3
    with assms round_fmt_pos_mono [of "- r" "- q" fmt] show ?thesis by (simp add: round_fmt_minus)
  qed (use assms round_fmt_pos_mono in blast)
qed

text \<open>Numbers the format represents.\<close>

definition representable :: "format \<Rightarrow> rat \<Rightarrow> bool" where
  "representable fmt q \<longleftrightarrow>
     (\<exists>m e. q = of_int m * 2 powi e \<and> \<bar>m\<bar> < 2 ^ fprec fmt \<and> fmin_exp fmt \<le> e)"

lemma round_fmt_exact:
  assumes "representable fmt q"
  shows "round_fmt fmt q = q"
proof (cases "q = 0")
  case False
  obtain m e where q: "q = of_int m * 2 powi e" and m: "\<bar>m\<bar> < 2 ^ fprec fmt" and e: "fmin_exp fmt \<le> e"
    using assms by (auto simp: representable_def)
  have "of_int \<bar>m\<bar> < (of_int (2 ^ fprec fmt) :: rat)" using m by (simp only: of_int_less_iff)
  then have "\<bar>q\<bar> < 2 powi (int (fprec fmt) + e)"
    by (simp add: q abs_mult power_int_add)
  moreover have "2 powi ilog2 \<bar>q\<bar> \<le> \<bar>q\<bar>" using ilog2_bounds [of "\<bar>q\<bar>"] False by simp
  ultimately have "(2 powi ilog2 \<bar>q\<bar> :: rat) < 2 powi (int (fprec fmt) + e)" by linarith
  then have u: "ulp_exp fmt q \<le> e" using e by (simp add: powi_less_iff ulp_exp_def)
  let ?u = "ulp_exp fmt q"
  have "q = of_int (m * 2 ^ nat (e - ?u)) * 2 powi ?u"
    using u by (simp add: q power_int_add [symmetric] power_int_of_nat [symmetric] mult.assoc
        del: power_int_of_nat)
  then show ?thesis using False round_unit_exact [of ?u "m * 2 ^ nat (e - ?u)"]
    by (simp add: round_fmt_def)
qed simp

lemma fround_Fin_iff: "fround fmt q = Fin v \<longleftrightarrow> v = round_fmt fmt q \<and> \<bar>v\<bar> < 2 powi fmax_exp fmt"
  by (auto simp: fround_def Let_def abs_less_iff)

text \<open>The two facts every bound rests on: an exact result is not changed, and a result between two
  representable numbers stays between them.\<close>

lemma fround_exact:
  "representable fmt q \<Longrightarrow> \<bar>q\<bar> < 2 powi fmax_exp fmt \<Longrightarrow> fround fmt q = Fin q"
  by (simp add: fround_Fin_iff round_fmt_exact)

lemma fround_between:
  assumes "lo \<le> q" "q \<le> hi" "representable fmt lo" "representable fmt hi"
    and "\<bar>lo\<bar> < 2 powi fmax_exp fmt" "\<bar>hi\<bar> < 2 powi fmax_exp fmt"
  shows "\<exists>v. fround fmt q = Fin v \<and> v = round_fmt fmt q \<and> lo \<le> v \<and> v \<le> hi"
proof -
  have "lo \<le> round_fmt fmt q" "round_fmt fmt q \<le> hi"
    using round_fmt_mono [OF assms(1), of fmt] round_fmt_mono [OF assms(2), of fmt]
      round_fmt_exact [OF assms(3)] round_fmt_exact [OF assms(4)] by simp_all
  then show ?thesis using assms(5,6) by (auto simp: fround_Fin_iff)
qed

lemma representable_int: "\<bar>n\<bar> < 2 ^ fprec fmt \<Longrightarrow> representable fmt (of_int n)"
  unfolding representable_def by (rule exI [of _ n], rule exI [of _ 0], cases fmt) auto

text \<open>Dyadic numbers with up to 53 bits are exact in \<^verbatim>\<open>f64\<close>.\<close>

lemma fround_F64_dyadic:
  assumes "\<bar>n\<bar> < 2 ^ 53" "k \<le> 1000"
  shows "fround F64 (of_int n / 2 ^ k) = Fin (of_int n / 2 ^ k)"
proof (rule fround_exact)
  show "representable F64 (of_int n / 2 ^ k)"
    unfolding representable_def using assms
    by (intro exI [of _ n] exI [of _ "- int k"]) (simp add: power_int_minus divide_inverse)
  have "\<bar>of_int n / 2 ^ k\<bar> \<le> (of_int \<bar>n\<bar> :: rat)"
    by (simp add: abs_divide divide_le_eq mult_left_le)
      (metis abs_ge_zero mult.commute mult_left_mono mult_1 two_realpow_ge_one one_le_power one_le_numeral)
  also have "\<dots> < of_int (2 ^ 53)" using assms(1) by (simp only: of_int_less_iff)
  also have "\<dots> \<le> 2 powi 1024" using powi_le_iff [of 53 1024] by simp
  finally show "\<bar>of_int n / 2 ^ k\<bar> < (2 powi fmax_exp F64 :: rat)" by simp
qed

lemma fround_unit: "0 \<le> q \<Longrightarrow> q \<le> 1 \<Longrightarrow> fround F64 q = Fin (round_fmt F64 q)"
  using fround_between [of 0 q 1 F64] representable_int [of 0 F64] representable_int [of 1 F64]
  by auto

lemma f_of_int_F64: "0 \<le> n \<Longrightarrow> n < 2 ^ 53 \<Longrightarrow> f_of_int F64 n = Fin (of_int n)"
  unfolding f_of_int_def
proof (rule fround_exact)
  assume n: "0 \<le> n" "n < 2 ^ 53"
  then show "representable F64 (of_int n)" by (intro representable_int) simp
  have "of_int n < (of_int (2 ^ 53) :: rat)" using n by (simp only: of_int_less_iff)
  also have "\<dots> \<le> 2 powi 1024" using powi_le_iff [of 53 1024] by simp
  finally show "\<bar>of_int n\<bar> < (2 powi fmax_exp F64 :: rat)" using n by simp
qed

section \<open>Rounding error\<close>

lemma round_half_even_error: "\<bar>of_int (round_half_even q) - q\<bar> \<le> 1 / 2"
proof -
  have "of_int \<lfloor>q\<rfloor> \<le> q" "q < of_int \<lfloor>q\<rfloor> + 1" by linarith+
  then show ?thesis by (auto simp: round_half_even_def Let_def)
qed

lemma round_half_even_near:
  assumes "\<bar>q - of_int m\<bar> < 1 / 2"
  shows "round_half_even q = m"
proof -
  have "\<bar>of_int (round_half_even q) - of_int m :: rat\<bar> < 1"
    using assms round_half_even_error [of q] by linarith
  then have "\<bar>of_int (round_half_even q - m) :: rat\<bar> < 1" by simp
  then have "of_int \<bar>round_half_even q - m\<bar> < (1 :: rat)" by simp
  then show ?thesis by linarith
qed

lemma round_unit_error: "\<bar>round_unit e q - q\<bar> \<le> 2 powi e / 2"
proof -
  have p: "(0 :: rat) < 2 powi e" by simp
  have "round_unit e q - q = (of_int (round_half_even (q / 2 powi e)) - q / 2 powi e) * 2 powi e"
    by (simp add: round_unit_def algebra_simps)
  then show ?thesis
    using mult_right_mono [OF round_half_even_error [of "q / 2 powi e"], of "2 powi e"]
    by (simp add: abs_mult)
qed

lemma round_unit_near:
  assumes "\<bar>q - of_int m * 2 powi e\<bar> < 2 powi e / 2"
  shows "round_unit e q = of_int m * 2 powi e"
proof -
  have p: "(0 :: rat) < 2 powi e" by simp
  have "q / 2 powi e - of_int m = (q - of_int m * 2 powi e) / 2 powi e"
    by (simp add: diff_divide_distrib)
  then have "\<bar>q / 2 powi e - of_int m\<bar> = \<bar>q - of_int m * 2 powi e\<bar> / 2 powi e"
    by (simp only: abs_divide) simp
  also have "\<dots> < 1 / 2" using assms p by (simp add: divide_less_eq)
  finally show ?thesis by (simp add: round_unit_def round_half_even_near)
qed

lemma ilog2_eqI:
  assumes "2 powi e \<le> q" "q < 2 powi (e + 1)"
  shows "ilog2 q = e"
proof -
  have "0 < q" using assms(1) by (rule less_le_trans [rotated]) simp
  note b = ilog2_bounds [OF this]
  have "2 powi ilog2 q < (2 powi (e + 1) :: rat)" using b assms(2) by linarith
  moreover have "2 powi e < (2 powi (ilog2 q + 1) :: rat)" using b assms(1) powi_double [of "ilog2 q"] by linarith
  ultimately show ?thesis unfolding powi_less_iff by linarith
qed

section \<open>Results are representable\<close>

lemma representable_minus: "representable fmt q \<Longrightarrow> representable fmt (- q)"
  unfolding representable_def by (metis abs_minus_cancel mult_minus_left of_int_minus)

lemma round_fmt_pos_representable:
  assumes "0 < q"
  shows "representable fmt (round_fmt fmt q)"
proof -
  define e where "e = ulp_exp fmt q"
  define m where "m = round_half_even (q / 2 powi e)"
  have r: "round_fmt fmt q = of_int m * 2 powi e"
    using assms by (simp add: round_fmt_def round_unit_def e_def m_def)
  have e: "fmin_exp fmt \<le> e" by (simp add: e_def ulp_exp_def)
  have "of_int m * 2 powi e \<le> of_int (2 ^ fprec fmt) * (2 powi e :: rat)"
    using round_fmt_pos_bounds(2) [OF assms e_def] by (simp add: r power_int_add mult.commute)
  then have "(of_int m :: rat) \<le> of_int (2 ^ fprec fmt)" by (simp only: mult_le_cancel_right) simp
  then have m: "m \<le> 2 ^ fprec fmt" unfolding of_int_le_iff .
  have "\<not> 2 powi e \<le> (0 :: rat)" by (simp add: not_le)
  then have "0 \<le> m"
    using round_fmt_pos_bounds(1) [OF assms e_def] by (simp add: r zero_le_mult_iff)
  show ?thesis
  proof (cases "m = 2 ^ fprec fmt")
    case True
    then have "round_fmt fmt q = of_int 1 * 2 powi (int (fprec fmt) + e)" by (simp add: r power_int_add)
    moreover have "\<bar>1\<bar> < (2 :: int) ^ fprec fmt" by (cases fmt) simp_all
    ultimately show ?thesis unfolding representable_def using e
      by (metis add_increasing of_nat_0_le_iff)
  next
    case False
    with m \<open>0 \<le> m\<close> e r show ?thesis unfolding representable_def by (metis abs_of_nonneg order_le_imp_less_or_eq)
  qed
qed

lemma round_fmt_representable: "representable fmt (round_fmt fmt q)"
proof -
  consider "0 < q" | "q = 0" | "q < 0" by linarith
  then show ?thesis
  proof cases
    case 2
    then show ?thesis using representable_int [of 0 fmt] by simp
  next
    case 3
    then show ?thesis
      using representable_minus [OF round_fmt_pos_representable [of "- q" fmt]] by (simp add: round_fmt_minus)
  qed (simp add: round_fmt_pos_representable)
qed

end
