(* ===== verification/Jitter.thy ===== *)
theory Jitter
  imports Rust_Float "HOL-Library.Multiset"
begin

text \<open>
  The adaptive jitter buffer of one peer, \<^verbatim>\<open>vc-core/src/jitter.rs\<close>: frames kept in wrapping
  sequence order, a playout cursor that moves one sequence number per pop, and a target depth that
  adapts to the share of late packets. Depths and lengths are \<^typ>\<open>nat\<close>, sequence numbers 16-bit
  words, packet counts 64-bit words that wrap as in a release build, rates and times \<^verbatim>\<open>f64\<close>.
\<close>

definition MAX_DEPTH :: nat where "MAX_DEPTH = 4"
definition INITIAL_DEPTH :: nat where "INITIAL_DEPTH = 1"
definition INCREASE_THRESHOLD :: fl where "INCREASE_THRESHOLD = fround F64 (2 / 100)"
definition DECREASE_THRESHOLD :: fl where "DECREASE_THRESHOLD = fround F64 (1 / 1000)"
definition DECREASE_HOLDOFF_SECS :: fl where "DECREASE_HOLDOFF_SECS = Fin 5"

text \<open>\<^verbatim>\<open>u16::MAX / 2\<close>\<close>

definition SEQ_HALF :: u16 where "SEQ_HALF = 32767"

record jitter_frame =
  jf_seq_num :: u16
  jf_pcm :: "i16 list"

record jitter_buffer =
  frames :: "jitter_frame list"
  target_depth :: nat
  next_playout_seq :: "u16 option"
  total_packets :: u64
  late_packets :: u64
  time_since_decrease :: fl

definition jitter_buffer_new :: jitter_buffer where
  "jitter_buffer_new = \<lparr>frames = [], target_depth = INITIAL_DEPTH, next_playout_seq = None,
     total_packets = 0, late_packets = 0, time_since_decrease = Fin 0\<rparr>"

definition buffered_frames :: "jitter_buffer \<Rightarrow> nat" where
  "buffered_frames jb = length (frames jb)"

text \<open>A buffered frame comes after \<open>sn\<close> when the wrapping distance is small and positive.\<close>

definition comes_after :: "u16 \<Rightarrow> jitter_frame \<Rightarrow> bool" where
  "comes_after sn f = (let diff = jf_seq_num f - sn in diff > 0 \<and> diff < SEQ_HALF)"

definition jb_push :: "jitter_buffer \<Rightarrow> u16 \<Rightarrow> i16 list \<Rightarrow> jitter_buffer" where
  "jb_push jb0 sn pcm =
     (let jb = jb0\<lparr>total_packets := total_packets jb0 + 1\<rparr> in
      if (case next_playout_seq jb of Some nxt \<Rightarrow> sn - nxt > SEQ_HALF | None \<Rightarrow> False)
      then jb\<lparr>late_packets := late_packets jb + 1\<rparr>
      else
        let pos = (case position (comes_after sn) (frames jb) of
                     Some i \<Rightarrow> i | None \<Rightarrow> length (frames jb)) in
        if list_ex (\<lambda>f. jf_seq_num f = sn) (frames jb) then jb
        else if length (frames jb) \<ge> MAX_DEPTH * 2 then jb
        else jb\<lparr>frames := vec_insert pos \<lparr>jf_seq_num = sn, jf_pcm = pcm\<rparr> (frames jb)\<rparr>)"

definition jb_pop :: "jitter_buffer \<Rightarrow> i16 list option \<times> jitter_buffer" where
  "jb_pop jb0 =
     (case frames jb0 of
        [] \<Rightarrow> (None, jb0)
      | first # _ \<Rightarrow>
          if next_playout_seq jb0 = None \<and> length (frames jb0) < target_depth jb0 then (None, jb0)
          else
            let expected = (case next_playout_seq jb0 of Some s \<Rightarrow> s | None \<Rightarrow> jf_seq_num first);
                jb = jb0\<lparr>next_playout_seq := Some (expected + 1)\<rparr>
            in case position (\<lambda>f. jf_seq_num f = expected) (frames jb) of
                 Some idx \<Rightarrow> (Some (jf_pcm (frames jb ! idx)), jb\<lparr>frames := vec_remove idx (frames jb)\<rparr>)
               | None \<Rightarrow> (None, jb))"

definition reset_stats :: "jitter_buffer \<Rightarrow> jitter_buffer" where
  "reset_stats jb = jb\<lparr>total_packets := 0, late_packets := 0\<rparr>"

definition loss_rate :: "jitter_buffer \<Rightarrow> fl" where
  "loss_rate jb = f_div F64 (f_of_int F64 (uint (late_packets jb))) (f_of_int F64 (uint (total_packets jb)))"

definition jb_adapt :: "jitter_buffer \<Rightarrow> fl \<Rightarrow> jitter_buffer" where
  "jb_adapt jb0 elapsed_secs =
     (let jb = jb0\<lparr>time_since_decrease := f_add F64 (time_since_decrease jb0) elapsed_secs\<rparr> in
      if total_packets jb < 100 then jb
      else
        let rate = loss_rate jb in
        if rate > INCREASE_THRESHOLD \<and> target_depth jb < MAX_DEPTH
        then reset_stats (jb\<lparr>target_depth := target_depth jb + 1\<rparr>)
        else if rate < DECREASE_THRESHOLD \<and> target_depth jb > 1
          \<and> time_since_decrease jb \<ge> DECREASE_HOLDOFF_SECS
        then reset_stats (jb\<lparr>target_depth := target_depth jb - 1, time_since_decrease := Fin 0\<rparr>)
        else jb)"

definition jb_reset :: "jitter_buffer \<Rightarrow> jitter_buffer" where
  "jb_reset jb = reset_stats (jb\<lparr>frames := [], next_playout_seq := None, target_depth := INITIAL_DEPTH\<rparr>)
     \<lparr>time_since_decrease := Fin 0\<rparr>"

section \<open>Invariant\<close>

text \<open>The buffered frames as a map from sequence numbers, the buffer's abstract content.\<close>

definition slots :: "jitter_buffer \<Rightarrow> u16 \<rightharpoonup> i16 list" where
  "slots jb = map_of (map (\<lambda>f. (jf_seq_num f, jf_pcm f)) (frames jb))"

definition jb_inv :: "jitter_buffer \<Rightarrow> bool" where
  "jb_inv jb \<longleftrightarrow> distinct (map jf_seq_num (frames jb)) \<and> length (frames jb) \<le> 2 * MAX_DEPTH \<and>
     1 \<le> target_depth jb \<and> target_depth jb \<le> MAX_DEPTH"

text \<open>Everything a peer's owner does to the buffer.\<close>

inductive jb_step :: "jitter_buffer \<Rightarrow> jitter_buffer \<Rightarrow> bool" where
  step_push: "jb_step jb (jb_push jb sn pcm)"
| step_pop: "jb_step jb (snd (jb_pop jb))"
| step_adapt: "jb_step jb (jb_adapt jb t)"
| step_reset: "jb_step jb (jb_reset jb)"

lemma length_vec_remove: "i < length xs \<Longrightarrow> length (vec_remove i xs) = length xs - 1"
  by (simp add: vec_remove_def)

lemma jb_push_inv: "jb_inv jb \<Longrightarrow> jb_inv (jb_push jb sn pcm)"
  by (auto simp: jb_push_def Let_def jb_inv_def map_vec_insert list_ex_iff split: option.splits)

lemma jb_pop_inv: "jb_inv jb \<Longrightarrow> jb_inv (snd (jb_pop jb))"
  by (auto simp: jb_pop_def Let_def jb_inv_def map_vec_remove length_vec_remove distinct_vec_remove
      dest!: position_Some split: list.splits option.splits)

lemma jb_adapt_inv: "jb_inv jb \<Longrightarrow> jb_inv (jb_adapt jb t)"
  by (auto simp: jb_adapt_def reset_stats_def Let_def jb_inv_def)

lemma jb_reset_inv: "jb_inv (jb_reset jb)"
  by (simp add: jb_reset_def reset_stats_def jb_inv_def INITIAL_DEPTH_def MAX_DEPTH_def)

lemma jb_new_inv: "jb_inv jitter_buffer_new"
  by (simp add: jitter_buffer_new_def jb_inv_def INITIAL_DEPTH_def MAX_DEPTH_def)

interpretation jitter_sys: invariant_system "\<lambda>jb. jb = jitter_buffer_new" jb_step jb_inv
  by unfold_locales
    (auto simp: jb_new_inv jb_push_inv jb_pop_inv jb_adapt_inv jb_reset_inv elim!: jb_step.cases)

section \<open>The playout contract\<close>

text \<open>What the receive and playout parts of the session do to a buffer between resets.\<close>

datatype 'p play_op = Push u16 'p | Pop

fun play :: "('b \<Rightarrow> u16 \<Rightarrow> 'p \<Rightarrow> 'b) \<Rightarrow> ('b \<Rightarrow> 'p option \<times> 'b) \<Rightarrow> 'b \<Rightarrow> 'p play_op \<Rightarrow> 'b" where
  "play push pop b (Push sn p) = push b sn p"
| "play push pop b Pop = snd (pop b)"

definition pops :: "'p play_op list \<Rightarrow> nat" where
  "pops ops = length (filter (\<lambda>x. case x of Pop \<Rightarrow> True | _ \<Rightarrow> False) ops)"

text \<open>
  A playout buffer keeps what it holds until its turn and moves its cursor by one with every pop
  while it holds anything. Delivery on time follows: a frame \<open>k\<close> places ahead of the cursor is what
  the pop after exactly \<open>k\<close> further pops returns, whatever is pushed in between.
\<close>

locale playout_buffer =
  fixes push :: "'b \<Rightarrow> u16 \<Rightarrow> 'p \<Rightarrow> 'b"
    and pop :: "'b \<Rightarrow> 'p option \<times> 'b"
    and content :: "'b \<Rightarrow> u16 \<rightharpoonup> 'p"
    and cursor :: "'b \<Rightarrow> u16 option"
    and sound :: "'b \<Rightarrow> bool"
  assumes push_sound: "sound b \<Longrightarrow> sound (push b sn p)"
    and pop_sound: "sound b \<Longrightarrow> sound (snd (pop b))"
    and push_cursor: "cursor (push b sn p) = cursor b"
    and push_keeps: "content b s = Some q \<Longrightarrow> content (push b sn p) s = Some q"
    and pop_hit: "sound b \<Longrightarrow> cursor b = Some n \<Longrightarrow> content b n = Some p \<Longrightarrow>
      \<exists>b'. pop b = (Some p, b') \<and> cursor b' = Some (n + 1) \<and> content b' = (content b)(n := None)"
    and pop_miss: "sound b \<Longrightarrow> cursor b = Some n \<Longrightarrow> content b n = None \<Longrightarrow> content b \<noteq> Map.empty \<Longrightarrow>
      \<exists>b'. pop b = (None, b') \<and> cursor b' = Some (n + 1) \<and> content b' = content b"
begin

lemma play_advances:
  assumes "sound b" "cursor b = Some n" "content b s = Some p" "s \<noteq> n"
  shows "sound (snd (pop b)) \<and> cursor (snd (pop b)) = Some (n + 1) \<and> content (snd (pop b)) s = Some p"
proof (cases "content b n")
  case None
  have "content b \<noteq> Map.empty" using assms(3) by auto
  then show ?thesis using pop_miss [OF assms(1,2) None] pop_sound [OF assms(1)] assms(3) by auto
next
  case (Some q)
  then show ?thesis using pop_hit [OF assms(1,2) Some] pop_sound [OF assms(1)] assms(3,4) by auto
qed

lemma delivered:
  assumes "sound b" "cursor b = Some n" "content b s = Some p" "pops ops = unat (s - n)"
  shows "fst (pop (foldl (play push pop) b ops)) = Some p"
  using assms
proof (induction ops arbitrary: b n)
  case Nil
  then have "s - n = 0" by (simp add: pops_def unat_eq_0)
  then show ?case using Nil pop_hit [of b n p] by auto
next
  case (Cons x ops)
  show ?case
  proof (cases x)
    case (Push sn q)
    with Cons show ?thesis
      using push_sound [OF Cons.prems(1)] push_cursor push_keeps [OF Cons.prems(3)]
      by (simp add: pops_def)
  next
    case Pop
    then have k: "unat (s - n) = Suc (pops ops)" using Cons.prems(4) by (simp add: pops_def)
    then have "s \<noteq> n" by auto
    then have "s - n \<noteq> 0" by simp
    then have "unat ((s - n) - 1) = pops ops" using k by (simp add: unat_minus_one)
    then have "unat (s - (n + 1)) = pops ops" by (simp add: algebra_simps)
    with Cons.IH [of "snd (pop b)" "n + 1"] play_advances [OF Cons.prems(1-3) \<open>s \<noteq> n\<close>] Pop
    show ?thesis by simp
  qed
qed

end

lemma slots_None_iff: "slots jb sn = None \<longleftrightarrow> sn \<notin> jf_seq_num ` set (frames jb)"
  by (auto simp: slots_def map_of_eq_None_iff image_image)

lemma slots_Some_iff:
  "distinct (map jf_seq_num (frames jb)) \<Longrightarrow>
    slots jb sn = Some p \<longleftrightarrow> (\<exists>f \<in> set (frames jb). jf_seq_num f = sn \<and> jf_pcm f = p)"
  by (auto simp: slots_def comp_def)

lemma slots_empty: "slots jb \<noteq> Map.empty \<Longrightarrow> frames jb \<noteq> []"
  by (auto simp: slots_def)

lemma map_of_vec_insert:
  assumes "map_of xs k = None"
  shows "map_of (vec_insert i (k, v) xs) = (map_of xs)(k \<mapsto> v)"
proof -
  have m: "map_of xs = map_of (drop i xs) ++ map_of (take i xs)"
    by (metis append_take_drop_id map_of_append)
  with assms have "map_of (take i xs) k = None" by simp
  then show ?thesis
    unfolding vec_insert_def m by (auto simp: map_add_def fun_eq_iff split: option.splits)
qed

definition is_late :: "jitter_buffer \<Rightarrow> u16 \<Rightarrow> bool" where
  "is_late jb sn = (case next_playout_seq jb of Some nxt \<Rightarrow> sn - nxt > SEQ_HALF | None \<Rightarrow> False)"

lemma is_late_total [simp]: "is_late (jb\<lparr>total_packets := n\<rparr>) sn = is_late jb sn"
  by (simp add: is_late_def)

lemma slots_push:
  "slots (jb_push jb sn pcm) =
     (if is_late jb sn \<or> slots jb sn \<noteq> None \<or> length (frames jb) \<ge> 2 * MAX_DEPTH then slots jb
      else (slots jb)(sn \<mapsto> pcm))"
proof -
  have dup: "list_ex (\<lambda>f. jf_seq_num f = sn) (frames jb) \<longleftrightarrow> slots jb sn \<noteq> None"
    by (auto simp: list_ex_iff slots_None_iff)
  have new: "slots jb sn = None \<Longrightarrow>
      map_of (map (\<lambda>f. (jf_seq_num f, jf_pcm f)) (vec_insert i \<lparr>jf_seq_num = sn, jf_pcm = pcm\<rparr> (frames jb))) =
        (slots jb)(sn \<mapsto> pcm)" for i
    unfolding slots_def by (simp add: map_vec_insert map_of_vec_insert)
  show ?thesis
    using dup new
    by (simp add: jb_push_def Let_def is_late_def [symmetric] slots_def [symmetric])
       (auto simp: slots_def)
qed

lemma push_next [simp]: "next_playout_seq (jb_push jb sn pcm) = next_playout_seq jb"
  by (simp add: jb_push_def Let_def)

lemma push_target [simp]: "target_depth (jb_push jb sn pcm) = target_depth jb"
  by (simp add: jb_push_def Let_def)

lemma pop_started:
  assumes "distinct (map jf_seq_num (frames jb))" "next_playout_seq jb = Some n" "frames jb \<noteq> []"
  shows "\<exists>b'. jb_pop jb = (slots jb n, b') \<and> next_playout_seq b' = Some (n + 1) \<and>
    slots b' = (slots jb)(n := None)"
proof (cases "position (\<lambda>f. jf_seq_num f = n) (frames jb)")
  case None
  then have "slots jb n = None" by (auto simp: slots_None_iff position_None)
  with None assms show ?thesis
    by (auto simp: jb_pop_def Let_def slots_def fun_eq_iff split: list.splits)
next
  case (Some i)
  let ?f = "frames jb ! i"
  let ?ks = "map (\<lambda>f. (jf_seq_num f, jf_pcm f)) (frames jb)"
  from position_Some [OF Some] have i: "i < length (frames jb)" and f: "jf_seq_num ?f = n" by auto
  have hit: "slots jb n = Some (jf_pcm ?f)" using i f assms(1) by (auto simp: slots_Some_iff)
  have d: "distinct (map fst ?ks)" using assms(1) by (simp add: comp_def)
  have ks: "?ks = take i ?ks @ (n, jf_pcm ?f) # drop (Suc i) ?ks"
    using i f id_take_nth_drop [of i ?ks] by simp
  have "map_of (vec_remove i ?ks) = (map_of ?ks)(n := None)"
  proof -
    define ys zs where yz: "ys = take i ?ks" "zs = drop (Suc i) ?ks"
    have "?ks = ys @ (n, jf_pcm ?f) # zs" using ks by (simp add: yz)
    with d have "n \<notin> fst ` set ys" "n \<notin> fst ` set zs"
      and m: "map_of ?ks = (map_of zs)(n \<mapsto> jf_pcm ?f) ++ map_of ys" by auto
    then have none: "map_of ys n = None" "map_of zs n = None" by (simp_all add: map_of_eq_None_iff)
    have "(map_of ?ks)(n := None) = map_of zs ++ map_of ys"
      unfolding m by (rule ext) (use none in \<open>simp add: map_add_def split: option.splits\<close>)
    then show ?thesis by (simp add: vec_remove_def yz)
  qed
  with Some assms hit show ?thesis
    by (auto simp: jb_pop_def Let_def slots_def map_vec_remove split: list.splits)
qed

interpretation jitter_playout: playout_buffer jb_push jb_pop slots next_playout_seq jb_inv
proof unfold_locales
  fix b :: jitter_buffer and n p
  assume "jb_inv b" "next_playout_seq b = Some n"
  then have *: "frames b \<noteq> [] \<Longrightarrow> \<exists>b'. jb_pop b = (slots b n, b') \<and> next_playout_seq b' = Some (n + 1) \<and>
      slots b' = (slots b)(n := None)"
    using pop_started by (simp add: jb_inv_def)
  { assume "slots b n = Some p"
    then show "\<exists>b'. jb_pop b = (Some p, b') \<and> next_playout_seq b' = Some (n + 1) \<and>
        slots b' = (slots b)(n := None)"
      using * slots_empty [of b] by fastforce }
  { assume "slots b n = None" "slots b \<noteq> Map.empty"
    moreover from this(1) have "(slots b)(n := None) = slots b" by auto
    ultimately show "\<exists>b'. jb_pop b = (None, b') \<and> next_playout_seq b' = Some (n + 1) \<and> slots b' = slots b"
      using * slots_empty [of b] by fastforce }
qed (auto simp: jb_push_inv jb_pop_inv slots_push)

section \<open>Reordering before playout\<close>

text \<open>The distance of a frame from the start of a window of sequence numbers.\<close>

definition ahead :: "u16 \<Rightarrow> jitter_frame \<Rightarrow> nat" where
  "ahead base f = unat (jf_seq_num f - base)"

definition in_order :: "u16 \<Rightarrow> jitter_frame list \<Rightarrow> bool" where
  "in_order base fs \<longleftrightarrow> sorted_wrt (\<lambda>f g. ahead base f < ahead base g) fs \<and> (\<forall>f \<in> set fs. ahead base f < 32767)"

lemma comes_after_iff:
  assumes "unat (sn - base) < 32767" "ahead base f < 32767"
  shows "comes_after sn f \<longleftrightarrow> unat (sn - base) < ahead base f"
proof -
  define a b where ab: "a = sn - base" "b = jf_seq_num f - base"
  have d: "jf_seq_num f - sn = b - a" by (simp add: ab)
  have "unat (b - a) = (if unat a \<le> unat b then unat b - unat a else unat b + 65536 - unat a)"
    by (simp add: unat_sub_if_size word_size)
  moreover have "unat a < 32767" "unat b < 32767" using assms by (simp_all add: ab ahead_def)
  ultimately have "0 < unat (b - a) \<and> unat (b - a) < 32767 \<longleftrightarrow> unat a < unat b"
    by (auto split: if_splits)
  then show ?thesis
    by (simp add: comes_after_def Let_def d SEQ_HALF_def ahead_def word_less_nat_alt flip: ab)
qed

lemma sorted_wrt_vec_insert:
  assumes "sorted_wrt (\<lambda>f g. (h f :: nat) < h g) fs" "h x \<notin> h ` set fs"
    and "\<forall>f \<in> set fs. p f \<longleftrightarrow> h x < h f"
    and "i = (case position p fs of Some i \<Rightarrow> i | None \<Rightarrow> length fs)"
  shows "sorted_wrt (\<lambda>f g. h f < h g) (vec_insert i x fs)"
  using assms
proof (induction fs arbitrary: i)
  case (Cons f fs)
  show ?case
  proof (cases "p f")
    case True
    with Cons.prems show ?thesis by (auto simp: vec_insert_def intro: less_trans)
  next
    case False
    define j where "j = (case position p fs of Some i \<Rightarrow> i | None \<Rightarrow> length fs)"
    have i: "i = Suc j" using False Cons.prems(4) by (auto simp: j_def split: option.splits)
    have "h f < h x" using False Cons.prems(2,3) by force
    moreover have "sorted_wrt (\<lambda>f g. h f < h g) (vec_insert j x fs)"
      using Cons j_def by simp
    moreover have "vec_insert i x (f # fs) = f # vec_insert j x fs"
      by (simp add: vec_insert_def i)
    ultimately show ?thesis using Cons.prems(1) by auto
  qed
qed (simp add: vec_insert_def)

lemma push_in_order:
  assumes "in_order base (frames jb)" "unat (sn - base) < 32767" "next_playout_seq jb = None"
    and "sn \<notin> jf_seq_num ` set (frames jb)" "length (frames jb) < 2 * MAX_DEPTH"
  shows "in_order base (frames (jb_push jb sn pcm)) \<and>
    mset (frames (jb_push jb sn pcm)) = add_mset \<lparr>jf_seq_num = sn, jf_pcm = pcm\<rparr> (mset (frames jb))"
proof -
  let ?x = "\<lparr>jf_seq_num = sn, jf_pcm = pcm\<rparr>"
  let ?i = "case position (comes_after sn) (frames jb) of Some i \<Rightarrow> i | None \<Rightarrow> length (frames jb)"
  have f: "frames (jb_push jb sn pcm) = vec_insert ?i ?x (frames jb)"
    using assms(3-5) by (auto simp: jb_push_def Let_def list_ex_iff split: option.splits)
  have "ahead base ?x \<notin> ahead base ` set (frames jb)" 
    using assms(4) by (auto simp: ahead_def dest!: word_unat_eq_iff [THEN iffD2])
  then have "sorted_wrt (\<lambda>f g. ahead base f < ahead base g) (vec_insert ?i ?x (frames jb))"
    using assms(1,2)
    by (intro sorted_wrt_vec_insert [where p = "comes_after sn"])
      (auto simp: in_order_def comes_after_iff, auto simp: ahead_def)
  moreover have "mset (vec_insert ?i ?x (frames jb)) = add_mset ?x (mset (frames jb))"
    by (metis append_take_drop_id mset.simps(2) mset_append union_mset_add_mset_right vec_insert_def)
  ultimately show ?thesis using assms(1,2) by (auto simp: f in_order_def ahead_def)
qed

definition push_all :: "jitter_buffer \<Rightarrow> jitter_frame list \<Rightarrow> jitter_buffer" where
  "push_all = foldl (\<lambda>jb f. jb_push jb (jf_seq_num f) (jf_pcm f))"

fun pop_n :: "nat \<Rightarrow> jitter_buffer \<Rightarrow> i16 list option list" where
  "pop_n 0 jb = []"
| "pop_n (Suc k) jb = (case jb_pop jb of (r, jb') \<Rightarrow> r # pop_n k jb')"

lemma push_all_in_order:
  assumes "in_order base (frames jb)" "next_playout_seq jb = None"
    and "distinct (map jf_seq_num (frames jb @ fs))" "length (frames jb @ fs) \<le> 2 * MAX_DEPTH"
    and "\<forall>f \<in> set fs. ahead base f < 32767"
  shows "in_order base (frames (push_all jb fs)) \<and> next_playout_seq (push_all jb fs) = None \<and>
    target_depth (push_all jb fs) = target_depth jb \<and>
    mset (frames (push_all jb fs)) = mset (frames jb) + mset fs"
  using assms
proof (induction fs arbitrary: jb)
  case (Cons f fs)
  let ?jb = "jb_push jb (jf_seq_num f) (jf_pcm f)"
  have step: "in_order base (frames ?jb)" "mset (frames ?jb) = add_mset f (mset (frames jb))"
    using push_in_order [of base jb "jf_seq_num f" "jf_pcm f"] Cons.prems by (auto simp: ahead_def)
  have "mset (map jf_seq_num (frames ?jb @ fs)) = mset (map jf_seq_num (frames jb @ f # fs))"
    using step(2) by simp
  then have "distinct (map jf_seq_num (frames ?jb @ fs))"
    using Cons.prems(3) mset_eq_imp_distinct_iff by blast
  moreover have "length (frames ?jb @ fs) = length (frames jb @ f # fs)"
    using arg_cong [OF step(2), of size] by simp
  ultimately show ?case using Cons.IH [of ?jb] Cons.prems step by (simp add: push_all_def)
qed (simp add: push_all_def)

text \<open>A run of consecutive sequence numbers starting at \<open>base\<close>.\<close>

definition consecutive :: "u16 \<Rightarrow> jitter_frame list \<Rightarrow> bool" where
  "consecutive base fs \<longleftrightarrow> map jf_seq_num fs = map (\<lambda>i. base + of_nat i) [0..<length fs]"

lemma consecutive_ahead:
  assumes "consecutive base fs" "length fs \<le> 8" "i < length fs"
  shows "ahead base (fs ! i) = i"
proof -
  have "map jf_seq_num fs ! i = map (\<lambda>i. base + of_nat i) [0..<length fs] ! i"
    using assms(1) by (simp add: consecutive_def)
  then have "jf_seq_num (fs ! i) = base + of_nat i" using assms(3) by simp
  then show ?thesis using assms by (simp add: ahead_def unat_of_nat)
qed

lemma in_order_unique:
  assumes "in_order base fs" "in_order base gs" "mset fs = mset gs"
  shows "fs = gs"
proof (rule map_sorted_distinct_set_unique [of "ahead base"])
  have s: "sorted_wrt (<) (map (ahead base) hs)" if "in_order base hs" for hs
    using that by (simp add: in_order_def sorted_wrt_map)
  show "sorted (map (ahead base) fs)" "distinct (map (ahead base) fs)"
    "sorted (map (ahead base) gs)" "distinct (map (ahead base) gs)"
    using s assms(1,2) strict_sorted_iff by blast+
  show "set fs = set gs" using assms(3) by (metis set_mset_mset)
  show "inj_on (ahead base) (set fs \<union> set gs)"
    using s [OF assms(1)] \<open>set fs = set gs\<close> by (simp add: strict_sorted_iff distinct_map)
qed

lemma pop_head:
  assumes "frames jb = f # fs" "next_playout_seq jb = Some (jf_seq_num f) \<or>
    (next_playout_seq jb = None \<and> target_depth jb \<le> length (frames jb))"
  shows "jb_pop jb = (Some (jf_pcm f), jb\<lparr>next_playout_seq := Some (jf_seq_num f + 1), frames := fs\<rparr>)"
  using assms by (auto simp: jb_pop_def Let_def vec_remove_def)

lemma pop_n_consecutive:
  assumes "consecutive base (frames jb)" "next_playout_seq jb = Some base \<or>
    (next_playout_seq jb = None \<and> target_depth jb \<le> length (frames jb))"
  shows "pop_n (length (frames jb)) jb = map (\<lambda>f. Some (jf_pcm f)) (frames jb)"
  using assms
proof (induction "frames jb" arbitrary: jb base)
  case (Cons f fs)
  have f: "frames jb = f # fs" using Cons(2) by simp
  have "map jf_seq_num (f # fs) = map (\<lambda>i. base + of_nat i) (0 # map Suc [0..<length fs])"
    using Cons.prems(1) unfolding f consecutive_def by (simp add: map_Suc_upt upt_conv_Cons del: upt_Suc)
  then have b: "jf_seq_num f = base" and c: "consecutive (base + 1) fs"
    by (auto simp: consecutive_def)
  let ?jb = "jb\<lparr>next_playout_seq := Some (base + 1), frames := fs\<rparr>"
  have "jb_pop jb = (Some (jf_pcm f), ?jb)"
    using pop_head [OF f] Cons.prems(2) b by simp
  moreover have "pop_n (length fs) ?jb = map (\<lambda>f. Some (jf_pcm f)) fs"
    using Cons(1) [of ?jb "base + 1"] c by simp
  ultimately show ?case by (simp add: f)
qed simp

section \<open>The late rate\<close>

text \<open>The exact share of late packets.\<close>

definition loss_ratio :: "jitter_buffer \<Rightarrow> rat" where
  "loss_ratio jb = of_int (uint (late_packets jb)) / of_int (uint (total_packets jb))"

lemma loss_rate_round:
  assumes "0 < total_packets jb" "uint (total_packets jb) < 2 ^ 53" "late_packets jb \<le> total_packets jb"
  shows "loss_rate jb = Fin (round_fmt F64 (loss_ratio jb)) \<and> 0 \<le> loss_ratio jb \<and> loss_ratio jb \<le> 1"
proof -
  have t: "0 < uint (total_packets jb)" and l: "uint (late_packets jb) \<le> uint (total_packets jb)"
    using assms(1,3) by (simp_all add: word_less_def word_le_def)
  have "0 \<le> l \<Longrightarrow> l \<le> m \<Longrightarrow> 0 < m \<Longrightarrow> 0 \<le> (of_int l / of_int m :: rat) \<and> of_int l / of_int m \<le> (1 :: rat)"
    for l m by simp
  from this [OF _ l t] have r: "0 \<le> loss_ratio jb" "loss_ratio jb \<le> 1"
    unfolding loss_ratio_def by simp_all
  have "0 < m \<Longrightarrow> f_div F64 (Fin (of_int l)) (Fin (of_int m)) = fround F64 (of_int l / of_int m)" for l m
    by simp
  then have "loss_rate jb = fround F64 (loss_ratio jb)"
    using t l assms(2) unfolding loss_rate_def loss_ratio_def
    by (subst f_of_int_F64, simp_all only: f_of_int_F64 uint_ge_0 order.strict_trans1)
  with r show ?thesis by (simp add: fround_unit)
qed

lemma ratio_compare:
  assumes "0 < t"
  shows "2 / 100 < (of_int l / of_int t :: rat) \<longleftrightarrow> t < 50 * l"
    "(of_int l / of_int t :: rat) < 1 / 1000 \<longleftrightarrow> 1000 * l < t"
    "3 / 100 \<le> (of_int l / of_int t :: rat) \<longleftrightarrow> 3 * t \<le> 100 * l"
proof -
  have t: "0 < (of_int t :: rat)" using assms by simp
  have "2 / 100 < (of_int l / of_int t :: rat) \<longleftrightarrow> (of_int t :: rat) < of_int (50 * l)"
    using t by (auto simp: field_simps)
  then show "2 / 100 < (of_int l / of_int t :: rat) \<longleftrightarrow> t < 50 * l" by (simp only: of_int_less_iff)
  have "(of_int l / of_int t :: rat) < 1 / 1000 \<longleftrightarrow> of_int (1000 * l) < (of_int t :: rat)"
    using t by (auto simp: field_simps)
  then show "(of_int l / of_int t :: rat) < 1 / 1000 \<longleftrightarrow> 1000 * l < t" by (simp only: of_int_less_iff)
  have "3 / 100 \<le> (of_int l / of_int t :: rat) \<longleftrightarrow> of_int (3 * t) \<le> (of_int (100 * l) :: rat)"
    using t by (auto simp: field_simps)
  then show "3 / 100 \<le> (of_int l / of_int t :: rat) \<longleftrightarrow> 3 * t \<le> 100 * l" by (simp only: of_int_le_iff)
qed

lemma loss_rate_thresholds:
  assumes "0 < total_packets jb" "uint (total_packets jb) < 2 ^ 53" "late_packets jb \<le> total_packets jb"
  shows "INCREASE_THRESHOLD < loss_rate jb \<longrightarrow> 2 / 100 < loss_ratio jb"
    "loss_rate jb < DECREASE_THRESHOLD \<longrightarrow> loss_ratio jb < 1 / 1000"
    "3 / 100 \<le> loss_ratio jb \<longrightarrow> INCREASE_THRESHOLD < loss_rate jb"
proof -
  from loss_rate_round [OF assms]
  have up: "fround F64 q < loss_rate jb \<Longrightarrow> q < loss_ratio jb"
    and dn: "loss_rate jb < fround F64 q \<Longrightarrow> loss_ratio jb < q"
    if "0 \<le> q" "q \<le> 1" for q
    using fround_unit [OF that] round_fmt_mono [of q "loss_ratio jb" F64]
      round_fmt_mono [of "loss_ratio jb" q F64] by fastforce+
  show "INCREASE_THRESHOLD < loss_rate jb \<longrightarrow> 2 / 100 < loss_ratio jb"
    unfolding INCREASE_THRESHOLD_def by (intro impI up) simp_all
  show "loss_rate jb < DECREASE_THRESHOLD \<longrightarrow> loss_ratio jb < 1 / 1000"
    unfolding DECREASE_THRESHOLD_def by (intro impI dn) simp_all
  have lt: "round_fmt F64 (2 / 100) < round_fmt F64 (3 / 100)" by code_simp
  show "3 / 100 \<le> loss_ratio jb \<longrightarrow> INCREASE_THRESHOLD < loss_rate jb"
  proof
    assume "3 / 100 \<le> loss_ratio jb"
    from round_fmt_mono [OF this, of F64] lt loss_rate_round [OF assms] fround_unit [of "2 / 100"]
    show "INCREASE_THRESHOLD < loss_rate jb" by (simp add: INCREASE_THRESHOLD_def)
  qed
qed

lemma jb_adapt_target:
  assumes "100 \<le> total_packets jb"
  shows "target_depth (jb_adapt jb t) =
    (if INCREASE_THRESHOLD < loss_rate jb \<and> target_depth jb < 4 then target_depth jb + 1
     else if loss_rate jb < DECREASE_THRESHOLD \<and> target_depth jb > 1 \<and>
       Fin 5 \<le> f_add F64 (time_since_decrease jb) t then target_depth jb - 1
     else target_depth jb)"
proof -
  have "loss_rate (jb\<lparr>time_since_decrease := x\<rparr>) = loss_rate jb" for x by (simp add: loss_rate_def)
  moreover have "\<not> total_packets jb < 100" using assms by (simp add: not_less)
  ultimately show ?thesis
    by (simp add: jb_adapt_def reset_stats_def Let_def MAX_DEPTH_def DECREASE_HOLDOFF_SECS_def)
qed

section \<open>Properties\<close>

text \<open>Whatever sequence of pushes, pops, adaptations and resets a buffer goes through, it never
  holds two frames with the same sequence number, never more than eight frames, and its target
  depth stays between one and four.\<close>

theorem jitter_invariant:
  assumes "reach (\<lambda>jb. jb = jitter_buffer_new) jb_step jb"
  shows "distinct (map jf_seq_num (frames jb)) \<and> length (frames jb) \<le> 8 \<and> target_depth jb \<in> {1..4}"
  using jitter_sys.reach_inv [OF assms] by (simp add: jb_inv_def MAX_DEPTH_def)

theorem jitter_invariant_witness:
  "length (frames (jb_push jitter_buffer_new 7 [1, 2])) = 1 \<and>
   target_depth (jb_push jitter_buffer_new 7 [1, 2]) \<in> {1..4}"
proof -
  have "reach (\<lambda>jb. jb = jitter_buffer_new) jb_step (jb_push jitter_buffer_new 7 [1, 2])"
    by (rule reach_step, rule reach_start, rule refl, rule step_push)
  from jitter_invariant [OF this] show ?thesis
    by (simp add: jb_push_def jitter_buffer_new_def Let_def MAX_DEPTH_def)
qed

text \<open>C8. A push, seen on the map from sequence numbers to frames: a frame more than half the
  number space behind the playout cursor is dropped, a duplicate never replaces the frame already
  there, a full buffer takes nothing, and otherwise exactly the new frame is added. Every push
  counts as a packet and exactly the first kind counts as late.\<close>

theorem jb_push_refines:
  "slots (jb_push jb sn pcm) =
     (if is_late jb sn \<or> sn \<in> dom (slots jb) \<or> 8 \<le> length (frames jb) then slots jb
      else (slots jb)(sn \<mapsto> pcm)) \<and>
   total_packets (jb_push jb sn pcm) = total_packets jb + 1 \<and>
   late_packets (jb_push jb sn pcm) = late_packets jb + (if is_late jb sn then 1 else 0) \<and>
   next_playout_seq (jb_push jb sn pcm) = next_playout_seq jb \<and>
   target_depth (jb_push jb sn pcm) = target_depth jb"
  using slots_push [of jb sn pcm] unfolding domIff
  by (simp add: MAX_DEPTH_def) (simp add: jb_push_def Let_def is_late_def)

text \<open>C14. A buffered frame is played at its turn: when the playout cursor is at \<open>n\<close> and the buffer
  holds a frame numbered \<open>s\<close>, then after exactly \<open>s - n\<close> (wrapping) further pops, interleaved with
  any pushes whatever, the next pop returns that frame.\<close>

theorem jitter_delivers_on_time:
  assumes "jb_inv jb" "next_playout_seq jb = Some n" "slots jb s = Some pcm"
    and "pops ops = unat (s - n)"
  shows "fst (jb_pop (foldl (play jb_push jb_pop) jb ops)) = Some pcm"
  by (rule jitter_playout.delivered [OF assms])

definition started_buffer :: jitter_buffer where
  "started_buffer =
     snd (jb_pop (push_all jitter_buffer_new [\<lparr>jf_seq_num = 65535, jf_pcm = [1]\<rparr>, \<lparr>jf_seq_num = 1, jf_pcm = [2]\<rparr>]))"

theorem jitter_delivers_on_time_witness:
  "fst (jb_pop (foldl (play jb_push jb_pop) started_buffer [Push 65000 [9], Pop, Push 2 [3]])) = Some [2]"
  by (rule jitter_delivers_on_time [where n = 0 and s = 1])
    (simp_all add: started_buffer_def push_all_def jb_pop_def jb_push_def jitter_buffer_new_def
      jb_inv_def slots_def pops_def INITIAL_DEPTH_def MAX_DEPTH_def comes_after_def SEQ_HALF_def
      Let_def vec_insert_def vec_remove_def)

lemma reordered_pops:
  assumes "consecutive base fs" "fs \<noteq> []" "length fs \<le> 8" "mset arrived = mset fs"
  shows "pop_n (length fs) (push_all jitter_buffer_new arrived) = map (\<lambda>f. Some (jf_pcm f)) fs"
proof -
  let ?jb = "push_all jitter_buffer_new arrived"
  have a: "ahead base (fs ! i) = i" if "i < length fs" for i
    using consecutive_ahead assms that by simp
  then have lt: "\<forall>f \<in> set fs. ahead base f < 32767" using assms(3) by (auto simp: in_set_conv_nth)
  with a have ord: "in_order base fs" by (simp add: in_order_def sorted_wrt_iff_nth_less)
  have "distinct (map (ahead base) fs)" using a by (simp add: distinct_conv_nth)
  then have "distinct (map jf_seq_num fs)" by (auto simp: distinct_map inj_on_def ahead_def)
  then have "distinct (map jf_seq_num arrived)"
    using assms(4) by (metis mset_map mset_eq_imp_distinct_iff)
  moreover have "length arrived = length fs" "set arrived = set fs"
    using assms(4) by (metis size_mset, metis set_mset_mset)
  ultimately have s: "in_order base (frames ?jb)" "next_playout_seq ?jb = None"
    "target_depth ?jb = 1" "mset (frames ?jb) = mset fs"
    using push_all_in_order [of base jitter_buffer_new arrived] lt assms(3,4)
    by (auto simp: jitter_buffer_new_def in_order_def MAX_DEPTH_def INITIAL_DEPTH_def)
  then have "frames ?jb = fs" using in_order_unique ord by blast
  then show ?thesis using pop_n_consecutive [of base ?jb] s assms(1,2) by (simp add: Suc_le_eq)
qed

text \<open>C13. Reordering is repaired: up to eight frames with consecutive sequence numbers (wrapping
  past 65535 included), pushed into a fresh buffer in any order, come out of successive pops in
  sequence order with none lost.\<close>

theorem jitter_repairs_reordering:
  assumes "consecutive base fs" "fs \<noteq> []" "length fs \<le> 8" "mset arrived = mset fs"
  shows "pop_n (length fs) (push_all jitter_buffer_new arrived) = map (\<lambda>f. Some (jf_pcm f)) fs"
  using assms by (rule reordered_pops)

theorem jitter_repairs_reordering_witness:
  "pop_n 3 (push_all jitter_buffer_new
      [\<lparr>jf_seq_num = 0, jf_pcm = [2]\<rparr>, \<lparr>jf_seq_num = 1, jf_pcm = [3]\<rparr>, \<lparr>jf_seq_num = 65535, jf_pcm = [1]\<rparr>]) =
    [Some [1], Some [2], Some [3]]"
proof -
  let ?fs = "[\<lparr>jf_seq_num = 65535, jf_pcm = [1]\<rparr>, \<lparr>jf_seq_num = 0, jf_pcm = [2]\<rparr>, \<lparr>jf_seq_num = 1, jf_pcm = [3]\<rparr>]"
  have "consecutive 65535 ?fs" by (simp add: consecutive_def upt_rec)
  from jitter_repairs_reordering [OF this, of
      "[\<lparr>jf_seq_num = 0, jf_pcm = [2]\<rparr>, \<lparr>jf_seq_num = 1, jf_pcm = [3]\<rparr>, \<lparr>jf_seq_num = 65535, jf_pcm = [1]\<rparr>]"]
  show ?thesis by (simp add: numeral_3_eq_3 add_mset_commute)
qed

text \<open>C17. The adaptation: while fewer than \<open>2\<^sup>5\<^sup>3\<close> packets have been counted, the rounded quotient
  decides as the exact one does. The target depth moves by at most one; it rises only when more
  than 2\% of at least 100 packets were late, falls only when fewer than 0.1\% were and the
  hold-off has passed, and a late rate of 3\% or more always raises it up to four.\<close>

theorem jb_adapt_decides:
  assumes "uint (total_packets jb) < 2 ^ 53" "late_packets jb \<le> total_packets jb"
  shows "(target_depth jb < target_depth (jb_adapt jb t) \<longrightarrow>
      target_depth (jb_adapt jb t) = target_depth jb + 1 \<and> target_depth jb < 4 \<and>
      100 \<le> total_packets jb \<and> uint (total_packets jb) < 50 * uint (late_packets jb)) \<and>
    (target_depth (jb_adapt jb t) < target_depth jb \<longrightarrow>
      target_depth (jb_adapt jb t) = target_depth jb - 1 \<and> 1 < target_depth jb \<and>
      100 \<le> total_packets jb \<and> 1000 * uint (late_packets jb) < uint (total_packets jb) \<and>
      Fin 5 \<le> f_add F64 (time_since_decrease jb) t) \<and>
    (100 \<le> total_packets jb \<and> target_depth jb < 4 \<and>
      3 * uint (total_packets jb) \<le> 100 * uint (late_packets jb) \<longrightarrow>
      target_depth (jb_adapt jb t) = target_depth jb + 1)"
proof (cases "100 \<le> total_packets jb")
  case True
  then have pos: "0 < total_packets jb" by (simp add: word_less_nat_alt word_le_nat_alt)
  then have t: "0 < uint (total_packets jb)" by (simp add: word_less_def)
  note rate = loss_rate_thresholds [OF pos assms]
  show ?thesis
    using True rate jb_adapt_target [OF True, of t]
    unfolding loss_ratio_def ratio_compare [OF t] by (auto split: if_splits)
next
  case False
  then have "target_depth (jb_adapt jb t) = target_depth jb" by (simp add: jb_adapt_def Let_def not_le)
  with False show ?thesis by simp
qed

theorem jb_adapt_decides_witness:
  "target_depth (jb_adapt (jitter_buffer_new\<lparr>total_packets := 200, late_packets := 10\<rparr>) (Fin 1)) = 2"
proof -
  let ?jb = "jitter_buffer_new\<lparr>total_packets := 200, late_packets := 10\<rparr>"
  have "uint (total_packets ?jb) = 200" "2 ^ 53 = (9007199254740992 :: int)" by simp_all
  then have h: "uint (total_packets ?jb) < 2 ^ 53" "late_packets ?jb \<le> total_packets ?jb" by simp_all
  have c: "100 \<le> total_packets ?jb \<and> target_depth ?jb < 4 \<and>
      3 * uint (total_packets ?jb) \<le> 100 * uint (late_packets ?jb)"
    by (simp add: jitter_buffer_new_def INITIAL_DEPTH_def)
  have "target_depth (jb_adapt ?jb (Fin 1)) = target_depth ?jb + 1"
    by (rule jb_adapt_decides [OF h, THEN conjunct2, THEN conjunct2, THEN mp, OF c])
  also have "\<dots> = 2" by (simp add: jitter_buffer_new_def INITIAL_DEPTH_def)
  finally show ?thesis .
qed

end
