(* ===== verification/Latency.thy ===== *)
theory Latency
  imports Rust_Float
begin

text \<open>
  The round-trip tracker of one peer, \<^verbatim>\<open>vc-core/src/latency.rs\<close>: the pings that wait for their
  answer, the statistics with their moving averages in \<^verbatim>\<open>f64\<close>, and the payload of PING and PONG.
  An \<^verbatim>\<open>Instant\<close> is a number of nanoseconds; the reading of the clock is an argument of each
  operation that takes one, and \<^verbatim>\<open>elapsed\<close> saturates at zero as the subtraction of \<^typ>\<open>nat\<close> does.
\<close>

type_synonym instant = nat

definition MAX_PENDING_PINGS :: nat where "MAX_PENDING_PINGS = 16"

record latency_stats =
  last_rtt_us :: u64
  min_rtt_us :: u64
  avg_rtt_us :: u64
  max_rtt_us :: u64
  jitter_us :: u64
  sample_count :: u64

record latency_tracker =
  pending :: "(u32 \<times> instant) list"
  next_ping_id :: u32
  stats :: latency_stats
  alpha :: fl
  last_rtt :: fl

text \<open>\<^verbatim>\<open>LatencyStats { min_rtt_us: u64::MAX, ..Default::default() }\<close>\<close>

definition empty_stats :: latency_stats where
  "empty_stats = \<lparr>last_rtt_us = 0, min_rtt_us = - 1, avg_rtt_us = 0, max_rtt_us = 0, jitter_us = 0,
     sample_count = 0\<rparr>"

definition latency_tracker_new :: latency_tracker where
  "latency_tracker_new =
     \<lparr>pending = [], next_ping_id = 0, stats = empty_stats, alpha = Fin (1 / 8), last_rtt = Fin 0\<rparr>"

text \<open>\<open>it\<close> is the order in which the \<^verbatim>\<open>HashMap\<close> lists its keys.\<close>

definition ping_sent ::
  "(u32 list \<Rightarrow> u32 list) \<Rightarrow> instant \<Rightarrow> latency_tracker \<Rightarrow> u32 \<times> latency_tracker" where
  "ping_sent it now lt0 =
     (let id = next_ping_id lt0;
          lt = lt0\<lparr>next_ping_id := next_ping_id lt0 + 1\<rparr>;
          lt = (if length (pending lt) \<ge> MAX_PENDING_PINGS
                then (case it (map fst (pending lt)) of
                        oldest # _ \<Rightarrow> lt\<lparr>pending := AList.delete oldest (pending lt)\<rparr>
                      | [] \<Rightarrow> lt)
                else lt)
      in (id, lt\<lparr>pending := AList.update id now (pending lt)\<rparr>))"

text \<open>\<^verbatim>\<open>elapsed().as_micros() as u64\<close>\<close>

definition elapsed_micros :: "instant \<Rightarrow> instant \<Rightarrow> u64" where
  "elapsed_micros sent now = word_of_nat ((now - sent) div 1000)"

definition u64_as_f64 :: "u64 \<Rightarrow> fl" where
  "u64_as_f64 w = f_of_int F64 (uint w)"

definition f64_as_u64 :: "fl \<Rightarrow> u64" where
  "f64_as_u64 x = word_of_int (f_to_int 0 (2 ^ 64 - 1) x)"

text \<open>One step of the moving average: \<^verbatim>\<open>(old * (1.0 - alpha) + sample * alpha) as u64\<close>.\<close>

definition ema :: "fl \<Rightarrow> u64 \<Rightarrow> fl \<Rightarrow> u64" where
  "ema a old sample =
     f64_as_u64 (f_add F64 (f_mul F64 (u64_as_f64 old) (f_sub F64 (Fin 1) a)) (f_mul F64 sample a))"

definition record_rtt :: "u64 \<Rightarrow> latency_tracker \<Rightarrow> latency_tracker" where
  "record_rtt rtt_us lt =
     (let s = stats lt;
          s = s\<lparr>last_rtt_us := rtt_us, sample_count := sample_count s + 1\<rparr>;
          s = (if rtt_us < min_rtt_us s then s\<lparr>min_rtt_us := rtt_us\<rparr> else s);
          s = (if rtt_us > max_rtt_us s then s\<lparr>max_rtt_us := rtt_us\<rparr> else s);
          rtt_f = u64_as_f64 rtt_us;
          s = (if sample_count s = 1 then s\<lparr>avg_rtt_us := rtt_us, jitter_us := 0\<rparr>
               else
                 let s = s\<lparr>avg_rtt_us := ema (alpha lt) (avg_rtt_us s) rtt_f\<rparr>;
                     deviation = f_abs (f_sub F64 rtt_f (last_rtt lt))
                 in s\<lparr>jitter_us := ema (alpha lt) (jitter_us s) deviation\<rparr>)
      in lt\<lparr>stats := s, last_rtt := rtt_f\<rparr>)"

definition pong_received :: "u32 \<Rightarrow> instant \<Rightarrow> latency_tracker \<Rightarrow> u64 option \<times> latency_tracker" where
  "pong_received pid now lt =
     (case map_of (pending lt) pid of
        None \<Rightarrow> (None, lt)
      | Some send_time \<Rightarrow>
          let rtt_us = elapsed_micros send_time now in
          (Some rtt_us, record_rtt rtt_us (lt\<lparr>pending := AList.delete pid (pending lt)\<rparr>)))"

definition latency_reset :: "latency_tracker \<Rightarrow> latency_tracker" where
  "latency_reset lt = lt\<lparr>pending := [], stats := empty_stats, last_rtt := Fin 0\<rparr>"

record ping_payload =
  ping_id :: u32

definition ping_to_bytes :: "ping_payload \<Rightarrow> bytes" where
  "ping_to_bytes p = u32_to_be_bytes (ping_id p)"

definition ping_from_bytes :: "bytes \<Rightarrow> ping_payload outcome" where
  "ping_from_bytes data =
     (if length data < 4 then Err PingTooShort
      else Ok \<lparr>ping_id = u32_from_be_bytes (data ! 0) (data ! 1) (data ! 2) (data ! 3)\<rparr>)"

section \<open>The payload\<close>

interpretation ping_wire: wire_format "\<lambda>_. True" ping_to_bytes ping_from_bytes
proof unfold_locales
  fix x rest
  show "ping_from_bytes (ping_to_bytes x @ rest) = Ok x"
    by (simp add: ping_from_bytes_def ping_to_bytes_def u32_to_be_bytes_def u32_be_roundtrip)
next
  fix b x
  assume "ping_from_bytes b = Ok x"
  then have l: "4 \<le> length b"
    and x: "x = \<lparr>ping_id = u32_from_be_bytes (b ! 0) (b ! 1) (b ! 2) (b ! 3)\<rparr>"
    by (auto simp: ping_from_bytes_def split: if_splits)
  from l obtain a0 a1 a2 a3 rest where "b = a0 # a1 # a2 # a3 # rest"
    by (auto simp: Suc_le_length_iff eval_nat_numeral)
  then show "True \<and> (\<exists>rest. b = ping_to_bytes x @ rest)"
    by (simp add: x ping_to_bytes_def u32_be_roundtrip_bytes)
qed

section \<open>The moving average is exact\<close>

text \<open>Below \<open>2\<^sup>5\<^sup>0\<close> microseconds (35 years) every intermediate result fits 53 bits.\<close>

lemma u64_as_f64_exact: "uint w < 2 ^ 53 \<Longrightarrow> u64_as_f64 w = Fin (of_int (uint w))"
  unfolding u64_as_f64_def by (rule f_of_int_F64) simp_all

lemma f64_as_u64_div8:
  assumes "0 \<le> n" "n < 2 ^ 53"
  shows "f64_as_u64 (Fin (of_int n / 8)) = word_of_int (n div 8)"
proof -
  have "rat_truncate (of_int n / 8) = n div 8"
    using assms floor_divide_of_int_eq [where 'a = rat, of n 8] by (simp add: rat_truncate_def)
  moreover have "0 \<le> n div 8" "n div 8 < 2 ^ 53" using assms by auto
  ultimately show ?thesis by (simp add: f64_as_u64_def)
qed

lemma ema_exact:
  assumes "uint old < 2 ^ 50" "0 \<le> d" "d < 2 ^ 50"
  shows "ema (Fin (1 / 8)) old (Fin (of_int d)) = word_of_int ((7 * uint old + d) div 8)"
proof -
  have o: "0 \<le> uint old" by simp
  have sub: "f_sub F64 (Fin 1) (Fin (1 / 8)) = Fin (7 / 8)"
    using fround_F64_dyadic [of 7 3] by (simp add: f_sub_def)
  have m1: "f_mul F64 (u64_as_f64 old) (Fin (7 / 8)) = Fin (of_int (7 * uint old) / 8)"
    using fround_F64_dyadic [of "7 * uint old" 3] assms(1) o
    by (simp add: u64_as_f64_exact mult.commute del: of_int_uint)
  have m2: "f_mul F64 (Fin (of_int d)) (Fin (1 / 8)) = Fin (of_int d / 8)"
    using fround_F64_dyadic [of d 3] assms(2,3) by simp
  have a: "f_add F64 (Fin (of_int (7 * uint old) / 8)) (Fin (of_int d / 8)) =
      Fin (of_int (7 * uint old + d) / 8)"
    using fround_F64_dyadic [of "7 * uint old + d" 3] assms o
    by (simp add: add_divide_distrib [symmetric] del: of_int_uint)
  show ?thesis unfolding ema_def sub m1 m2 a
    using assms o by (intro f64_as_u64_div8) auto
qed

definition latency_exact :: "latency_tracker \<Rightarrow> int \<Rightarrow> bool" where
  "latency_exact lt l \<longleftrightarrow> alpha lt = Fin (1 / 8) \<and> last_rtt lt = Fin (of_int l) \<and> 0 \<le> l \<and> l < 2 ^ 50 \<and>
     uint (avg_rtt_us (stats lt)) < 2 ^ 50 \<and> uint (jitter_us (stats lt)) < 2 ^ 50"

lemma abs_diff_less: "0 \<le> a \<Longrightarrow> a < c \<Longrightarrow> 0 \<le> b \<Longrightarrow> b < c \<Longrightarrow> \<bar>a - b\<bar> < (c :: int)"
  by linarith

lemma deviation_exact:
  assumes "uint r < 2 ^ 50" "0 \<le> l" "l < 2 ^ 50"
  shows "f_abs (f_sub F64 (u64_as_f64 r) (Fin (of_int l))) = Fin (of_int \<bar>uint r - l\<bar>)"
proof -
  have "\<bar>uint r - l\<bar> < 2 ^ 50" using assms by (intro abs_diff_less) simp_all
  then have "fround F64 (of_int (uint r - l) / 2 ^ 0) = Fin (of_int (uint r - l) / 2 ^ 0)"
    by (intro fround_F64_dyadic) simp_all
  then show ?thesis using assms(1) by (simp add: u64_as_f64_exact f_sub_def del: of_int_uint)
qed

lemma record_rtt_stats:
  assumes "latency_exact lt l" "uint r < 2 ^ 50"
  shows "stats (record_rtt r lt) =
    \<lparr>last_rtt_us = r, min_rtt_us = min r (min_rtt_us (stats lt)),
     avg_rtt_us = (if sample_count (stats lt) = 0 then r
       else word_of_int ((7 * uint (avg_rtt_us (stats lt)) + uint r) div 8)),
     max_rtt_us = max r (max_rtt_us (stats lt)),
     jitter_us = (if sample_count (stats lt) = 0 then 0
       else word_of_int ((7 * uint (jitter_us (stats lt)) + \<bar>uint r - l\<bar>) div 8)),
     sample_count = sample_count (stats lt) + 1\<rparr>"
proof -
  from assms have a: "alpha lt = Fin (1 / 8)" and l: "last_rtt lt = Fin (of_int l)" "0 \<le> l" "l < 2 ^ 50"
    and b: "uint (avg_rtt_us (stats lt)) < 2 ^ 50" "uint (jitter_us (stats lt)) < 2 ^ 50"
    by (simp_all add: latency_exact_def)
  have f: "u64_as_f64 r = Fin (of_int (uint r))" using assms(2) by (intro u64_as_f64_exact) simp
  have e1: "ema (alpha lt) (avg_rtt_us (stats lt)) (u64_as_f64 r) =
      word_of_int ((7 * uint (avg_rtt_us (stats lt)) + uint r) div 8)"
    unfolding a f using b assms(2) by (intro ema_exact) simp_all
  have "\<bar>uint r - l\<bar> < 2 ^ 50" using assms(2) l by (intro abs_diff_less) simp_all
  then have e2: "ema (alpha lt) (jitter_us (stats lt)) (f_abs (f_sub F64 (u64_as_f64 r) (last_rtt lt))) =
      word_of_int ((7 * uint (jitter_us (stats lt)) + \<bar>uint r - l\<bar>) div 8)"
    unfolding a l(1) deviation_exact [OF assms(2) l(2,3)] using b
    by (intro ema_exact) simp_all
  show ?thesis
    by (auto simp: record_rtt_def Let_def e1 e2 min_def max_def not_less)
qed

lemma record_rtt_rest:
  "pending (record_rtt r lt) = pending lt" "alpha (record_rtt r lt) = alpha lt"
  "last_rtt (record_rtt r lt) = u64_as_f64 r" "next_ping_id (record_rtt r lt) = next_ping_id lt"
  by (simp_all add: record_rtt_def Let_def)

section \<open>Invariant\<close>

definition stats_ok :: "latency_stats \<Rightarrow> bool" where
  "stats_ok s \<longleftrightarrow> uint (min_rtt_us s) \<le> uint (last_rtt_us s) \<and> uint (last_rtt_us s) \<le> uint (max_rtt_us s) \<and>
     uint (min_rtt_us s) \<le> uint (avg_rtt_us s) \<and> uint (avg_rtt_us s) \<le> uint (max_rtt_us s) \<and>
     uint (jitter_us s) \<le> uint (max_rtt_us s) - uint (min_rtt_us s) \<and> uint (max_rtt_us s) < 2 ^ 50"

definition pending_ok :: "latency_tracker \<Rightarrow> bool" where
  "pending_ok lt \<longleftrightarrow> distinct (map fst (pending lt)) \<and> length (pending lt) \<le> MAX_PENDING_PINGS"

definition latency_inv :: "latency_tracker \<Rightarrow> bool" where
  "latency_inv lt \<longleftrightarrow> pending_ok lt \<and> alpha lt = Fin (1 / 8) \<and>
     last_rtt lt = Fin (of_int (uint (last_rtt_us (stats lt)))) \<and>
     (stats lt = empty_stats \<or> stats_ok (stats lt))"

text \<open>Everything a peer's owner does to the tracker, with clock readings under 35 years apart.\<close>

inductive latency_step :: "latency_tracker \<Rightarrow> latency_tracker \<Rightarrow> bool" where
  step_ping: "iterates it \<Longrightarrow> latency_step lt (snd (ping_sent it now lt))"
| step_pong: "(case map_of (pending lt) pid of Some t \<Rightarrow> (now - t) div 1000 < 2 ^ 50 | None \<Rightarrow> True) \<Longrightarrow>
    latency_step lt (snd (pong_received pid now lt))"
| step_reset: "latency_step lt (latency_reset lt)"

lemma uint_word_of_int_u64: "0 \<le> n \<Longrightarrow> n < 2 ^ 64 \<Longrightarrow> uint (word_of_int n :: u64) = n"
  by (simp add: uint_word_of_int)

lemma uint_between: "lo \<le> n \<Longrightarrow> n \<le> hi \<Longrightarrow> 0 \<le> lo \<Longrightarrow> hi < 2 ^ 50 \<Longrightarrow> uint (word_of_int n :: u64) = n"
  by (rule uint_word_of_int_u64) simp_all

lemma uint_min_max_u64:
  "uint (min a b :: u64) = min (uint a) (uint b)" "uint (max a b :: u64) = max (uint a) (uint b)"
  by (simp_all add: min_def max_def word_le_def)

text \<open>An average of two values of an interval is in it, a difference of two is at most its width.\<close>

lemma ema_in_interval:
  fixes lo hi :: int
  assumes "lo \<le> a" "a \<le> hi" "lo \<le> b" "b \<le> hi"
  shows "lo \<le> (7 * a + b) div 8" "(7 * a + b) div 8 \<le> hi"
  using assms by presburger+

lemma record_rtt_ok:
  assumes "latency_inv lt" "uint r < 2 ^ 50"
  shows "stats_ok (stats (record_rtt r lt))"
  using assms(1)[unfolded latency_inv_def pending_ok_def]
proof (elim conjE disjE)
  assume "stats lt = empty_stats" "alpha lt = Fin (1 / 8)"
    "last_rtt lt = Fin (of_int (uint (last_rtt_us (stats lt))))"
  then have "latency_exact lt 0" by (simp add: latency_exact_def empty_stats_def)
  moreover have "min r (- 1) = r" by (simp add: min_def)
  ultimately show ?thesis
    using assms(2) \<open>stats lt = empty_stats\<close>
    by (simp add: record_rtt_stats stats_ok_def empty_stats_def)
next
  assume ok: "stats_ok (stats lt)" and "alpha lt = Fin (1 / 8)"
    and "last_rtt lt = Fin (of_int (uint (last_rtt_us (stats lt))))"
  define s where "s = stats lt"
  let ?lo = "min (uint r) (uint (min_rtt_us s))" and ?hi = "max (uint r) (uint (max_rtt_us s))"
  let ?l = "uint (last_rtt_us s)"
  have nn: "0 \<le> uint r" "0 \<le> uint (min_rtt_us s)" "0 \<le> uint (jitter_us s)" "0 \<le> ?l" by simp_all
  note ok' = ok [folded s_def, unfolded stats_ok_def]
  have "uint (avg_rtt_us s) < 2 ^ 50" "uint (jitter_us s) < 2 ^ 50" "?l < 2 ^ 50"
    using ok' nn by linarith+
  then have "latency_exact lt ?l"
    using \<open>alpha lt = _\<close> \<open>last_rtt lt = _\<close> by (simp add: latency_exact_def s_def)
  note st = record_rtt_stats [OF this assms(2), folded s_def]
  have "?lo \<le> uint (avg_rtt_us s)" "uint (avg_rtt_us s) \<le> ?hi" "?lo \<le> uint r" "uint r \<le> ?hi"
    using ok' by auto
  note avg = ema_in_interval [OF this]
  have "0 \<le> uint (jitter_us s)" "uint (jitter_us s) \<le> ?hi - ?lo" "0 \<le> \<bar>uint r - ?l\<bar>" "\<bar>uint r - ?l\<bar> \<le> ?hi - ?lo"
    using ok' by auto
  note jit = ema_in_interval [OF this]
  have hi: "?hi < 2 ^ 50" "0 \<le> ?lo" using ok' assms(2) nn by auto
  then have "?hi - ?lo < 2 ^ 50" by linarith
  note w = uint_between [OF avg hi(2,1)] uint_between [OF jit order.refl this]
  show ?thesis
    unfolding stats_ok_def st using w avg jit hi by (simp add: uint_min_max_u64)
qed

lemma elapsed_micros_small: "(now - t) div 1000 < 2 ^ 50 \<Longrightarrow> uint (elapsed_micros t now) < 2 ^ 50"
proof -
  assume a: "(now - t) div 1000 < 2 ^ 50"
  then have "unat (elapsed_micros t now) = (now - t) div 1000"
    by (simp add: elapsed_micros_def unat_of_nat take_bit_nat_eq_self)
  then have "int (unat (elapsed_micros t now)) < int (2 ^ 50)" using a by (simp only: of_nat_less_iff)
  then show ?thesis by simp
qed

lemma delete_pending:
  "distinct (map fst xs) \<Longrightarrow> distinct (map fst (AList.delete k xs))"
  "length (AList.delete k xs) \<le> length xs"
  by (simp_all add: AList.distinct_delete AList.length_delete_le)

lemma length_delete_member: "k \<in> fst ` set xs \<Longrightarrow> length (AList.delete k xs) < length xs"
proof (induction xs)
  case (Cons x xs)
  then show ?case using AList.length_delete_le [of k xs] by (cases "fst x = k") auto
qed simp

lemma length_update_le: "length (AList.update k v xs) \<le> Suc (length xs)"
  by (induction xs) auto

lemma ping_sent_pending:
  assumes "pending_ok lt" "iterates it"
  shows "pending_ok (snd (ping_sent it now lt))"
proof -
  let ?ks = "it (map fst (pending lt))"
  define ps where "ps = (if length (pending lt) \<ge> MAX_PENDING_PINGS
    then case ?ks of k # _ \<Rightarrow> AList.delete k (pending lt) | [] \<Rightarrow> pending lt else pending lt)"
  have p: "pending (snd (ping_sent it now lt)) = AList.update (next_ping_id lt) now ps"
    by (auto simp: ping_sent_def Let_def ps_def split: list.splits)
  have d: "distinct (map fst ps)"
    using assms by (auto simp: ps_def pending_ok_def delete_pending split: list.splits)
  have "length ps < MAX_PENDING_PINGS"
  proof (cases "length (pending lt) \<ge> MAX_PENDING_PINGS")
    case True
    then have "map fst (pending lt) \<noteq> []" by (auto simp: MAX_PENDING_PINGS_def)
    then obtain k ks where k: "?ks = k # ks" using iterates_Nil [OF assms(2)] by (cases ?ks) auto
    then have "k \<in> fst ` set (pending lt)" using iterates_set [OF assms(2), of "map fst (pending lt)"] by auto
    with True k length_delete_member [of k "pending lt"] assms show ?thesis
      by (simp add: ps_def pending_ok_def)
  qed (simp add: ps_def)
  then have "length (AList.update (next_ping_id lt) now ps) \<le> MAX_PENDING_PINGS"
    using length_update_le [of "next_ping_id lt" now ps] by linarith
  with d show ?thesis by (simp add: pending_ok_def p AList.distinct_update)
qed

lemma ping_sent_inv:
  assumes "latency_inv lt" "iterates it"
  shows "latency_inv (snd (ping_sent it now lt))"
proof -
  have "alpha (snd (ping_sent it now lt)) = alpha lt" "stats (snd (ping_sent it now lt)) = stats lt"
    "last_rtt (snd (ping_sent it now lt)) = last_rtt lt"
    by (auto simp: ping_sent_def Let_def split: list.splits)
  then show ?thesis using assms ping_sent_pending by (simp add: latency_inv_def)
qed

lemma pong_received_pending: "pending_ok lt \<Longrightarrow> pending_ok (snd (pong_received pid now lt))"
  using delete_pending(2) [of pid "pending lt"]
  by (auto simp: pong_received_def Let_def pending_ok_def record_rtt_rest delete_pending(1)
      split: option.splits intro: order_trans)

lemma pong_received_inv:
  assumes "latency_inv lt"
    and "case map_of (pending lt) pid of Some t \<Rightarrow> (now - t) div 1000 < 2 ^ 50 | None \<Rightarrow> True"
  shows "latency_inv (snd (pong_received pid now lt))"
proof (cases "map_of (pending lt) pid")
  case (Some t)
  let ?r = "elapsed_micros t now" and ?lt = "lt\<lparr>pending := AList.delete pid (pending lt)\<rparr>"
  have inv: "latency_inv ?lt"
    using assms(1) delete_pending(2) [of pid "pending lt"]
    by (auto simp: latency_inv_def pending_ok_def delete_pending(1) intro: order_trans)
  have r: "uint ?r < 2 ^ 50" using elapsed_micros_small assms(2) Some by simp
  moreover have "last_rtt_us (stats (record_rtt ?r ?lt)) = ?r" by (simp add: record_rtt_def Let_def)
  moreover have "u64_as_f64 ?r = Fin (of_int (uint ?r))" using r by (intro u64_as_f64_exact) simp
  ultimately show ?thesis
    using Some record_rtt_ok [OF inv] inv by (simp add: pong_received_def Let_def latency_inv_def pending_ok_def record_rtt_rest)
qed (use assms in \<open>simp add: pong_received_def\<close>)

lemma latency_reset_inv: "latency_inv lt \<Longrightarrow> latency_inv (latency_reset lt)"
  by (simp add: latency_reset_def latency_inv_def pending_ok_def empty_stats_def)

interpretation latency_sys: invariant_system "\<lambda>lt. lt = latency_tracker_new" latency_step latency_inv
proof unfold_locales
  fix lt :: latency_tracker
  show "lt = latency_tracker_new \<Longrightarrow> latency_inv lt"
    by (simp add: latency_tracker_new_def latency_inv_def pending_ok_def empty_stats_def)
  fix lt'
  assume "latency_inv lt" "latency_step lt lt'"
  from this(2,1) show "latency_inv lt'"
    by cases (simp_all add: ping_sent_inv pong_received_inv latency_reset_inv)
qed

lemma stats_bounds:
  assumes "stats_ok s"
  shows "uint (avg_rtt_us s) < 2 ^ 50 \<and> uint (jitter_us s) < 2 ^ 50 \<and> uint (last_rtt_us s) < 2 ^ 50"
proof -
  have "0 \<le> uint (min_rtt_us s)" by simp
  with assms show ?thesis unfolding stats_ok_def by linarith
qed

section \<open>Properties\<close>

text \<open>C18. In every state a tracker reaches, at most 16 pings wait for an answer, and once anything
  has been measured the minimum, the last value, the average and the maximum are in that order
  around it and the jitter is at most the spread between maximum and minimum.\<close>

theorem latency_stats_ordered:
  assumes "reach (\<lambda>lt. lt = latency_tracker_new) latency_step lt"
  shows "length (pending lt) \<le> 16 \<and> distinct (map fst (pending lt)) \<and>
    (stats lt = empty_stats \<or>
      (min_rtt_us (stats lt) \<le> last_rtt_us (stats lt) \<and> last_rtt_us (stats lt) \<le> max_rtt_us (stats lt) \<and>
       min_rtt_us (stats lt) \<le> avg_rtt_us (stats lt) \<and> avg_rtt_us (stats lt) \<le> max_rtt_us (stats lt) \<and>
       uint (jitter_us (stats lt)) \<le> uint (max_rtt_us (stats lt)) - uint (min_rtt_us (stats lt))))"
  using latency_sys.reach_inv [OF assms]
  by (auto simp: latency_inv_def pending_ok_def MAX_PENDING_PINGS_def stats_ok_def word_le_def)

theorem latency_stats_ordered_witness:
  "length (pending (snd (ping_sent rev 5 latency_tracker_new))) \<le> 16"
proof -
  have "reach (\<lambda>lt. lt = latency_tracker_new) latency_step (snd (ping_sent rev 5 latency_tracker_new))"
    by (rule reach_step, rule reach_start, rule refl, rule step_ping, rule iterates_rev)
  from latency_stats_ordered [OF this] show ?thesis by simp
qed

text \<open>C19. The floating-point moving averages are exact integer arithmetic: below 35 years of round
  trip, the new average is \<open>(7 * avg + rtt) div 8\<close> and the new jitter \<open>(7 * jitter + |rtt - last|)
  div 8\<close>, with no rounding error, and the first sample sets the average and clears the jitter.\<close>

theorem pong_received_exact:
  assumes "latency_inv lt" "map_of (pending lt) pid = Some t" "(now - t) div 1000 < 2 ^ 50"
  shows "case pong_received pid now lt of (r, lt') \<Rightarrow>
    map_option uint r = Some (int ((now - t) div 1000)) \<and>
    uint (avg_rtt_us (stats lt')) = (if sample_count (stats lt) = 0 then int ((now - t) div 1000)
      else (7 * uint (avg_rtt_us (stats lt)) + int ((now - t) div 1000)) div 8) \<and>
    uint (jitter_us (stats lt')) = (if sample_count (stats lt) = 0 then 0
      else (7 * uint (jitter_us (stats lt)) + \<bar>int ((now - t) div 1000) - uint (last_rtt_us (stats lt))\<bar>) div 8)"
proof -
  define r where "r = elapsed_micros t now"
  define s where "s = stats lt"
  let ?lt = "lt\<lparr>pending := AList.delete pid (pending lt)\<rparr>"
  have u: "uint r = int ((now - t) div 1000)"
    using assms(3) by (simp add: r_def elapsed_micros_def uint_nat unat_of_nat take_bit_nat_eq_self del: of_nat_unat)
  have r: "uint r < 2 ^ 50" unfolding r_def using assms(3) by (rule elapsed_micros_small)
  have b: "uint (avg_rtt_us s) < 2 ^ 50 \<and> uint (jitter_us s) < 2 ^ 50 \<and> uint (last_rtt_us s) < 2 ^ 50"
    using assms(1) stats_bounds [of s] by (auto simp: s_def latency_inv_def pending_ok_def empty_stats_def)
  then have ex: "latency_exact ?lt (uint (last_rtt_us s))"
    using assms(1) by (simp add: latency_exact_def latency_inv_def pending_ok_def s_def)
  have "uint (word_of_int ((7 * a + d) div 8) :: u64) = (7 * a + d) div 8"
    if "0 \<le> a" "a < 2 ^ 50" "0 \<le> d" "d < 2 ^ 50" for a d
    using that ema_in_interval [of 0 a "2 ^ 50 - 1" d] by (intro uint_between [of 0 _ "2 ^ 50 - 1"]) auto
  note ema_uint = this [OF uint_ge_0 _ uint_ge_0 r] this [OF uint_ge_0 _ abs_ge_zero abs_diff_less, OF _ uint_ge_0 r uint_ge_0]
  have st: "pong_received pid now lt = (Some r, record_rtt r ?lt)"
    using assms(2) by (simp add: pong_received_def Let_def r_def)
  have "stats ?lt = s" by (simp add: s_def)
  note rs = record_rtt_stats [OF ex r, unfolded this]
  show ?thesis
    unfolding st prod.case rs u [symmetric] s_def [symmetric]
    using ema_uint(1) [OF b [THEN conjunct1]] ema_uint(2) [of "jitter_us s" "last_rtt_us s"] b by simp
qed

theorem pong_received_exact_witness:
  "map_option uint (fst (pong_received 0 9000 (snd (ping_sent rev 5000 latency_tracker_new)))) = Some 4"
proof -
  let ?lt = "snd (ping_sent rev 5000 latency_tracker_new)"
  have "latency_inv ?lt" by (rule ping_sent_inv [OF latency_sys.start_inv iterates_rev]) (rule refl)
  moreover have "map_of (pending ?lt) 0 = Some 5000"
    by (simp add: ping_sent_def Let_def latency_tracker_new_def MAX_PENDING_PINGS_def)
  ultimately show ?thesis using pong_received_exact [of ?lt 0 5000 9000] by (simp split: prod.splits)
qed

text \<open>A ping is answered at most once: after \<^verbatim>\<open>ping_sent\<close> the pong with the returned id measures
  the time since the ping, whatever else was pending, and a second pong with that id is ignored and
  leaves the tracker as it is.\<close>

theorem ping_answered_once:
  "case ping_sent it sent lt of (pid, lt1) \<Rightarrow>
     case pong_received pid now lt1 of (r, lt2) \<Rightarrow>
       r = Some (elapsed_micros sent now) \<and> pong_received pid later lt2 = (None, lt2)"
proof -
  obtain pid lt1 where p: "ping_sent it sent lt = (pid, lt1)" by fastforce
  then have "map_of (pending lt1) pid = Some sent"
    by (auto simp: ping_sent_def Let_def AList.update_Some_unfold)
  then show ?thesis
    by (simp add: p pong_received_def Let_def record_rtt_rest AList.delete_conv')
qed

end
