(* ===== verification/Codec.thy ===== *)
theory Codec
  imports Rust_Float
begin

text \<open>
  The codec wrapper and sample conversions of \<^verbatim>\<open>vc-core/src/codec.rs\<close>. The Opus encoder and decoder
  of the crate \<^verbatim>\<open>audiopus\<close> are parameters: what a call returns is a function of the calls made on the
  same object before it, so an encoder or decoder is modelled by the list of those calls.
\<close>

definition FRAME_SAMPLES :: nat where "FRAME_SAMPLES = 120"
definition FRAME_DURATION_US :: nat where "FRAME_DURATION_US = 2500"
definition SAMPLE_RATE :: nat where "SAMPLE_RATE = 48000"
definition MAX_ENCODED_SIZE :: nat where "MAX_ENCODED_SIZE = 256"

text \<open>
  \<open>opus_encode history pcm max_size\<close> and \<open>opus_decode history input frame_size\<close>, where the input
  \<open>None\<close> asks for concealment; \<open>opus_packet_ok\<close> is the check of \<^verbatim>\<open>Packet::try_from\<close>; the flags say
  whether creating and configuring an encoder or a decoder succeeds.
\<close>

record opus_prims =
  opus_encoder_init :: bool
  opus_decoder_init :: bool
  opus_encode :: "i16 list list \<Rightarrow> i16 list \<Rightarrow> nat \<Rightarrow> bytes option"
  opus_packet_ok :: "bytes \<Rightarrow> bool"
  opus_decode :: "bytes option list \<Rightarrow> bytes option \<Rightarrow> nat \<Rightarrow> i16 list option"

text \<open>What the code relies on: outputs fit the buffers they are written to.\<close>

definition opus_ok :: "opus_prims \<Rightarrow> bool" where
  "opus_ok opus \<longleftrightarrow>
     (\<forall>h pcm n out. opus_encode opus h pcm n = Some out \<longrightarrow> length out \<le> n) \<and>
     (\<forall>h x n out. opus_decode opus h x n = Some out \<longrightarrow> length out \<le> n)"

record encoder =
  enc_calls :: "i16 list list"

record decoder =
  dec_calls :: "bytes option list"

definition encoder_new :: "opus_prims \<Rightarrow> encoder outcome" where
  "encoder_new opus = (if opus_encoder_init opus then Ok \<lparr>enc_calls = []\<rparr> else Err OpusFailed)"

definition opus_encode_frame :: "opus_prims \<Rightarrow> encoder \<Rightarrow> i16 list \<Rightarrow> bytes outcome \<times> encoder" where
  "opus_encode_frame opus en pcm =
     (if length pcm \<noteq> FRAME_SAMPLES then (Err (WrongFrameLength (length pcm)), en)
      else (ok_or OpusFailed (opus_encode opus (enc_calls en) pcm MAX_ENCODED_SIZE),
            en\<lparr>enc_calls := enc_calls en @ [pcm]\<rparr>))"

definition decoder_new :: "opus_prims \<Rightarrow> decoder outcome" where
  "decoder_new opus = (if opus_decoder_init opus then Ok \<lparr>dec_calls = []\<rparr> else Err OpusFailed)"

definition opus_decode_packet :: "opus_prims \<Rightarrow> decoder \<Rightarrow> bytes \<Rightarrow> i16 list outcome \<times> decoder" where
  "opus_decode_packet opus de data =
     (if \<not> opus_packet_ok opus data then (Err OpusFailed, de)
      else (ok_or OpusFailed (opus_decode opus (dec_calls de) (Some data) FRAME_SAMPLES),
            de\<lparr>dec_calls := dec_calls de @ [Some data]\<rparr>))"

definition decode_plc :: "opus_prims \<Rightarrow> decoder \<Rightarrow> i16 list outcome \<times> decoder" where
  "decode_plc opus de =
     (ok_or OpusFailed (opus_decode opus (dec_calls de) None FRAME_SAMPLES),
      de\<lparr>dec_calls := dec_calls de @ [None]\<rparr>)"

text \<open>Sample conversions: \<^verbatim>\<open>i16::MAX as f32\<close> is the exact 32767.\<close>

definition sample_to_i16 :: "fl \<Rightarrow> i16" where
  "sample_to_i16 s =
     (let clamped = f_clamp (Fin (- 1)) (Fin 1) s
      in word_of_int (f_to_int (- 32768) 32767 (f_mul F32 clamped (Fin 32767))))"

definition f32_to_i16 :: "fl list \<Rightarrow> i16 list" where
  "f32_to_i16 samples = map sample_to_i16 samples"

definition sample_to_f32 :: "i16 \<Rightarrow> fl" where
  "sample_to_f32 s = f_div F32 (f_of_int F32 (sint s)) (Fin 32767)"

definition i16_to_f32 :: "i16 list \<Rightarrow> fl list" where
  "i16_to_f32 samples = map sample_to_f32 samples"

section \<open>Converting a sample there and back\<close>

definition to_unit :: "int \<Rightarrow> rat" where
  "to_unit n = round_fmt F32 (of_int n / 32767)"

lemma to_unit_minus: "to_unit (- n) = - to_unit n"
  using round_fmt_minus [of F32 "of_int n / 32767"] by (simp add: to_unit_def)

lemma to_unit_0: "to_unit 0 = 0"
  by (simp add: to_unit_def)

lemma to_unit_range:
  assumes "0 \<le> n" "n \<le> 32767"
  shows "0 \<le> to_unit n" "to_unit n \<le> 1"
proof -
  have "of_int n \<le> (of_int 32767 :: rat)" using assms(2) by (simp only: of_int_le_iff)
  then have "of_int n / 32767 \<le> (1 :: rat)" by simp
  from round_fmt_mono [OF this, of F32] round_fmt_exact [OF representable_int [of 1 F32]]
  show "to_unit n \<le> 1" by (simp add: to_unit_def)
  show "0 \<le> to_unit n" unfolding to_unit_def using assms(1) by (intro round_fmt_nonneg) simp
qed

text \<open>
  For a sample that is not a power of two, the quotient and the product stay in the binades of \<open>n\<close>
  scaled and of \<open>n\<close>, and the two rounding errors together are less than half a unit.
\<close>

lemma to_unit_inverse_binade:
  assumes "2 ^ k < n" "n < 2 ^ Suc k" "k \<le> 14" "n < 32767"
  shows "round_fmt F32 (to_unit n * 32767) = of_int n"
proof -
  define p :: rat where "p = 2 ^ k"
  define x where "x = to_unit n"
  have pi: "p = of_int (2 ^ k)" by (simp add: p_def)
  have "2 ^ k + 1 \<le> n" "n + 1 \<le> 2 * 2 ^ k" "n + 1 \<le> 32767" using assms by auto
  then have "of_int (2 ^ k + 1) \<le> (of_int n :: rat)" "of_int (n + 1) \<le> (of_int (2 * 2 ^ k) :: rat)"
    "of_int (n + 1) \<le> (of_int 32767 :: rat)" unfolding of_int_le_iff by simp_all
  then have n: "p + 1 \<le> of_int n" "of_int n + 1 \<le> 2 * p" "of_int n + 1 \<le> (32767 :: rat)" by (simp_all add: p_def)
  have pw: "p \<le> 8192 \<or> p = 16384"
  proof (cases "k = 14")
    case False
    then have "k \<le> 13" using assms(3) by simp
    from power_increasing [OF this, of "2 :: rat"] show ?thesis by (simp add: p_def)
  qed (simp add: p_def)
  have p0: "0 < p" by (simp add: p_def)
  have powi: "2 powi (int k - int j) = p / 2 ^ j" for j by (simp add: p_def power_int_diff)
  have "p / 2 ^ 15 \<le> of_int n / 32767" using n p0 by (simp add: field_simps)
  moreover have "of_int n / 32767 < p / 2 ^ 14" using n pw by (auto simp: field_simps)
  ultimately have "ilog2 (of_int n / 32767) = int k - int 15"
    using powi [of 15] powi [of 14] by (intro ilog2_eqI) (simp_all add: algebra_simps)
  then have "x = round_unit (int k - int 38) (of_int n / 32767)"
    using n p0 by (simp add: x_def to_unit_def round_fmt_def ulp_exp_def)
  then have "\<bar>x - of_int n / 32767\<bar> \<le> p / 2 ^ 39"
    using round_unit_error [of "int k - int 38" "of_int n / 32767"] powi [of 38] by simp
  then have err: "\<bar>x * 32767 - of_int n\<bar> < p / 2 ^ 24" using p0 by (auto simp: abs_le_iff abs_less_iff field_simps)
  moreover have "p / 2 ^ 24 < 1" using pw by auto
  ultimately have y: "p \<le> x * 32767" "x * 32767 < 2 * p" using n by linarith+
  then have "ilog2 (x * 32767) = int k"
    using p0 by (intro ilog2_eqI) (simp_all add: p_def power_int_add)
  then have r: "round_fmt F32 (x * 32767) = round_unit (int k - int 23) (x * 32767)"
    using y p0 by (auto simp: round_fmt_def ulp_exp_def)
  have "of_int n = of_int (n * 2 ^ (23 - k)) * (p / 2 ^ 23)"
  proof -
    have "p * 2 ^ (23 - k) = (2 ^ 23 :: rat)" using assms(3) by (simp add: p_def flip: power_add)
    then show ?thesis by (simp add: field_simps)
  qed
  note nn = this
  have "\<bar>x * 32767 - of_int (n * 2 ^ (23 - k)) * 2 powi (int k - int 23)\<bar> < 2 powi (int k - int 23) / 2"
    unfolding powi nn [symmetric] using err by simp
  from round_unit_near [OF this] show ?thesis
    unfolding x_def [symmetric] r powi nn [symmetric] .
qed

text \<open>For a power of two the product falls just short of it, in the binade below.\<close>

lemma to_unit_inverse_power:
  assumes "k \<le> 14"
  shows "round_fmt F32 (to_unit (2 ^ k) * 32767) = of_int (2 ^ k)"
proof -
  define p :: rat where "p = 2 ^ k"
  have p0: "0 < p" by (simp add: p_def)
  have powi: "2 powi (int k - int j) = p / 2 ^ j" for j by (simp add: p_def power_int_diff)
  have "ilog2 (p / 32767) = int k - int 15"
    using powi [of 15] powi [of 14] p0 by (intro ilog2_eqI) (simp_all add: field_simps)
  then have x: "to_unit (2 ^ k) = round_unit (int k - int 38) (p / 32767)"
    using p0 by (simp add: to_unit_def round_fmt_def ulp_exp_def p_def)
  have "\<bar>p / 32767 - of_int 8388864 * 2 powi (int k - int 38)\<bar> < 2 powi (int k - int 38) / 2"
    unfolding powi using p0 by (simp add: abs_less_iff field_simps)
  from round_unit_near [OF this] have x': "to_unit (2 ^ k) = p / 2 ^ 15 + p / 2 ^ 30"
    unfolding x powi by simp
  let ?y = "(p / 2 ^ 15 + p / 2 ^ 30) * 32767"
  have "ilog2 ?y = int k - int 1"
  proof (rule ilog2_eqI)
    show "2 powi (int k - int 1) \<le> ?y" unfolding powi using p0 by (simp add: field_simps)
    have "2 powi (int k - int 1 + 1) = p" by (simp add: p_def)
    then show "?y < 2 powi (int k - int 1 + 1)" using p0 by (simp add: field_simps)
  qed
  then have "round_fmt F32 ?y = round_unit (int k - int 24) ?y"
    using p0 by (simp add: round_fmt_def ulp_exp_def)
  moreover have "\<bar>?y - of_int 16777216 * 2 powi (int k - int 24)\<bar> < 2 powi (int k - int 24) / 2"
    unfolding powi using p0 by (simp add: abs_less_iff field_simps)
  note round_unit_near [OF this]
  ultimately show ?thesis unfolding x' powi by (simp add: p_def)
qed

lemma to_unit_inverse:
  assumes "\<bar>n\<bar> \<le> 32767"
  shows "round_fmt F32 (to_unit n * 32767) = of_int n"
proof -
  have pos: "round_fmt F32 (to_unit n * 32767) = of_int n" if "0 < n" "n \<le> 32767" for n
  proof (cases "n = 32767")
    case True
    have "to_unit 32767 = 1" using round_fmt_exact [OF representable_int [of 1 F32]] by (simp add: to_unit_def)
    with True show ?thesis using round_fmt_exact [OF representable_int [of 32767 F32]] by simp
  next
    case False
    define k where "k = nlog2 (nat n)"
    have "2 ^ k \<le> nat n \<and> nat n < 2 ^ Suc k" unfolding k_def using that by (intro nlog2_bounds) simp
    then have "int (2 ^ k) \<le> int (nat n)" "int (nat n) < int (2 ^ Suc k)" by (simp_all only: of_nat_le_iff of_nat_less_iff)
    then have k: "2 ^ k \<le> n" "n < 2 ^ Suc k" using that by simp_all
    have "k \<le> 14"
    proof (rule ccontr)
      assume "\<not> k \<le> 14"
      then have "(2 :: int) ^ 15 \<le> 2 ^ k" by (intro power_increasing) simp_all
      with k that show False by simp
    qed
    with k that False show ?thesis
      using to_unit_inverse_binade [of k n] to_unit_inverse_power [of k] by (cases "n = 2 ^ k") auto
  qed
  consider "0 < n" | "n = 0" | "n < 0" by linarith
  then show ?thesis
    using assms pos [of n] pos [of "- n"] by cases (simp_all add: to_unit_minus round_fmt_minus to_unit_0)
qed

section \<open>Properties\<close>

lemma fround_F32_int:
  assumes "\<bar>n\<bar> < 2 ^ 24"
  shows "fround F32 (of_int n) = Fin (of_int n)"
proof (rule fround_exact)
  show "representable F32 (of_int n)" using assms by (intro representable_int) simp
  have "of_int \<bar>n\<bar> < (of_int (2 ^ 24) :: rat)" using assms by (simp only: of_int_less_iff)
  also have "\<dots> \<le> 2 powi 128" using powi_le_iff [of 24 128] by simp
  finally show "\<bar>of_int n\<bar> < (2 powi fmax_exp F32 :: rat)" by simp
qed

lemma sint_i16: "- 32768 \<le> sint (s :: i16)" "sint (s :: i16) < 32768"
  using sint_greater_eq [of s] sint_less [of s] by simp_all

lemma sample_to_f32_Fin: "sample_to_f32 s = Fin (to_unit (sint s))"
proof -
  have i: "f_of_int F32 (sint s) = Fin (of_int (sint s))"
    unfolding f_of_int_def using sint_i16 [of s] by (intro fround_F32_int) auto
  define n where "n = sint s"
  have n: "of_int (- 32768) \<le> (of_int n :: rat)" "of_int n \<le> (of_int 32767 :: rat)"
    unfolding of_int_le_iff using sint_i16 [of s] by (simp_all add: n_def)
  have "- 2 \<le> of_int n / (32767 :: rat)" "of_int n / 32767 \<le> (2 :: rat)" using n by simp_all
  moreover have "representable F32 (- 2)" "representable F32 2"
    using representable_int [of "- 2" F32] representable_int [of 2 F32] by simp_all
  ultimately have "fround F32 (of_int n / 32767) = Fin (to_unit n)"
    using fround_between [of "- 2" "of_int n / 32767" 2 F32] by (auto simp: to_unit_def)
  then show ?thesis unfolding sample_to_f32_def i by (simp add: n_def del: of_int_sint)
qed

lemma to_unit_min: "to_unit (- 32768) < - 1"
proof -
  have "representable F32 (32769 / 32768)"
    unfolding representable_def by (rule exI [of _ 32769], rule exI [of _ "- 15"]) (simp add: power_int_minus)
  then have e: "round_fmt F32 (32769 / 32768) = 32769 / 32768" by (rule round_fmt_exact)
  have "(32769 / 32768 :: rat) \<le> 32768 / 32767" by simp
  from round_fmt_mono [OF this, of F32] have "32769 / 32768 \<le> to_unit 32768"
    unfolding e by (simp add: to_unit_def)
  then have "1 < to_unit 32768" by linarith
  then show ?thesis using to_unit_minus [of 32768] by simp
qed

lemma to_unit_range_abs: "\<bar>n\<bar> \<le> 32767 \<Longrightarrow> - 1 \<le> to_unit n \<and> to_unit n \<le> 1"
  using to_unit_range [of n] to_unit_range [of "- n"] to_unit_minus [of n] by (cases "0 \<le> n") auto

lemma scale_to_i16:
  assumes "round_fmt F32 (x * 32767) = of_int n" "\<bar>n\<bar> \<le> 32767"
  shows "f_to_int (- 32768) 32767 (f_mul F32 (Fin x) (Fin 32767)) = n"
proof -
  have "fround F32 (of_int n) = Fin (of_int n)" using assms(2) by (intro fround_F32_int) simp
  then have "fround F32 (x * 32767) = Fin (of_int n)" using assms(1) by (simp add: fround_Fin_iff)
  moreover have "rat_truncate (of_int n) = n" by (simp add: rat_truncate_def flip: of_int_minus)
  ultimately show ?thesis using assms(2) by simp
qed

lemma sample_roundtrip_list:
  "f32_to_i16 (i16_to_f32 xs) = map (\<lambda>s. if sint s = - 32768 then - 32767 else s) xs"
proof -
  have "sample_to_i16 (sample_to_f32 s) = (if sint s = - 32768 then - 32767 else s)" for s
  proof (cases "sint s = - 32768")
    case True
    have "round_fmt F32 ((- 1) * 32767) = of_int (- 32767)"
      using round_fmt_exact [OF representable_int [of "- 32767" F32]] by simp
    from scale_to_i16 [OF this] True to_unit_min show ?thesis
      by (simp add: sample_to_f32_Fin sample_to_i16_def f_clamp_def Let_def)
  next
    case False
    then have n: "\<bar>sint s\<bar> \<le> 32767" using sint_i16 [of s] by auto
    have "f_clamp (Fin (- 1)) (Fin 1) (Fin (to_unit (sint s))) = Fin (to_unit (sint s))"
      using to_unit_range_abs [OF n] by (simp add: f_clamp_def)
    with scale_to_i16 [OF to_unit_inverse [OF n] n] False show ?thesis
      by (simp add: sample_to_f32_Fin sample_to_i16_def)
  qed
  then show ?thesis by (simp add: f32_to_i16_def i16_to_f32_def)
qed

text \<open>The \<^verbatim>\<open>f32\<close> value of a sample lies in the documented range from -1.0 to 1.0 exactly when the
  sample is not -32768.\<close>

theorem sample_to_f32_range:
  "(Fin (- 1) \<le> sample_to_f32 s \<and> sample_to_f32 s \<le> Fin 1) \<longleftrightarrow> sint s \<noteq> - 32768"
proof (cases "sint s = - 32768")
  case True
  then show ?thesis using to_unit_min by (simp add: sample_to_f32_Fin)
next
  case False
  then have "\<bar>sint s\<bar> \<le> 32767" using sint_i16 [of s] by auto
  from to_unit_range_abs [OF this] False show ?thesis by (simp add: sample_to_f32_Fin)
qed

end
