(* ===== verification/Peer.thy ===== *)
theory Peer
  imports Key_Exchange Jitter Latency Codec
begin

text \<open>
  Remote peers and the peer table, \<^verbatim>\<open>vc-core/src/peer.rs\<close>. The table is an association list from
  peer ids, with the address index as a map; the clock, the Opus library and the iteration order
  of the table are arguments of the operations that use them.
\<close>

section \<open>Durations\<close>

text \<open>\<^verbatim>\<open>Duration::as_secs_f64\<close> of a number of nanoseconds.\<close>

definition as_secs_f64 :: "nat \<Rightarrow> fl" where
  "as_secs_f64 n =
     f_add F64 (f_of_int F64 (int (n div 1000000000)))
       (f_div F64 (f_of_int F64 (int (n mod 1000000000))) (Fin 1000000000))"

section \<open>A remote peer\<close>

definition MAX_PEERS :: nat where "MAX_PEERS = 5"
definition PEER_TIMEOUT_SECS :: fl where "PEER_TIMEOUT_SECS = Fin 10"

datatype peer_state = Discovered | HelloSent | Connected | Disconnected

record remote_peer =
  rp_id :: u8
  addr :: socket_addr
  state :: peer_state
  rp_jitter :: jitter_buffer
  rp_decoder :: decoder
  rp_replay_filter :: replay_filter
  peer_replay_filter :: replay_filter
  last_seen :: instant
  send_seq :: u16
  rp_latency :: latency_tracker
  peer_crypto :: "crypto_context option"
  kx_sent :: bool
  kx_received :: bool

definition remote_peer_new :: "opus_prims \<Rightarrow> instant \<Rightarrow> u8 \<Rightarrow> socket_addr \<Rightarrow> remote_peer outcome" where
  "remote_peer_new opus now pid a =
     and_then (decoder_new opus) (\<lambda>de. Ok
       \<lparr>rp_id = pid, addr = a, state = Discovered, rp_jitter = jitter_buffer_new, rp_decoder = de,
        rp_replay_filter = replay_filter_new, peer_replay_filter = replay_filter_new, last_seen = now,
        send_seq = 0, rp_latency = latency_tracker_new, peer_crypto = None, kx_sent = False,
        kx_received = False\<rparr>)"

definition is_connected :: "remote_peer \<Rightarrow> bool" where
  "is_connected p \<longleftrightarrow> state p = Connected"

definition is_timed_out :: "instant \<Rightarrow> remote_peer \<Rightarrow> bool" where
  "is_timed_out now p \<longleftrightarrow> as_secs_f64 (now - last_seen p) > PEER_TIMEOUT_SECS"

definition touch :: "instant \<Rightarrow> remote_peer \<Rightarrow> remote_peer" where
  "touch now p = p\<lparr>last_seen := now\<rparr>"

definition next_seq :: "remote_peer \<Rightarrow> u16 \<times> remote_peer" where
  "next_seq p = (send_seq p, p\<lparr>send_seq := send_seq p + 1\<rparr>)"

section \<open>The peer table\<close>

record peer_manager =
  local_id :: u8
  session_id :: bytes
  peers :: "(u8 \<times> remote_peer) list"
  addr_to_id :: "socket_addr \<rightharpoonup> u8"
  is_host :: bool
  next_peer_id :: u8

definition new_host :: "bytes \<Rightarrow> peer_manager" where
  "new_host sid = \<lparr>local_id = 0, session_id = sid, peers = [], addr_to_id = Map.empty,
     is_host = True, next_peer_id = 1\<rparr>"

definition new_joiner :: peer_manager where
  "new_joiner = \<lparr>local_id = 0, session_id = replicate 8 0, peers = [], addr_to_id = Map.empty,
     is_host = False, next_peer_id = 0\<rparr>"

definition set_identity :: "u8 \<Rightarrow> bytes \<Rightarrow> peer_manager \<Rightarrow> peer_manager" where
  "set_identity lid sid pm = pm\<lparr>local_id := lid, session_id := sid\<rparr>"

definition get_peer :: "u8 \<Rightarrow> peer_manager \<Rightarrow> remote_peer option" where
  "get_peer pid pm = map_of (peers pm) pid"

text \<open>Writing through \<^verbatim>\<open>get_peer_mut\<close>: nothing happens when there is no such peer.\<close>

definition upd_peer :: "u8 \<Rightarrow> (remote_peer \<Rightarrow> remote_peer) \<Rightarrow> peer_manager \<Rightarrow> peer_manager" where
  "upd_peer pid f pm = pm\<lparr>peers := AList.map_entry pid f (peers pm)\<rparr>"

definition add_peer ::
  "opus_prims \<Rightarrow> instant \<Rightarrow> u8 \<Rightarrow> socket_addr \<Rightarrow> peer_manager \<Rightarrow> unit outcome \<times> peer_manager" where
  "add_peer opus now pid a pm =
     (if pid = local_id pm then (Ok (), pm)
      else if length (peers pm) \<ge> MAX_PEERS - 1 then (Err MaxPeersReached, pm)
      else case get_peer pid pm of
        None \<Rightarrow> attempt (remote_peer_new opus now pid a) pm (\<lambda>p.
          (Ok (), pm\<lparr>peers := AList.update pid p (peers pm), addr_to_id := (addr_to_id pm)(a \<mapsto> pid)\<rparr>))
      | Some p \<Rightarrow>
          if addr p \<noteq> a
          then (Ok (), upd_peer pid (\<lambda>p. p\<lparr>addr := a\<rparr>)
                  (pm\<lparr>addr_to_id := (addr_to_id pm)(addr p := None, a \<mapsto> pid)\<rparr>))
          else (Ok (), pm))"

definition allocate_peer_id :: "peer_manager \<Rightarrow> u8 outcome \<times> peer_manager" where
  "allocate_peer_id pm =
     (if \<not> is_host pm then (Err OnlyHostAllocates, pm)
      else if unat (next_peer_id pm) \<ge> MAX_PEERS then (Err NoMorePeerIds, pm)
      else (Ok (next_peer_id pm), pm\<lparr>next_peer_id := next_peer_id pm + 1\<rparr>))"

definition peer_by_addr :: "socket_addr \<Rightarrow> peer_manager \<Rightarrow> u8 option" where
  "peer_by_addr a pm = addr_to_id pm a"

text \<open>\<open>it\<close> is the order in which the table is iterated.\<close>

type_synonym peer_order = "(u8 \<times> remote_peer) list \<Rightarrow> (u8 \<times> remote_peer) list"

definition connected_peers :: "peer_order \<Rightarrow> peer_manager \<Rightarrow> (u8 \<times> socket_addr) list" where
  "connected_peers it pm =
     map (\<lambda>p. (rp_id p, addr p)) (filter is_connected (map snd (it (peers pm))))"

definition all_peer_addrs :: "peer_order \<Rightarrow> peer_manager \<Rightarrow> (u8 \<times> socket_addr) list" where
  "all_peer_addrs it pm = map (\<lambda>p. (rp_id p, addr p)) (map snd (it (peers pm)))"

definition build_peer_list :: "peer_order \<Rightarrow> socket_addr \<Rightarrow> peer_manager \<Rightarrow> peer_list_payload" where
  "build_peer_list it local_addr pm =
     \<lparr>pl_session_id = session_id pm,
      pl_peers = (local_id pm, local_addr) # map (\<lambda>p. (rp_id p, addr p)) (map snd (it (peers pm)))\<rparr>"

definition check_timeouts :: "instant \<Rightarrow> peer_manager \<Rightarrow> peer_manager" where
  "check_timeouts now pm =
     pm\<lparr>peers := map (\<lambda>(k, p). (k, if state p = Connected \<and> is_timed_out now p
                                       then p\<lparr>state := Disconnected\<rparr> else p)) (peers pm)\<rparr>"

section \<open>Invariant\<close>

definition peer_ok :: "remote_peer \<Rightarrow> bool" where
  "peer_ok p \<longleftrightarrow> jb_inv (rp_jitter p) \<and> pending_ok (rp_latency p)"

text \<open>
  At most four remote peers, each under its own id with sound buffers, and an address index that
  points only at peers that have that address.
\<close>

definition table_ok :: "(u8 \<times> remote_peer) list \<Rightarrow> (socket_addr \<rightharpoonup> u8) \<Rightarrow> bool" where
  "table_ok ps ix \<longleftrightarrow> distinct (map fst ps) \<and> length ps \<le> 4 \<and>
     (\<forall>(k, p) \<in> set ps. rp_id p = k \<and> peer_ok p) \<and>
     (\<forall>a k. ix a = Some k \<longrightarrow> (\<exists>p. map_of ps k = Some p \<and> addr p = a))"

definition pm_inv :: "peer_manager \<Rightarrow> bool" where
  "pm_inv pm \<longleftrightarrow> table_ok (peers pm) (addr_to_id pm)"

lemma table_okI:
  assumes "distinct (map fst ps)" "length ps \<le> 4" "\<And>k p. (k, p) \<in> set ps \<Longrightarrow> rp_id p = k \<and> peer_ok p"
    and "\<And>a k. ix a = Some k \<Longrightarrow> \<exists>p. map_of ps k = Some p \<and> addr p = a"
  shows "table_ok ps ix"
  using assms unfolding table_ok_def by blast

lemma table_okD:
  assumes "table_ok ps ix"
  shows "distinct (map fst ps)" "length ps \<le> 4" "\<And>k p. (k, p) \<in> set ps \<Longrightarrow> rp_id p = k \<and> peer_ok p"
    "\<And>a k. ix a = Some k \<Longrightarrow> \<exists>p. map_of ps k = Some p \<and> addr p = a"
  using assms unfolding table_ok_def by blast+

lemma pm_inv_new: "pm_inv (new_host sid)" "pm_inv new_joiner"
  by (simp_all add: pm_inv_def table_ok_def new_host_def new_joiner_def)

lemma remote_peer_new_Ok:
  "remote_peer_new opus now pid a = Ok p \<Longrightarrow>
     rp_id p = pid \<and> addr p = a \<and> state p = Discovered \<and> peer_ok p \<and> peer_crypto p = None \<and>
     \<not> kx_sent p \<and> \<not> kx_received p"
  using jb_new_inv latency_sys.start_inv [OF refl]
  by (auto simp: remote_peer_new_def peer_ok_def and_then_eq_Ok latency_inv_def)

lemma remote_peer_new_not_Panic: "remote_peer_new opus now pid a \<noteq> Panic"
  by (simp add: remote_peer_new_def decoder_new_def)

lemma get_upd_peer:
  "get_peer k (upd_peer pid f pm) = (if k = pid then map_option f (get_peer pid pm) else get_peer k pm)"
  by (simp add: get_peer_def upd_peer_def map_of_map_entry)

lemma upd_peer_frame [simp]:
  "local_id (upd_peer pid f pm) = local_id pm" "session_id (upd_peer pid f pm) = session_id pm"
  "addr_to_id (upd_peer pid f pm) = addr_to_id pm" "is_host (upd_peer pid f pm) = is_host pm"
  "next_peer_id (upd_peer pid f pm) = next_peer_id pm"
  "length (peers (upd_peer pid f pm)) = length (peers pm)"
  "map fst (peers (upd_peer pid f pm)) = map fst (peers pm)"
  by (simp_all add: upd_peer_def)

text \<open>The writes the session makes through a peer: they keep id, address and sound buffers.\<close>

definition peer_keeps :: "(remote_peer \<Rightarrow> remote_peer) \<Rightarrow> bool" where
  "peer_keeps f \<longleftrightarrow> (\<forall>p. rp_id (f p) = rp_id p \<and> addr (f p) = addr p \<and> (peer_ok p \<longrightarrow> peer_ok (f p)))"

lemma upd_peer_inv:
  assumes "pm_inv pm" "peer_keeps f"
  shows "pm_inv (upd_peer pid f pm)"
  unfolding pm_inv_def
proof (rule table_okI)
  note ok = table_okD [OF assms(1) [unfolded pm_inv_def]]
  show "distinct (map fst (peers (upd_peer pid f pm)))" "length (peers (upd_peer pid f pm)) \<le> 4"
    using ok by simp_all
  show "rp_id p = k \<and> peer_ok p" if "(k, p) \<in> set (peers (upd_peer pid f pm))" for k p
    using that assms(2) ok(3) set_map_entry_cases [of k p pid f "peers pm"]
    by (fastforce simp: upd_peer_def peer_keeps_def)
  show "\<exists>p. map_of (peers (upd_peer pid f pm)) k = Some p \<and> addr p = a"
    if "addr_to_id (upd_peer pid f pm) a = Some k" for a k
    using ok(4) [of a k] that assms(2) by (fastforce simp: upd_peer_def map_of_map_entry peer_keeps_def)
qed

lemma table_ok_insert:
  assumes "table_ok ps ix" "map_of ps pid = None" "length ps < 4" "rp_id p = pid" "addr p = a" "peer_ok p"
  shows "table_ok (AList.update pid p ps) (ix(a \<mapsto> pid))"
proof (rule table_okI)
  note ok = table_okD [OF assms(1)]
  show "distinct (map fst (AList.update pid p ps))" using ok by (simp add: AList.distinct_update)
  show "length (AList.update pid p ps) \<le> 4" using assms(2,3) by (simp add: length_update_new)
  show "rp_id q = k \<and> peer_ok q" if "(k, q) \<in> set (AList.update pid p ps)" for k q
    using that ok(3) assms(4,6) set_update_subset [of pid p ps] by blast
  show "\<exists>q. map_of (AList.update pid p ps) k = Some q \<and> addr q = b" if "(ix(a \<mapsto> pid)) b = Some k" for b k
  proof (cases "b = a")
    case True
    with that assms(5) show ?thesis by (simp add: AList.update_conv')
  next
    case False
    with that ok(4) obtain q where "map_of ps k = Some q" "addr q = b" by auto
    moreover from this assms(2) have "k \<noteq> pid" by auto
    ultimately show ?thesis by (simp add: AList.update_conv')
  qed
qed

lemma table_ok_move:
  assumes "table_ok ps ix" "map_of ps pid = Some p"
  shows "table_ok (AList.map_entry pid (\<lambda>p. p\<lparr>addr := a\<rparr>) ps) (ix(addr p := None, a \<mapsto> pid))"
proof (rule table_okI)
  note ok = table_okD [OF assms(1)]
  let ?ps = "AList.map_entry pid (\<lambda>p. p\<lparr>addr := a\<rparr>) ps"
  show "distinct (map fst ?ps)" "length ?ps \<le> 4" using ok by simp_all
  show "rp_id q = k \<and> peer_ok q" if "(k, q) \<in> set ?ps" for k q
    using that ok(3) set_map_entry_cases [of k q pid "\<lambda>p. p\<lparr>addr := a\<rparr>" ps]
    by (fastforce simp: peer_ok_def)
  show "\<exists>q. map_of ?ps k = Some q \<and> addr q = b" if "(ix(addr p := None, a \<mapsto> pid)) b = Some k" for b k
  proof (cases "b = a")
    case True
    with that assms(2) show ?thesis by (simp add: map_of_map_entry)
  next
    case False
    with that have "ix b = Some k" "b \<noteq> addr p" by (auto split: if_splits)
    then obtain q where "map_of ps k = Some q" "addr q = b" using ok(4) by blast
    moreover from this \<open>b \<noteq> addr p\<close> assms(2) have "k \<noteq> pid" by auto
    ultimately show ?thesis by (simp add: map_of_map_entry)
  qed
qed

lemma add_peer_inv:
  assumes "pm_inv pm"
  shows "pm_inv (snd (add_peer opus now pid a pm))"
proof (cases "get_peer pid pm")
  case None
  then show ?thesis
    using assms table_ok_insert [of "peers pm" "addr_to_id pm" pid _ a]
    by (auto simp: add_peer_def pm_inv_def get_peer_def MAX_PEERS_def split: attempt_split
        dest!: remote_peer_new_Ok)
next
  case (Some p)
  then show ?thesis
    using assms table_ok_move [of "peers pm" "addr_to_id pm" pid p a]
    by (simp add: add_peer_def pm_inv_def get_peer_def upd_peer_def)
qed

lemma set_identity_inv: "pm_inv pm \<Longrightarrow> pm_inv (set_identity lid sid pm)"
  by (simp add: pm_inv_def set_identity_def)

lemma allocate_peer_id_inv: "pm_inv pm \<Longrightarrow> pm_inv (snd (allocate_peer_id pm))"
  by (simp add: pm_inv_def allocate_peer_id_def)

lemma get_check_timeouts:
  "get_peer k (check_timeouts now pm) =
     map_option (\<lambda>p. if state p = Connected \<and> is_timed_out now p then p\<lparr>state := Disconnected\<rparr> else p) (get_peer k pm)"
  by (simp add: get_peer_def check_timeouts_def map_of_map)

text \<open>A change of every peer that keeps id, address and sound buffers.\<close>

lemma map_peers_inv:
  assumes "pm_inv pm" "peer_keeps f"
  shows "pm_inv (pm\<lparr>peers := map (\<lambda>(k, p). (k, f p)) (peers pm)\<rparr>)"
proof -
  note ok = table_okD [OF assms(1) [unfolded pm_inv_def]]
  have "table_ok (map (\<lambda>(k, p). (k, f p)) (peers pm)) (addr_to_id pm)"
  proof (rule table_okI)
    have "map fst (map (\<lambda>(k, p). (k, f p)) ps) = map fst ps" for ps by (induction ps) auto
    then show "distinct (map fst (map (\<lambda>(k, p). (k, f p)) (peers pm)))" using ok(1) by metis
    show "rp_id p = k \<and> peer_ok p" if "(k, p) \<in> set (map (\<lambda>(k, p). (k, f p)) (peers pm))" for k p
      using that ok(3) assms(2) by (fastforce simp: peer_keeps_def)
    show "\<exists>p. map_of (map (\<lambda>(k, p). (k, f p)) (peers pm)) k = Some p \<and> addr p = a"
      if "addr_to_id pm a = Some k" for a k
      using ok(4) [OF that] assms(2) by (auto simp: map_of_map peer_keeps_def)
  qed (use ok in simp)
  then show ?thesis by (simp add: pm_inv_def)
qed

lemma check_timeouts_inv: "pm_inv pm \<Longrightarrow> pm_inv (check_timeouts now pm)"
  unfolding check_timeouts_def by (rule map_peers_inv) (auto simp: peer_keeps_def peer_ok_def)

section \<open>Timeouts\<close>

text \<open>The comparison of a duration in \<^verbatim>\<open>f64\<close> seconds with a whole number of seconds is exact.\<close>

lemma frac_bounds:
  assumes "0 \<le> m" "m < 1000000000"
  shows "\<exists>f. f_div F64 (f_of_int F64 m) (Fin 1000000000) = Fin f \<and> 0 \<le> f \<and> f \<le> 1 \<and>
    (m = 0 \<longrightarrow> f = 0) \<and> (0 < m \<longrightarrow> 1 / 2 ^ 30 \<le> f)"
proof -
  let ?q = "of_int m / (1000000000 :: rat)"
  have i: "f_of_int F64 m = Fin (of_int m)" using assms by (intro f_of_int_F64) auto
  have "of_int m \<le> (of_int 1000000000 :: rat)" using assms(2) by (simp only: of_int_le_iff)
  then have q: "0 \<le> ?q" "?q \<le> 1" using assms by simp_all
  have "round_fmt F64 1 = 1" using round_fmt_exact [OF representable_int [of 1 F64]] by simp
  then have f1: "round_fmt F64 ?q \<le> 1" using round_fmt_mono [OF q(2), of F64] by simp
  have "1 / 2 ^ 30 \<le> round_fmt F64 ?q" if "0 < m"
  proof -
    have "(of_int 1 :: rat) \<le> of_int m" using that by (simp only: of_int_le_iff)
    then have "of_int 1 / 2 ^ 30 \<le> ?q" by simp
    from round_fmt_mono [OF this, of F64] fround_F64_dyadic [of 1 30] show ?thesis
      by (simp add: fround_Fin_iff)
  qed
  with f1 q round_fmt_nonneg [OF q(1), of F64] fround_unit [OF q] i show ?thesis by auto
qed

lemma as_secs_f64_cases:
  assumes "n div 1000000000 < 2 ^ 52"
  obtains v where "as_secs_f64 n = Fin v" "of_nat (n div 1000000000) \<le> v" "v \<le> of_nat (n div 1000000000 + 1)"
    "n mod 1000000000 = 0 \<longrightarrow> v = of_nat (n div 1000000000)"
    "0 < n mod 1000000000 \<and> n div 1000000000 < 2 ^ 20 \<longrightarrow> of_nat (n div 1000000000) < v"
proof -
  define s where "s = int (n div 1000000000)"
  have s: "0 \<le> s" "s < 2 ^ 52" "s + 1 < 2 ^ 53" using assms by (simp_all add: s_def)
  obtain f where f: "f_div F64 (f_of_int F64 (int (n mod 1000000000))) (Fin 1000000000) = Fin f" "0 \<le> f" "f \<le> 1"
    "n mod 1000000000 = 0 \<longrightarrow> f = 0" "0 < n mod 1000000000 \<longrightarrow> 1 / 2 ^ 30 \<le> f"
    using frac_bounds [of "int (n mod 1000000000)"] by auto
  have e: "as_secs_f64 n = fround F64 (of_int s + f)"
    using f(1) f_of_int_F64 [of s] s by (simp add: as_secs_f64_def s_def)
  have small: "\<bar>of_int k :: rat\<bar> < 2 powi fmax_exp F64" if "0 \<le> k" "k < 2 ^ 53" for k
    using f_of_int_F64 [OF that] by (auto simp: f_of_int_def fround_Fin_iff)
  have r: "representable F64 (of_int s)" "representable F64 (of_int (s + 1))"
    using s by (intro representable_int; simp)+
  have "(of_int s :: rat) \<le> of_int s + f" "of_int s + f \<le> of_int (s + 1)" using f by simp_all
  from fround_between [OF this r small small] s obtain v where
    v: "fround F64 (of_int s + f) = Fin v" "v = round_fmt F64 (of_int s + f)" "of_int s \<le> v" "v \<le> of_int (s + 1)"
    by auto
  have z: "v = of_int s" if "n mod 1000000000 = 0" using that f(4) v(2) round_fmt_exact [OF r(1)] by simp
  have p: "of_int s < v" if "0 < n mod 1000000000" "n div 1000000000 < 2 ^ 20"
  proof -
    have sm: "s * 2 ^ 30 + 1 < 2 ^ 53" using that(2) by (simp add: s_def)
    have "of_int (s * 2 ^ 30 + 1) / 2 ^ 30 \<le> of_int s + f" using that f(5) by (simp add: add_divide_distrib)
    from round_fmt_mono [OF this, of F64] have "of_int (s * 2 ^ 30 + 1) / 2 ^ 30 \<le> v"
      using fround_F64_dyadic [of "s * 2 ^ 30 + 1" 30] sm s v(2) by (simp add: fround_Fin_iff)
    moreover have "of_int s < (of_int (s * 2 ^ 30 + 1) / 2 ^ 30 :: rat)" by (simp add: add_divide_distrib)
    ultimately show ?thesis by linarith
  qed
  show ?thesis by (rule that [of v]) (use e v z p in \<open>simp_all add: s_def\<close>)
qed

section \<open>Properties\<close>

lemma timed_out_iff:
  assumes "now - last_seen p < 2 ^ 52"
  shows "is_timed_out now p \<longleftrightarrow> 10000000000 < now - last_seen p"
proof -
  define n where "n = now - last_seen p"
  have n: "n = n div 1000000000 * 1000000000 + n mod 1000000000" by simp
  have "n div 1000000000 < 2 ^ 52" using assms by (simp add: n_def)
  then obtain v where v: "as_secs_f64 n = Fin v" "of_nat (n div 1000000000) \<le> v"
    "v \<le> of_nat (n div 1000000000 + 1)" "n mod 1000000000 = 0 \<longrightarrow> v = of_nat (n div 1000000000)"
    "0 < n mod 1000000000 \<and> n div 1000000000 < 2 ^ 20 \<longrightarrow> of_nat (n div 1000000000) < v"
    by (rule as_secs_f64_cases)
  consider (lo) "n div 1000000000 + 1 \<le> 10" | (eq) "n div 1000000000 = 10" | (hi) "11 \<le> n div 1000000000"
    by linarith
  then have "10 < v \<longleftrightarrow> 10000000000 < n"
  proof cases
    case lo
    then have "of_nat (n div 1000000000 + 1) \<le> (of_nat 10 :: rat)" by (simp only: of_nat_le_iff)
    moreover have "n \<le> 10000000000" using lo by linarith
    ultimately show ?thesis using v(3) by simp
  next
    case eq
    then have "n = 10000000000 + n mod 1000000000" using n by simp
    then show ?thesis using v eq by (cases "n mod 1000000000 = 0") auto
  next
    case hi
    then have "(of_nat 11 :: rat) \<le> of_nat (n div 1000000000)" by (simp only: of_nat_le_iff)
    moreover have "10000000000 < n" using hi by linarith
    ultimately show ?thesis using v(2) by simp
  qed
  then show ?thesis by (simp add: is_timed_out_def PEER_TIMEOUT_SECS_def n_def [symmetric] v(1))
qed

text \<open>The timeout check is exact to the nanosecond although it compares floating-point seconds:
  precisely the connected peers not heard of for more than ten seconds become disconnected, and
  nothing else of any peer changes (for silences under fifty days).\<close>

theorem check_timeouts_exact:
  assumes "get_peer k pm = Some p" "now - last_seen p < 2 ^ 52"
  shows "get_peer k (check_timeouts now pm) =
    Some (if state p = Connected \<and> 10000000000 < now - last_seen p then p\<lparr>state := Disconnected\<rparr> else p)"
  using assms by (simp add: get_check_timeouts timed_out_iff)

definition demo_opus :: opus_prims where
  "demo_opus = \<lparr>opus_encoder_init = True, opus_decoder_init = True,
     opus_encode = (\<lambda>h pcm n. Some (take n (map ucast pcm))), opus_packet_ok = (\<lambda>d. d \<noteq> []),
     opus_decode = (\<lambda>h x n. Some (take n (case x of None \<Rightarrow> replicate n 0 | Some d \<Rightarrow> map ucast d)))\<rparr>"

lemma demo_opus_ok: "opus_ok demo_opus"
  by (simp add: opus_ok_def demo_opus_def)

definition demo_addr :: "u16 \<Rightarrow> socket_addr" where
  "demo_addr port = SocketV4 (Ipv4Addr 127 0 0 1) port"

definition demo_peer :: remote_peer where
  "demo_peer = \<lparr>rp_id = 1, addr = demo_addr 5001, state = Connected, rp_jitter = jitter_buffer_new,
     rp_decoder = \<lparr>dec_calls = []\<rparr>, rp_replay_filter = replay_filter_new,
     peer_replay_filter = replay_filter_new, last_seen = 0, send_seq = 0,
     rp_latency = latency_tracker_new, peer_crypto = None, kx_sent = False, kx_received = False\<rparr>"

theorem check_timeouts_exact_witness:
  "get_peer 1 (check_timeouts 10000000001 ((new_host [])\<lparr>peers := [(1, demo_peer)]\<rparr>)) =
     Some (demo_peer\<lparr>state := Disconnected\<rparr>) \<and>
   get_peer 1 (check_timeouts 10000000000 ((new_host [])\<lparr>peers := [(1, demo_peer)]\<rparr>)) = Some demo_peer"
  using check_timeouts_exact [of 1 "(new_host [])\<lparr>peers := [(1, demo_peer)]\<rparr>" demo_peer 10000000001]
    check_timeouts_exact [of 1 "(new_host [])\<lparr>peers := [(1, demo_peer)]\<rparr>" demo_peer 10000000000]
  by (simp add: get_peer_def demo_peer_def)

fun allocations :: "nat \<Rightarrow> peer_manager \<Rightarrow> u8 outcome list" where
  "allocations 0 pm = []"
| "allocations (Suc n) pm = (case allocate_peer_id pm of (r, pm') \<Rightarrow> r # allocations n pm')"

lemma allocations_from:
  assumes "is_host pm" "next_peer_id pm = word_of_nat k" "k \<le> 5"
  shows "allocations n pm = map (\<lambda>i. if i < 5 then Ok (word_of_nat i) else Err NoMorePeerIds) [k..<k + n]"
  using assms
proof (induction n arbitrary: pm k)
  case (Suc n)
  have u: "unat (word_of_nat k :: u8) = k" using Suc.prems(3) by (simp add: unat_of_nat take_bit_nat_eq_self)
  show ?case
  proof (cases "k < 5")
    case True
    with Suc.IH [of "pm\<lparr>next_peer_id := next_peer_id pm + 1\<rparr>" "Suc k"] Suc.prems u show ?thesis
      by (simp add: allocate_peer_id_def MAX_PEERS_def upt_conv_Cons del: upt_Suc)
  next
    case False
    have "allocations m pm = replicate m (Err NoMorePeerIds)" for m
      using False Suc.prems u by (induction m) (simp_all add: allocate_peer_id_def MAX_PEERS_def)
    moreover have "map (\<lambda>i. if i < 5 then Ok (word_of_nat i) else Err NoMorePeerIds) [k..<k + Suc n] =
        replicate (Suc n) (Err NoMorePeerIds :: u8 outcome)"
      using False by (intro replicate_eqI) auto
    ultimately show ?thesis by simp
  qed
qed simp

text \<open>A host hands out the ids 1, 2, 3 and 4, each once and in this order, and refuses every
  further request.\<close>

theorem allocations_of_host:
  "allocations n (new_host sid) =
     map (\<lambda>i. if i < 4 then Ok (word_of_nat (i + 1)) else Err NoMorePeerIds) [0..<n]"
proof -
  have "allocations n (new_host sid) =
      map (\<lambda>i. if i < 5 then Ok (word_of_nat i) else Err NoMorePeerIds) [1..<1 + n]"
    by (rule allocations_from) (simp_all add: new_host_def)
  also have "[1..<1 + n] = map Suc [0..<n]" by (simp add: map_Suc_upt)
  finally show ?thesis by (simp add: comp_def)
qed

text \<open>Adding a peer, on every branch: our own id and a full table change nothing (the full table
  is an error even when the call would only update the address of a known peer); otherwise, when
  the decoder can be made, exactly the entry for that id and the address index change, so that id
  and address then lead to each other.\<close>

theorem add_peer_spec:
  "case add_peer opus now pid a pm of (r, pm') \<Rightarrow>
     r = (if pid = local_id pm then Ok ()
          else if 4 \<le> length (peers pm) then Err MaxPeersReached
          else if get_peer pid pm = None \<and> \<not> opus_decoder_init opus then Err OpusFailed
          else Ok ()) \<and>
     (if r = Ok () \<and> pid \<noteq> local_id pm \<and> map_option addr (get_peer pid pm) \<noteq> Some a
      then map_option addr (get_peer pid pm') = Some a \<and> addr_to_id pm' a = Some pid \<and>
        (\<forall>k. k = pid \<or> get_peer k pm' = get_peer k pm)
      else pm' = pm)"
  by (auto simp: add_peer_def MAX_PEERS_def remote_peer_new_def decoder_new_def get_peer_def upd_peer_def
      map_of_map_entry AList.update_conv' split: option.splits)

text \<open>The PEER_LIST a host builds, whatever the iteration order of its table, survives the wire:
  it parses back to the same session, with the host's own entry first and one entry per peer, and
  it is small enough for a packet with header and tag.\<close>

theorem peer_list_survives_wire:
  assumes "pm_inv pm" "iterates it" "length (session_id pm) = 8" "wire_addr host"
    and "\<forall>(k, p) \<in> set (peers pm). wire_addr (addr p)"
  shows "case build_peer_list it host pm of pl \<Rightarrow>
    peer_list_from_bytes (peer_list_to_bytes pl) = Ok pl \<and> hd (pl_peers pl) = (local_id pm, host) \<and>
    set (tl (pl_peers pl)) = (\<lambda>(k, p). (k, addr p)) ` set (peers pm) \<and>
    HEADER_LEN + length (peer_list_to_bytes pl) + AUTH_TAG_LEN \<le> MAX_PACKET_LEN"
proof -
  note ok = table_okD [OF assms(1) [unfolded pm_inv_def]]
  let ?pl = "build_peer_list it host pm"
  have s: "set (it (peers pm)) = set (peers pm)" "length (it (peers pm)) \<le> 4"
    using iterates_set [OF assms(2)] iterates_length [OF assms(2)] ok(2) by auto
  have w: "list_all (\<lambda>(_, a). wire_addr a) (pl_peers ?pl)"
    using s(1) assms(4,5) by (auto simp: build_peer_list_def list_all_iff)
  have len: "length (pl_peers ?pl) \<le> 5" using s(2) by (simp add: build_peer_list_def)
  have "wire_peer_list ?pl"
    using assms(3) w len by (simp add: wire_peer_list_def build_peer_list_def)
  from peer_list_wire.roundtrip [OF this] have rt: "peer_list_from_bytes (peer_list_to_bytes ?pl) = Ok ?pl" .
  have "length (concat (map peer_entry_bytes es)) \<le> 20 * length es" if "list_all (\<lambda>(_, a). wire_addr a) es" for es
    using that
  proof (induction es)
    case (Cons e es)
    then show ?case by (cases e) (auto simp: peer_entry_length split: socket_addr.splits)
  qed simp
  from this [OF w] have "length (peer_list_to_bytes ?pl) \<le> 109"
    using len assms(3) by (simp add: peer_list_to_bytes_def build_peer_list_def)
  moreover have "set (tl (pl_peers ?pl)) = (\<lambda>(k, p). (k, addr p)) ` set (peers pm)"
    using s(1) ok(3) by (force simp: build_peer_list_def)
  ultimately show ?thesis
    using rt by (simp add: HEADER_LEN_def AUTH_TAG_LEN_def MAX_PACKET_LEN_def)
      (simp add: build_peer_list_def)
qed

theorem peer_list_survives_wire_witness:
  "peer_list_from_bytes (peer_list_to_bytes (build_peer_list rev (demo_addr 5000)
     ((new_host (replicate 8 7))\<lparr>peers := [(1, demo_peer)]\<rparr>))) =
   Ok \<lparr>pl_session_id = replicate 8 7, pl_peers = [(0, demo_addr 5000), (1, demo_addr 5001)]\<rparr>"
proof -
  let ?pm = "(new_host (replicate 8 7))\<lparr>peers := [(1, demo_peer)]\<rparr>"
  have "jb_inv jitter_buffer_new \<and> pending_ok latency_tracker_new"
    using jb_new_inv latency_sys.start_inv [OF refl] by (simp add: latency_inv_def)
  then have "pm_inv ?pm"
    by (simp add: pm_inv_def table_ok_def new_host_def demo_peer_def peer_ok_def)
  from peer_list_survives_wire [OF this iterates_rev, of "demo_addr 5000"] show ?thesis
    by (simp add: build_peer_list_def new_host_def demo_peer_def demo_addr_def)
qed

end
