(* ===== verification/Socket.thy ===== *)
theory Socket
  imports Net
begin

text \<open>
  \<^verbatim>\<open>UdpSocket\<close> of \<^verbatim>\<open>vc-core/src/net.rs\<close> and \<^verbatim>\<open>resolve_local_ip\<close> of \<^verbatim>\<open>vc-core/src/lib.rs\<close>: the sequences of system calls
  behind them. The operating system is a parameter: which call it grants after which others, and the
  local address it reports for a socket. A socket is the list of the calls it was made by.
\<close>

section \<open>System calls\<close>

datatype domain = Ipv4Domain | Ipv6Domain

datatype sock_call =
    NewSocket domain
  | SetReuseAddress bool
  | SetNonblocking bool
  | SetSendBufferSize nat
  | SetRecvBufferSize nat
  | SetReadTimeout "nat option"
  | BindTo socket_addr
  | ConnectTo socket_addr

type_synonym socket = "sock_call list"

record socket_os =
  grants :: "socket \<Rightarrow> sock_call \<Rightarrow> bool"
  reported_addr :: "socket \<Rightarrow> socket_addr option"

definition sys_call :: "socket_os \<Rightarrow> sock_call \<Rightarrow> socket \<Rightarrow> socket outcome" where
  "sys_call os c s = (if grants os s c then Ok (s @ [c]) else Err IoFailed)"

section \<open>The socket of a session\<close>

definition is_ipv4 :: "socket_addr \<Rightarrow> bool" where
  "is_ipv4 a = (case a of SocketV4 _ _ \<Rightarrow> True | SocketV6 _ _ _ _ \<Rightarrow> False)"

text \<open>\<^verbatim>\<open>UdpSocket::bind\<close>; timeouts are in milliseconds.\<close>

definition udp_bind :: "socket_os \<Rightarrow> socket_addr \<Rightarrow> socket outcome" where
  "udp_bind os addr =
     (let domain = (if is_ipv4 addr then Ipv4Domain else Ipv6Domain) in
      and_then (sys_call os (NewSocket domain) []) (\<lambda>s.
      and_then (sys_call os (SetReuseAddress True) s) (\<lambda>s.
      and_then (sys_call os (SetNonblocking False) s) (\<lambda>s.
      and_then (sys_call os (SetSendBufferSize 65536) s) (\<lambda>s.
      and_then (sys_call os (SetRecvBufferSize 65536) s) (\<lambda>s.
      and_then (sys_call os (SetReadTimeout (Some 100)) s) (\<lambda>s.
      sys_call os (BindTo addr) s)))))))"

definition set_read_timeout :: "socket_os \<Rightarrow> nat option \<Rightarrow> socket \<Rightarrow> socket outcome" where
  "set_read_timeout os dur s = sys_call os (SetReadTimeout dur) s"

text \<open>Receiving: the next datagram, cut to the buffer, or the kind of error.\<close>

datatype io_error_kind = WouldBlock | TimedOut | OtherKind

datatype recv_event = Arrives bytes socket_addr | Fails io_error_kind

fun recv_from :: "nat \<Rightarrow> recv_event \<Rightarrow> io_error_kind + bytes \<times> socket_addr" where
  "recv_from n (Arrives d a) = Inr (take n d, a)"
| "recv_from n (Fails k) = Inl k"

section \<open>Routing lookup\<close>

definition UNSPECIFIED :: socket_addr where
  "UNSPECIFIED = SocketV4 (Ipv4Addr 0 0 0 0) 0"

text \<open>A temporary socket, bound to any address and connected, tells the address of the route.\<close>

definition lookup_local_ip :: "socket_os \<Rightarrow> socket_addr \<Rightarrow> ip_addr option" where
  "lookup_local_ip os remote =
     (case and_then (sys_call os (BindTo UNSPECIFIED) []) (sys_call os (ConnectTo remote)) of
        Ok s \<Rightarrow> map_option addr_ip (reported_addr os s)
      | _ \<Rightarrow> None)"

section \<open>Lemmas\<close>

lemma sys_call_Ok: "sys_call os c s = Ok s' \<longleftrightarrow> grants os s c \<and> s' = s @ [c]"
  by (auto simp: sys_call_def)

lemma sys_call_cases: "sys_call os c s = Ok (s @ [c]) \<or> sys_call os c s = Err IoFailed"
  by (simp add: sys_call_def)

lemma sys_call_not_Panic [simp]: "sys_call os c s \<noteq> Panic"
  by (simp add: sys_call_def)

text \<open>Every way \<^verbatim>\<open>bind\<close> fails is an input/output error, and a bound socket went through every step.\<close>

lemma udp_bind_Ok:
  "udp_bind os a = Ok s \<Longrightarrow>
     s = [NewSocket (if is_ipv4 a then Ipv4Domain else Ipv6Domain), SetReuseAddress True, SetNonblocking False,
          SetSendBufferSize 65536, SetRecvBufferSize 65536, SetReadTimeout (Some 100), BindTo a]"
  by (auto simp: udp_bind_def Let_def and_then_eq_Ok sys_call_Ok)

lemma udp_bind_cases:
  obtains s where "udp_bind os a = Ok s" | "udp_bind os a = Err IoFailed"
proof -
  define io where "io = (\<lambda>r :: socket outcome. (\<exists>s. r = Ok s) \<or> r = Err IoFailed)"
  have sys: "io (sys_call os c s)" for c s by (simp add: io_def sys_call_def)
  have bind: "io r \<Longrightarrow> (\<And>s. io (k s)) \<Longrightarrow> io (and_then r k)" for r k
    unfolding io_def by (elim disjE exE) simp_all
  have "io (udp_bind os a)" unfolding udp_bind_def Let_def by (intro bind sys)
  then show ?thesis using that by (auto simp: io_def)
qed

lemma recv_from_whole: "length d \<le> n \<Longrightarrow> recv_from n (Arrives d a) = Inr (d, a)"
  by simp

end
