(* ===== verification/Session.thy ===== *)
theory Session
  imports Peer Socket
begin

text \<open>
  The packet handler of a session, \<^verbatim>\<open>Session::handle_incoming\<close> in \<^verbatim>\<open>vc-core/src/lib.rs\<close>: one definition
  per packet type, each the whole branch with its early returns, over a node state made of the
  peer table, the PSK encryption context and the datagrams handed to the socket. What the handler
  reads but does not change is an environment record: the primitives, the pre-shared key, the
  clock (one reading per handler call), the socket's local address, the operating system, which sends
  the operating system accepts, the node's ephemeral key pair and the iteration orders.
\<close>

section \<open>State and environment\<close>

record node =
  peer_mgr :: peer_manager
  crypto_ctx :: crypto_context
  outbox :: "(bytes \<times> socket_addr) list"

record env =
  prims :: crypto_prims
  opus_lib :: opus_prims
  psk :: bytes
  clock :: instant
  local_address :: "socket_addr option"
  net_os :: socket_os
  send_ok :: "bytes \<Rightarrow> socket_addr \<Rightarrow> bool"
  key_pair :: key_exchange
  peer_iter :: peer_order
  ping_iter :: "u32 list \<Rightarrow> u32 list"

definition resolve_local_ip :: "env \<Rightarrow> socket_addr \<Rightarrow> ip_addr option" where
  "resolve_local_ip E remote = lookup_local_ip (net_os E) remote"

text \<open>\<^verbatim>\<open>socket.send_to\<close>: an accepted datagram leaves, a refused one is an error.\<close>

definition send_to :: "env \<Rightarrow> bytes \<Rightarrow> socket_addr \<Rightarrow> node \<Rightarrow> unit outcome \<times> node" where
  "send_to E wire a nd =
     (if send_ok E wire a then (Ok (), nd\<lparr>outbox := outbox nd @ [(wire, a)]\<rparr>) else (Err IoFailed, nd))"

definition upd_node_peer :: "u8 \<Rightarrow> (remote_peer \<Rightarrow> remote_peer) \<Rightarrow> node \<Rightarrow> node" where
  "upd_node_peer pid f nd = nd\<lparr>peer_mgr := upd_peer pid f (peer_mgr nd)\<rparr>"

definition node_add_peer :: "env \<Rightarrow> u8 \<Rightarrow> socket_addr \<Rightarrow> node \<Rightarrow> unit outcome \<times> node" where
  "node_add_peer E pid a nd =
     (case add_peer (opus_lib E) (clock E) pid a (peer_mgr nd) of (r, pm) \<Rightarrow> (r, nd\<lparr>peer_mgr := pm\<rparr>))"

text \<open>Seal a payload under a context with the header as associated data, and build the datagram.\<close>

definition seal ::
  "env \<Rightarrow> crypto_context \<Rightarrow> u8 \<Rightarrow> u8 \<Rightarrow> u16 \<Rightarrow> u32 \<Rightarrow> bytes \<Rightarrow> bytes outcome" where
  "seal E ctx ty pid sn ctr payload =
     (let hdr_bytes = header_to_bytes (packet_header_new ty pid sn ctr) in
      and_then (encrypt (prims E) ctx hdr_bytes payload pid sn ctr)
        (\<lambda>encrypted. Ok (build_wire_packet hdr_bytes encrypted)))"

text \<open>Open a received packet under a context, with what its header says.\<close>

definition open_packet :: "env \<Rightarrow> crypto_context \<Rightarrow> bytes \<Rightarrow> bytes \<Rightarrow> packet_header \<Rightarrow> bytes outcome" where
  "open_packet E ctx hb ct h = decrypt (prims E) ctx hb ct (peer_id h) (seq_num h) (counter h)"

definition ZERO_SESSION :: bytes where "ZERO_SESSION = replicate 8 0"

section \<open>Audio\<close>

text \<open>The plaintext, and whether the per-peer context opened it.\<close>

definition open_audio :: "env \<Rightarrow> bytes \<Rightarrow> bytes \<Rightarrow> packet_header \<Rightarrow> node \<Rightarrow> (bytes \<times> bool) outcome" where
  "open_audio E hb ct h nd =
     (let with_psk = and_then (open_packet E (crypto_ctx nd) hb ct h) (\<lambda>pt. Ok (pt, False)) in
      case Option.bind (get_peer (peer_id h) (peer_mgr nd))
             (\<lambda>p. if kx_received p then peer_crypto p else None) of
        Some peer_ctx \<Rightarrow>
          (case open_packet E peer_ctx hb ct h of Ok pt \<Rightarrow> Ok (pt, True) | _ \<Rightarrow> with_psk)
      | None \<Rightarrow> with_psk)"

definition handle_audio :: "env \<Rightarrow> bytes \<Rightarrow> bytes \<Rightarrow> packet_header \<Rightarrow> node \<Rightarrow> unit outcome \<times> node" where
  "handle_audio E hb ct h nd =
     (let pid = peer_id h in
      attempt (open_audio E hb ct h nd) nd (\<lambda>(plaintext, used_peer_ctx).
        case get_peer pid (peer_mgr nd) of
          None \<Rightarrow> (Ok (), nd)
        | Some p0 \<Rightarrow>
            let put = (\<lambda>p. upd_node_peer pid (\<lambda>_. p) nd);
                p = touch (clock E) p0;
                (fresh, flt) = check_and_accept
                  (if used_peer_ctx then peer_replay_filter p else rp_replay_filter p) (counter h);
                p = (if used_peer_ctx then p\<lparr>peer_replay_filter := flt\<rparr> else p\<lparr>rp_replay_filter := flt\<rparr>)
            in if \<not> fresh then (Err (ReplayDetected pid), put p)
               else case opus_decode_packet (opus_lib E) (rp_decoder p) plaintext of (r, de) \<Rightarrow>
                 let p = p\<lparr>rp_decoder := de\<rparr> in
                 attempt r (put p) (\<lambda>pcm.
                   (Ok (), put (p\<lparr>rp_jitter := jb_push (rp_jitter p) (seq_num h) pcm\<rparr>)))))"

section \<open>Joining\<close>

definition handle_join ::
  "env \<Rightarrow> bytes \<Rightarrow> bytes \<Rightarrow> packet_header \<Rightarrow> socket_addr \<Rightarrow> node \<Rightarrow> unit outcome \<times> node" where
  "handle_join E hb ct h src nd =
     (if \<not> is_host (peer_mgr nd) then (Err NonHostReceivedJoin, nd)
      else
        let psk_ctx = crypto_context_new (psk E) ZERO_SESSION in
        attempt (open_packet E psk_ctx hb ct h) nd (\<lambda>plaintext.
        attempt (join_from_bytes plaintext) nd (\<lambda>_.
        attempt_st (case allocate_peer_id (peer_mgr nd) of (r, pm) \<Rightarrow> (r, nd\<lparr>peer_mgr := pm\<rparr>)) (\<lambda>new_id nd.
        attempt_st (node_add_peer E new_id src nd) (\<lambda>_ nd.
        let nd = upd_node_peer new_id (\<lambda>p. touch (clock E) (p\<lparr>state := Connected\<rparr>)) nd in
        attempt (ok_or IoFailed (local_address E)) nd (\<lambda>local_addr.
        attempt (if is_unspecified (addr_ip local_addr)
                 then and_then (ok_or NoLocalIp (resolve_local_ip E src))
                        (\<lambda>ip. Ok (socket_addr_new ip (addr_port local_addr)))
                 else Ok local_addr) nd (\<lambda>host_addr.
        let lid = local_id (peer_mgr nd);
            pl_bytes = peer_list_to_bytes (build_peer_list (peer_iter E) host_addr (peer_mgr nd))
        in attempt (seal E psk_ctx PKT_PEER_LIST lid 0 0 pl_bytes) nd (\<lambda>wire.
           send_to E wire src nd))))))))"

definition max_id :: "u8 list \<Rightarrow> u8 option" where
  "max_id xs = (case xs of [] \<Rightarrow> None | y # ys \<Rightarrow> Some (fold max ys y))"

text \<open>The loop over the entries of a PEER_LIST: learn the peer, greet it.\<close>

fun greet_peers ::
  "env \<Rightarrow> u8 \<Rightarrow> bytes \<Rightarrow> u8 \<Rightarrow> socket_addr \<Rightarrow> (u8 \<times> socket_addr) list \<Rightarrow> node \<Rightarrow> unit outcome \<times> node" where
  "greet_peers E my_id sid sender src [] nd = (Ok (), nd)"
| "greet_peers E my_id sid sender src ((pid, a) # rest) nd =
     (if pid = my_id then greet_peers E my_id sid sender src rest nd
      else
        let peer_addr = (if pid = sender then src else a) in
        attempt_st (node_add_peer E pid peer_addr nd) (\<lambda>_ nd.
        attempt (seal E (crypto_context_new (psk E) sid) PKT_HELLO my_id 0 0 []) nd (\<lambda>wire.
        attempt_st (send_to E wire peer_addr nd) (\<lambda>_ nd.
        greet_peers E my_id sid sender src rest (upd_node_peer pid (\<lambda>p. p\<lparr>state := HelloSent\<rparr>) nd)))))"

definition handle_peer_list ::
  "env \<Rightarrow> bytes \<Rightarrow> bytes \<Rightarrow> packet_header \<Rightarrow> socket_addr \<Rightarrow> node \<Rightarrow> unit outcome \<times> node" where
  "handle_peer_list E hb ct h src nd =
     attempt (open_packet E (crypto_context_new (psk E) ZERO_SESSION) hb ct h) nd (\<lambda>plaintext.
     attempt (peer_list_from_bytes plaintext) nd (\<lambda>pl.
     attempt (ok_or EmptyPeerList (max_id (map fst (pl_peers pl)))) nd (\<lambda>my_id.
     let nd = nd\<lparr>peer_mgr := set_identity my_id (pl_session_id pl) (peer_mgr nd),
                 crypto_ctx := crypto_context_new (psk E) (pl_session_id pl)\<rparr>
     in greet_peers E my_id (pl_session_id pl) (peer_id h) src (pl_peers pl) nd)))"

definition handle_hello ::
  "env \<Rightarrow> bytes \<Rightarrow> bytes \<Rightarrow> packet_header \<Rightarrow> socket_addr \<Rightarrow> node \<Rightarrow> unit outcome \<times> node" where
  "handle_hello E hb ct h src nd =
     attempt (open_packet E (crypto_context_new (psk E) (session_id (peer_mgr nd))) hb ct h) nd (\<lambda>_.
     let pid = peer_id h in
     attempt_st (if get_peer pid (peer_mgr nd) = None then node_add_peer E pid src nd else (Ok (), nd)) (\<lambda>_ nd.
     let nd = upd_node_peer pid (\<lambda>p. touch (clock E) (p\<lparr>state := Connected\<rparr>)) nd;
         lid = local_id (peer_mgr nd)
     in attempt (seal E (crypto_context_new (psk E) (session_id (peer_mgr nd))) PKT_HELLO_ACK lid 0 0 []) nd
          (\<lambda>wire. send_to E wire src nd)))"

definition handle_hello_ack :: "env \<Rightarrow> bytes \<Rightarrow> bytes \<Rightarrow> packet_header \<Rightarrow> node \<Rightarrow> unit outcome \<times> node" where
  "handle_hello_ack E hb ct h nd =
     attempt (open_packet E (crypto_context_new (psk E) (session_id (peer_mgr nd))) hb ct h) nd (\<lambda>_.
     (Ok (), upd_node_peer (peer_id h) (\<lambda>p. touch (clock E) (p\<lparr>state := Connected\<rparr>)) nd))"

section \<open>Keepalive and latency\<close>

definition touch_by_addr :: "env \<Rightarrow> socket_addr \<Rightarrow> node \<Rightarrow> node" where
  "touch_by_addr E src nd =
     (case peer_by_addr src (peer_mgr nd) of
        None \<Rightarrow> nd | Some pid \<Rightarrow> upd_node_peer pid (touch (clock E)) nd)"

definition handle_keepalive :: "env \<Rightarrow> socket_addr \<Rightarrow> node \<Rightarrow> unit outcome \<times> node" where
  "handle_keepalive E src nd = (Ok (), touch_by_addr E src nd)"

definition handle_ping ::
  "env \<Rightarrow> bytes \<Rightarrow> bytes \<Rightarrow> packet_header \<Rightarrow> socket_addr \<Rightarrow> node \<Rightarrow> unit outcome \<times> node" where
  "handle_ping E hb ct h src nd =
     attempt (open_packet E (crypto_ctx nd) hb ct h) nd (\<lambda>plaintext.
     attempt (ping_from_bytes plaintext) nd (\<lambda>ping.
     let lid = local_id (peer_mgr nd) in
     case next_counter (crypto_ctx nd) of
       (Ok pong_counter, ctx) \<Rightarrow>
         let nd = nd\<lparr>crypto_ctx := ctx\<rparr>;
             nd = (case seal E ctx PKT_PONG lid 0 pong_counter (ping_to_bytes ping) of
                     Ok wire \<Rightarrow> snd (send_to E wire src nd) | _ \<Rightarrow> nd)
         in (Ok (), touch_by_addr E src nd)
     | (_, ctx) \<Rightarrow> (Ok (), nd\<lparr>crypto_ctx := ctx\<rparr>)))"

definition handle_pong :: "env \<Rightarrow> bytes \<Rightarrow> bytes \<Rightarrow> packet_header \<Rightarrow> node \<Rightarrow> unit outcome \<times> node" where
  "handle_pong E hb ct h nd =
     attempt (open_packet E (crypto_ctx nd) hb ct h) nd (\<lambda>plaintext.
     attempt (ping_from_bytes plaintext) nd (\<lambda>pong.
     (Ok (), upd_node_peer (peer_id h) (\<lambda>p.
        (touch (clock E) p)\<lparr>rp_latency := snd (pong_received (ping_id pong) (clock E) (rp_latency p))\<rparr>) nd)))"

section \<open>Key exchange\<close>

definition send_key_exchange :: "env \<Rightarrow> u8 \<Rightarrow> bytes \<Rightarrow> u8 \<Rightarrow> socket_addr \<Rightarrow> node \<Rightarrow> node" where
  "send_key_exchange E lid sid pid dst nd =
     (case seal E (crypto_context_new (psk E) sid) PKT_KEY_EXCHANGE lid 0 0
             (kx_to_bytes \<lparr>public_key = public_key_bytes (key_pair E)\<rparr>) of
        Ok wire \<Rightarrow> upd_node_peer pid (\<lambda>p. p\<lparr>kx_sent := True\<rparr>) (snd (send_to E wire dst nd))
      | _ \<Rightarrow> nd)"

definition handle_key_exchange ::
  "env \<Rightarrow> bytes \<Rightarrow> bytes \<Rightarrow> packet_header \<Rightarrow> socket_addr \<Rightarrow> node \<Rightarrow> unit outcome \<times> node" where
  "handle_key_exchange E hb ct h src nd =
     (let sid = session_id (peer_mgr nd); lid = local_id (peer_mgr nd); pid = peer_id h in
      attempt (open_packet E (crypto_context_new (psk E) sid) hb ct h) nd (\<lambda>plaintext.
      attempt (kx_from_bytes plaintext) nd (\<lambda>kx.
      attempt (derive_peer_key (prims E) (key_pair E) (public_key kx) sid lid pid) nd (\<lambda>derived_key.
      let nd = upd_node_peer pid
            (\<lambda>p. p\<lparr>peer_crypto := Some (crypto_context_new derived_key sid), kx_received := True\<rparr>) nd;
          needs_send = (case get_peer pid (peer_mgr nd) of Some p \<Rightarrow> \<not> kx_sent p | None \<Rightarrow> False)
      in (Ok (), if needs_send then send_key_exchange E lid sid pid src nd else nd)))))"

section \<open>The handler\<close>

definition handle_incoming :: "env \<Rightarrow> bytes \<Rightarrow> socket_addr \<Rightarrow> node \<Rightarrow> unit outcome \<times> node" where
  "handle_incoming E data src nd =
     attempt (parse_wire_packet data) nd (\<lambda>(hb, ct).
     attempt (header_from_bytes hb) nd (\<lambda>h.
       if pkt_type h = PKT_AUDIO then handle_audio E hb ct h nd
       else if pkt_type h = PKT_JOIN then handle_join E hb ct h src nd
       else if pkt_type h = PKT_PEER_LIST then handle_peer_list E hb ct h src nd
       else if pkt_type h = PKT_HELLO then handle_hello E hb ct h src nd
       else if pkt_type h = PKT_HELLO_ACK then handle_hello_ack E hb ct h nd
       else if pkt_type h = PKT_KEEPALIVE then handle_keepalive E src nd
       else if pkt_type h = PKT_PING then handle_ping E hb ct h src nd
       else if pkt_type h = PKT_PONG then handle_pong E hb ct h nd
       else if pkt_type h = PKT_KEY_EXCHANGE then handle_key_exchange E hb ct h src nd
       else (Err (UnknownPacketType (pkt_type h)), nd)))"

section \<open>The node invariant\<close>

text \<open>The peer table is sound, and the PSK context belongs to the key and the session of the table.\<close>

definition node_inv :: "bytes \<Rightarrow> node \<Rightarrow> bool" where
  "node_inv key nd \<longleftrightarrow> pm_inv (peer_mgr nd) \<and> length (session_id (peer_mgr nd)) = 8 \<and>
     cipher_key (crypto_ctx nd) = key \<and> ctx_session_id (crypto_ctx nd) = session_id (peer_mgr nd)"

named_theorems node_inv_intros "operations that keep the node invariant"

lemma send_to_inv [node_inv_intros]: "node_inv key nd \<Longrightarrow> node_inv key (snd (send_to E wire a nd))"
  by (simp add: send_to_def node_inv_def)

lemma upd_node_peer_inv [node_inv_intros]:
  "node_inv key nd \<Longrightarrow> peer_keeps f \<Longrightarrow> node_inv key (upd_node_peer pid f nd)"
  by (simp add: upd_node_peer_def node_inv_def upd_peer_inv)

lemma add_peer_frame:
  "session_id (snd (add_peer opus now pid a pm)) = session_id pm"
  "local_id (snd (add_peer opus now pid a pm)) = local_id pm"
  "is_host (snd (add_peer opus now pid a pm)) = is_host pm"
  "next_peer_id (snd (add_peer opus now pid a pm)) = next_peer_id pm"
  by (auto simp: add_peer_def split: attempt_split option.splits)

lemma node_add_peer_inv [node_inv_intros]: "node_inv key nd \<Longrightarrow> node_inv key (snd (node_add_peer E pid a nd))"
  using add_peer_inv [of "peer_mgr nd" "opus_lib E" "clock E" pid a]
    add_peer_frame [of "opus_lib E" "clock E" pid a "peer_mgr nd"]
  by (auto simp: node_add_peer_def node_inv_def split: prod.splits)

lemma send_key_exchange_inv [node_inv_intros]:
  "node_inv key nd \<Longrightarrow> node_inv key (send_key_exchange E lid sid pid dst nd)"
  by (auto simp: send_key_exchange_def peer_keeps_def peer_ok_def split: outcome.splits
      intro!: upd_node_peer_inv send_to_inv)

lemma touch_by_addr_inv [node_inv_intros]: "node_inv key nd \<Longrightarrow> node_inv key (touch_by_addr E src nd)"
  by (auto simp: touch_by_addr_def peer_keeps_def touch_def peer_ok_def split: option.splits
      intro: upd_node_peer_inv)

text \<open>The writes the handlers make through a peer.\<close>

lemma peer_keeps_simple [simp]:
  "peer_keeps (\<lambda>p. touch now (p\<lparr>state := s\<rparr>))" "peer_keeps (touch now)" "peer_keeps (\<lambda>p. p\<lparr>state := s\<rparr>)"
  "peer_keeps (\<lambda>p. p\<lparr>kx_sent := b\<rparr>)" "peer_keeps (\<lambda>p. p\<lparr>peer_crypto := c, kx_received := b\<rparr>)"
  by (simp_all add: peer_keeps_def touch_def peer_ok_def)

lemma peer_keeps_pong [simp]:
  "peer_keeps (\<lambda>p. (touch now p)\<lparr>rp_latency := snd (pong_received i now (rp_latency p))\<rparr>)"
  by (simp add: peer_keeps_def touch_def peer_ok_def pong_received_pending)

text \<open>Replacing a peer by a changed copy of itself.\<close>

lemma put_peer_inv:
  assumes "node_inv key nd" "get_peer pid (peer_mgr nd) = Some p" "rp_id q = rp_id p" "addr q = addr p" "peer_ok q"
  shows "node_inv key (upd_node_peer pid (\<lambda>_. q) nd)"
proof -
  let ?f = "\<lambda>x. if x = p then q else x"
  have "AList.map_entry pid (\<lambda>_. q) ps = AList.map_entry pid ?f ps" if "map_of ps pid = Some p" for ps
    using that by (induction ps) auto
  then have "upd_node_peer pid (\<lambda>_. q) nd = upd_node_peer pid ?f nd"
    using assms(2) by (simp add: upd_node_peer_def upd_peer_def get_peer_def)
  moreover have "peer_keeps ?f" using assms(3-5) by (simp add: peer_keeps_def)
  ultimately show ?thesis using upd_node_peer_inv [OF assms(1)] by simp
qed

lemma node_inv_peer_ok:
  assumes "node_inv key nd" "get_peer pid (peer_mgr nd) = Some p"
  shows "peer_ok p \<and> rp_id p = pid"
proof -
  have "table_ok (peers (peer_mgr nd)) (addr_to_id (peer_mgr nd))"
    using assms(1) by (simp add: node_inv_def pm_inv_def)
  from table_okD(3) [OF this, of pid p] assms(2) map_of_SomeD [of "peers (peer_mgr nd)" pid p]
  show ?thesis by (simp add: get_peer_def)
qed

text \<open>Early returns: the state at the failing step, and the rest of the handler after it.\<close>

lemma attempt_inv:
  assumes "node_inv key s" "\<And>x. r = Ok x \<Longrightarrow> node_inv key (snd (k x))"
  shows "node_inv key (snd (attempt r s k))"
  using assms by (cases r) simp_all

lemma attempt_st_inv:
  assumes "node_inv key (snd rs)" "\<And>x. fst rs = Ok x \<Longrightarrow> node_inv key (snd (k x (snd rs)))"
  shows "node_inv key (snd (attempt_st rs k))"
  using assms by (cases "(rs, k)" rule: attempt_st.cases) simp_all

lemma handle_audio_put:
  assumes "node_inv key nd" "get_peer pid (peer_mgr nd) = Some p" "rp_id q = rp_id p" "addr q = addr p"
    and "rp_latency q = rp_latency p" "rp_jitter q = rp_jitter p \<or> rp_jitter q = jb_push (rp_jitter p) sn pcm"
  shows "node_inv key (upd_node_peer pid (\<lambda>_. q) nd)"
  using assms put_peer_inv [OF assms(1-4)] node_inv_peer_ok [OF assms(1,2)]
  by (auto simp: peer_ok_def jb_push_inv)

lemma handle_audio_inv:
  assumes "node_inv key nd"
  shows "node_inv key (snd (handle_audio E hb ct h nd))"
proof (cases "open_audio E hb ct h nd")
  case (Ok x)
  obtain pt used where x: "x = (pt, used)" by fastforce
  show ?thesis
  proof (cases "get_peer (peer_id h) (peer_mgr nd)")
    case None
    with Ok x assms show ?thesis by (simp add: handle_audio_def)
  next
    case (Some p)
    note put = handle_audio_put [OF assms Some]
    show ?thesis unfolding handle_audio_def Let_def Ok x attempt.simps prod.case Some option.case
      by (auto simp: touch_def intro!: attempt_inv put split: prod.split)
  qed
qed (use assms in \<open>simp_all add: handle_audio_def\<close>)

lemma greet_peers_inv: "node_inv key nd \<Longrightarrow> node_inv key (snd (greet_peers E my sid sender src es nd))"
proof (induction es arbitrary: nd)
  case (Cons e es)
  then show ?case
    by (cases e) (auto simp: Let_def intro!: attempt_inv attempt_st_inv node_inv_intros Cons.IH)
qed simp

lemma set_session_inv:
  "node_inv key nd \<Longrightarrow> length sid = 8 \<Longrightarrow>
     node_inv key (nd\<lparr>peer_mgr := set_identity lid sid (peer_mgr nd), crypto_ctx := crypto_context_new key sid\<rparr>)"
  by (simp add: node_inv_def set_identity_inv crypto_context_new_def) (simp add: set_identity_def)

lemma peer_list_session_length: "peer_list_from_bytes b = Ok pl \<Longrightarrow> length (pl_session_id pl) = 8"
  using peer_list_wire.dec_Ok [of b pl] by (simp add: wire_peer_list_def)

lemma allocate_node_inv:
  assumes "node_inv key nd" "allocate_peer_id (peer_mgr nd) = (r, pm)"
  shows "node_inv key (nd\<lparr>peer_mgr := pm\<rparr>)"
  using assms allocate_peer_id_inv [of "peer_mgr nd"]
  by (auto simp: node_inv_def allocate_peer_id_def split: if_splits)

lemma handle_incoming_inv:
  assumes "node_inv (psk E) nd"
  shows "node_inv (psk E) (snd (handle_incoming E data src nd))"
proof -
  note inv = node_inv_intros assms
  have "node_inv (psk E) (snd (handle_join E hb ct h src nd))" for hb ct h
    unfolding handle_join_def Let_def
    using assms by (auto intro!: attempt_inv attempt_st_inv node_inv_intros allocate_node_inv split: prod.splits)
  moreover have "node_inv (psk E) (snd (handle_peer_list E hb ct h src nd))" for hb ct h
    unfolding handle_peer_list_def Let_def
    using assms by (auto intro!: attempt_inv greet_peers_inv set_session_inv dest: peer_list_session_length)
  moreover have "node_inv (psk E) (snd (handle_hello E hb ct h src nd))" for hb ct h
    unfolding handle_hello_def Let_def
    using assms by (auto intro!: attempt_inv attempt_st_inv node_inv_intros)
  moreover have "node_inv (psk E) (snd (handle_hello_ack E hb ct h nd))" for hb ct h
    unfolding handle_hello_ack_def using assms by (auto intro!: attempt_inv node_inv_intros)
  moreover have "node_inv (psk E) (snd (handle_keepalive E src nd))"
    unfolding handle_keepalive_def using assms by (auto intro!: node_inv_intros)
  moreover have "node_inv (psk E) (snd (handle_ping E hb ct h src nd))" for hb ct h
    unfolding handle_ping_def Let_def
    using assms next_counter_frame [of "crypto_ctx nd"]
    by (auto intro!: attempt_inv node_inv_intros split: prod.splits outcome.splits)
      (simp_all add: node_inv_def)
  moreover have "node_inv (psk E) (snd (handle_pong E hb ct h nd))" for hb ct h
    unfolding handle_pong_def using assms by (auto intro!: attempt_inv node_inv_intros)
  moreover have "node_inv (psk E) (snd (handle_key_exchange E hb ct h src nd))" for hb ct h
    unfolding handle_key_exchange_def Let_def
    using assms by (auto intro!: attempt_inv node_inv_intros)
  ultimately show ?thesis
    unfolding handle_incoming_def
    by (intro attempt_inv) (auto simp: handle_audio_inv assms intro!: attempt_inv split: prod.splits)
qed

section \<open>Dispatch\<close>

lemma handle_incoming_wire:
  "handle_incoming E (header_to_bytes h @ ct) src nd =
     (let hb = header_to_bytes h in
       if pkt_type h = PKT_AUDIO then handle_audio E hb ct h nd
       else if pkt_type h = PKT_JOIN then handle_join E hb ct h src nd
       else if pkt_type h = PKT_PEER_LIST then handle_peer_list E hb ct h src nd
       else if pkt_type h = PKT_HELLO then handle_hello E hb ct h src nd
       else if pkt_type h = PKT_HELLO_ACK then handle_hello_ack E hb ct h nd
       else if pkt_type h = PKT_KEEPALIVE then handle_keepalive E src nd
       else if pkt_type h = PKT_PING then handle_ping E hb ct h src nd
       else if pkt_type h = PKT_PONG then handle_pong E hb ct h nd
       else if pkt_type h = PKT_KEY_EXCHANGE then handle_key_exchange E hb ct h src nd
       else (Err (UnknownPacketType (pkt_type h)), nd))"
  using header_from_to [of h "[]"] by (simp add: handle_incoming_def parse_wire_packet_def Let_def)

lemma handle_incoming_short: "length data < 8 \<Longrightarrow> handle_incoming E data src nd = (Err (PacketTooShort (length data)), nd)"
  by (simp add: handle_incoming_def parse_wire_packet_def HEADER_LEN_def)

lemma wire_cases:
  obtains "length data < 8" | h ct where "data = header_to_bytes h @ ct"
proof (cases "length data < 8")
  case False
  then obtain h where "header_from_bytes data = Ok h" by (simp add: header_from_bytes_def HEADER_LEN_def)
  from header_to_from [OF this] show ?thesis using that(2) by blast
qed (rule that(1))

section \<open>Packets nobody sealed\<close>

lemma open_packet_None:
  "aead_decrypt (prims E) (cipher_key ctx) (build_nonce (ctx_session_id ctx) (peer_id h) Send (seq_num h) (counter h)) hb ct = None \<Longrightarrow>
     open_packet E ctx hb ct h = Err DecryptFailed"
  by (simp add: open_packet_def decrypt_def)

lemma open_audio_None:
  assumes "open_packet E (crypto_ctx nd) hb ct h = Err DecryptFailed"
    and "\<And>p ctx. get_peer (peer_id h) (peer_mgr nd) = Some p \<Longrightarrow> kx_received p \<Longrightarrow> peer_crypto p = Some ctx \<Longrightarrow>
      open_packet E ctx hb ct h = Err DecryptFailed"
  shows "open_audio E hb ct h nd = Err DecryptFailed"
  using assms by (auto simp: open_audio_def Let_def Option.bind_eq_Some_conv split: option.splits if_splits)

lemmas handler_defs = handle_audio_def handle_join_def handle_peer_list_def handle_hello_def
  handle_hello_ack_def handle_keepalive_def handle_ping_def handle_pong_def handle_key_exchange_def

section \<open>Panics\<close>

lemma open_packet_not_Panic [simp]: "open_packet E ctx hb ct h \<noteq> Panic"
  by (simp add: open_packet_def decrypt_def)

lemma open_audio_not_Panic [simp]: "open_audio E hb ct h nd \<noteq> Panic"
  by (auto simp: open_audio_def Let_def and_then_eq_Panic split: option.splits outcome.splits)

lemma seal_not_Panic [simp]: "seal E ctx ty pid sn ctr m \<noteq> Panic"
  by (simp add: seal_def Let_def and_then_eq_Panic)

lemma send_to_not_Panic [simp]: "fst (send_to E w a nd) \<noteq> Panic"
  by (simp add: send_to_def)

lemma node_add_peer_not_Panic [simp]: "fst (node_add_peer E pid a nd) \<noteq> Panic"
  by (auto simp: node_add_peer_def add_peer_def remote_peer_new_not_Panic split: prod.splits attempt_split option.splits if_splits)

lemma fst_attempt_Panic:
  "fst (attempt r s k) = Panic \<longleftrightarrow> r = Panic \<or> (\<exists>x. r = Ok x \<and> fst (k x) = Panic)"
  by (cases r) auto

lemma fst_attempt_st_Panic:
  "fst (attempt_st rs k) = Panic \<longleftrightarrow> fst rs = Panic \<or> (\<exists>x. fst rs = Ok x \<and> fst (k x (snd rs)) = Panic)"
  by (cases "(rs, k)" rule: attempt_st.cases) auto

lemma greet_peers_not_Panic: "fst (greet_peers E my sid sender src es nd) \<noteq> Panic"
proof (induction es arbitrary: nd)
  case (Cons e es)
  then show ?case by (cases e) (auto simp: Let_def fst_attempt_Panic fst_attempt_st_Panic)
qed simp

lemma handlers_not_Panic:
  "fst (handle_audio E hb ct h nd) \<noteq> Panic" "fst (handle_join E hb ct h src nd) \<noteq> Panic"
  "fst (handle_hello E hb ct h src nd) \<noteq> Panic" "fst (handle_hello_ack E hb ct h nd) \<noteq> Panic"
  "fst (handle_keepalive E src nd) \<noteq> Panic" "fst (handle_ping E hb ct h src nd) \<noteq> Panic"
  "fst (handle_pong E hb ct h nd) \<noteq> Panic" "fst (handle_key_exchange E hb ct h src nd) \<noteq> Panic"
proof -
  have p: "join_from_bytes b \<noteq> Panic" "ping_from_bytes b \<noteq> Panic" "kx_from_bytes b \<noteq> Panic"
    "derive_peer_key P kx pk sid lid pid \<noteq> Panic" "fst (opus_decode_packet opus de b) \<noteq> Panic"
    "fst (allocate_peer_id pm) \<noteq> Panic" for b P kx pk sid lid pid opus de pm
    by (auto simp: join_from_bytes_def ping_from_bytes_def kx_from_bytes_def derive_peer_key_def Let_def
        opus_decode_packet_def allocate_peer_id_def split: prod.splits)
  show "fst (handle_audio E hb ct h nd) \<noteq> Panic"
    using p(5) by (auto simp: handle_audio_def Let_def fst_attempt_Panic split: option.splits prod.splits) (metis fst_conv)+
  show "fst (handle_join E hb ct h src nd) \<noteq> Panic"
    using p(6) [of "peer_mgr nd"] p(1)
    by (auto simp: handle_join_def Let_def fst_attempt_Panic fst_attempt_st_Panic and_then_eq_Panic split: prod.splits if_splits)
  show "fst (handle_hello E hb ct h src nd) \<noteq> Panic"
    by (auto simp: handle_hello_def Let_def fst_attempt_Panic fst_attempt_st_Panic)
  show "fst (handle_hello_ack E hb ct h nd) \<noteq> Panic" "fst (handle_keepalive E src nd) \<noteq> Panic"
    by (auto simp: handle_hello_ack_def handle_keepalive_def fst_attempt_Panic)
  show "fst (handle_ping E hb ct h src nd) \<noteq> Panic" "fst (handle_pong E hb ct h nd) \<noteq> Panic"
    using p(2) by (auto simp: handle_ping_def handle_pong_def Let_def fst_attempt_Panic split: prod.splits outcome.splits)
  show "fst (handle_key_exchange E hb ct h src nd) \<noteq> Panic"
    using p(3,4) by (auto simp: handle_key_exchange_def Let_def fst_attempt_Panic)
qed

section \<open>Replays\<close>

lemma check_and_accept_twice:
  assumes "check_and_accept f c = (True, f')"
  shows "check_and_accept f' c = (False, f')"
proof -
  define d where "d = unat (highest f - ucast c)"
  have set_bit: "(b OR push_bit n 1) AND push_bit n 1 \<noteq> (0 :: u64)" if "n < 64" for b n
  proof -
    have "bit ((b OR push_bit n 1) AND push_bit n 1 :: u64) n" using that by (simp add: bit_simps)
    moreover have "\<not> bit (0 :: u64) n" by simp
    ultimately show ?thesis by metis
  qed
  show ?thesis
  proof (cases "ucast c > highest f")
    case True
    then obtain b where f': "f' = \<lparr>highest = ucast c, bitmap = b OR 1\<rparr>"
      using assms by (auto simp: check_and_accept_def Let_def)
    have "(b OR 1) AND 1 \<noteq> (0 :: u64)" using set_bit [of 0 b] by simp
    then show ?thesis by (simp add: check_and_accept_def Let_def f' SLIDING_WINDOW_SIZE_def)
  next
    case False
    then have small: "highest f - ucast c < SLIDING_WINDOW_SIZE"
      and f': "f' = f\<lparr>bitmap := bitmap f OR push_bit d 1\<rparr>"
      using assms by (auto simp: check_and_accept_def Let_def d_def not_le split: if_splits)
    have "d < 64" using small by (simp add: d_def SLIDING_WINDOW_SIZE_def word_less_nat_alt)
    then have "(bitmap f OR push_bit d 1) AND push_bit d 1 \<noteq> 0" by (rule set_bit)
    with False small show ?thesis
      by (simp add: check_and_accept_def Let_def f' d_def [symmetric] not_le)
  qed
qed

text \<open>What \<open>handle_audio\<close> does once the packet is open and the counter is fresh.\<close>

lemma handle_audio_Ok:
  assumes "handle_audio E hb ct h nd = (Ok (), nd1)" "get_peer (peer_id h) (peer_mgr nd) = Some p"
  obtains pt used flt de pcm where "open_audio E hb ct h nd = Ok (pt, used)"
    "check_and_accept (if used then peer_replay_filter p else rp_replay_filter p) (counter h) = (True, flt)"
    "opus_decode_packet (opus_lib E) (rp_decoder p) pt = (Ok pcm, de)"
    "nd1 = upd_node_peer (peer_id h) (\<lambda>_. (if used then p\<lparr>last_seen := clock E, peer_replay_filter := flt\<rparr> else p\<lparr>last_seen := clock E, rp_replay_filter := flt\<rparr>)
       \<lparr>rp_decoder := de, rp_jitter := jb_push (rp_jitter p) (seq_num h) pcm\<rparr>) nd"
proof (cases "open_audio E hb ct h nd")
  case (Ok x)
  obtain pt used where x: "x = (pt, used)" by fastforce
  obtain fresh flt where f: "check_and_accept (if used then peer_replay_filter p else rp_replay_filter p) (counter h) = (fresh, flt)"
    by fastforce
  obtain r de where r: "opus_decode_packet (opus_lib E) (rp_decoder p) pt = (r, de)" by fastforce
  from assms Ok x f r have "fresh" by (auto simp: handle_audio_def Let_def touch_def split: if_splits)
  moreover from this assms Ok x f r obtain pcm where "r = Ok pcm"
    by (cases r) (auto simp: handle_audio_def Let_def touch_def split: if_splits)
  ultimately show ?thesis
    using that [OF Ok [unfolded x], of flt pcm de] assms x f r Ok
    by (auto simp: handle_audio_def Let_def touch_def split: if_splits)
qed (use assms in \<open>auto simp: handle_audio_def\<close>)

lemma open_audio_same:
  assumes "prims E' = prims E" "crypto_ctx nd' = crypto_ctx nd"
    and "map_option (\<lambda>p. (kx_received p, peer_crypto p)) (get_peer (peer_id h) (peer_mgr nd')) =
         map_option (\<lambda>p. (kx_received p, peer_crypto p)) (get_peer (peer_id h) (peer_mgr nd))"
  shows "open_audio E' hb ct h nd' = open_audio E hb ct h nd"
proof -
  have b: "Option.bind (get_peer (peer_id h) (peer_mgr nd')) (\<lambda>p. if kx_received p then peer_crypto p else None) =
      Option.bind (get_peer (peer_id h) (peer_mgr nd)) (\<lambda>p. if kx_received p then peer_crypto p else None)"
    using assms(3) by (cases "get_peer (peer_id h) (peer_mgr nd')"; cases "get_peer (peer_id h) (peer_mgr nd)") auto
  have e: "open_packet E' = open_packet E" by (intro ext) (simp add: open_packet_def assms(1))
  show ?thesis unfolding open_audio_def b e assms(2) ..
qed

lemma handle_audio_replay:
  assumes "open_audio E hb ct h nd = Ok (pt, used)" "get_peer (peer_id h) (peer_mgr nd) = Some p"
    and "check_and_accept (if used then peer_replay_filter p else rp_replay_filter p) (counter h) =
         (False, if used then peer_replay_filter p else rp_replay_filter p)"
  shows "handle_audio E hb ct h nd =
    (Err (ReplayDetected (peer_id h)), upd_node_peer (peer_id h) (touch (clock E)) nd)"
proof -
  have "AList.map_entry k (\<lambda>_. touch now p) ps = AList.map_entry k (touch now) ps" if "map_of ps k = Some p" for k ps now
    using that by (induction ps) auto
  from this [of "peers (peer_mgr nd)" "peer_id h" "clock E"]
  have "upd_node_peer (peer_id h) (\<lambda>_. touch (clock E) p) nd = upd_node_peer (peer_id h) (touch (clock E)) nd"
    using assms(2) by (simp add: upd_node_peer_def upd_peer_def get_peer_def)
  moreover have "touch (clock E) p\<lparr>peer_replay_filter := peer_replay_filter p\<rparr> = touch (clock E) p"
    "touch (clock E) p\<lparr>rp_replay_filter := rp_replay_filter p\<rparr> = touch (clock E) p"
    by (cases p; simp add: touch_def)+
  moreover have "peer_replay_filter (touch now p) = peer_replay_filter p"
    "rp_replay_filter (touch now p) = rp_replay_filter p" for now by (simp_all add: touch_def)
  ultimately show ?thesis using assms by (cases used) (simp_all only: handle_audio_def Let_def attempt.simps prod.case option.case if_True if_False simp_thms)
qed

section \<open>Sealed packets\<close>

lemma seal_Ok:
  "seal E ctx ty pid sn ctr m = Ok wire \<longleftrightarrow>
     (\<exists>c. encrypt (prims E) ctx (header_to_bytes (packet_header_new ty pid sn ctr)) m pid sn ctr = Ok c \<and>
        wire = header_to_bytes (packet_header_new ty pid sn ctr) @ c)"
  by (auto simp: seal_def Let_def and_then_eq_Ok build_wire_packet_def)

text \<open>A packet sealed under a context opens under any context with the same key and session.\<close>

lemma open_sealed:
  assumes "aead_ok (prims E)" "cipher_key rx = cipher_key tx" "ctx_session_id rx = ctx_session_id tx"
    and "encrypt (prims E) tx (header_to_bytes (packet_header_new ty pid sn ctr)) m pid sn ctr = Ok c"
  shows "open_packet E rx (header_to_bytes (packet_header_new ty pid sn ctr)) c (packet_header_new ty pid sn ctr) = Ok m"
  using decrypt_encrypt [OF assms] by (simp add: open_packet_def packet_header_new_def)

text \<open>The context under which a node expects audio from a peer.\<close>

definition audio_context :: "node \<Rightarrow> remote_peer \<Rightarrow> crypto_context" where
  "audio_context nd p =
     (case peer_crypto p of Some c \<Rightarrow> if kx_received p then c else crypto_ctx nd | None \<Rightarrow> crypto_ctx nd)"

definition uses_peer_key :: "remote_peer \<Rightarrow> bool" where
  "uses_peer_key p \<longleftrightarrow> kx_received p \<and> peer_crypto p \<noteq> None"

lemma open_audio_sealed:
  assumes "get_peer (peer_id h) (peer_mgr nd) = Some p" "open_packet E (audio_context nd p) hb ct h = Ok pt"
  shows "open_audio E hb ct h nd = Ok (pt, uses_peer_key p)"
  using assms by (auto simp: open_audio_def audio_context_def uses_peer_key_def Let_def split: option.splits if_splits)

lemma sealed_audio_accepted:
  assumes "aead_ok (prims E)" "seal Es tx PKT_AUDIO lid sn ctr opus_data = Ok wire" "prims Es = prims E"
    and "get_peer lid (peer_mgr nd) = Some p"
    and "cipher_key (audio_context nd p) = cipher_key tx" "ctx_session_id (audio_context nd p) = ctx_session_id tx"
    and "check_and_accept (if uses_peer_key p then peer_replay_filter p else rp_replay_filter p) ctr = (True, flt)"
    and "opus_decode_packet (opus_lib E) (rp_decoder p) opus_data = (Ok pcm, de)"
  shows "handle_incoming E wire src nd =
    (Ok (), upd_node_peer lid (\<lambda>_. (if uses_peer_key p then p\<lparr>last_seen := clock E, peer_replay_filter := flt\<rparr>
        else p\<lparr>last_seen := clock E, rp_replay_filter := flt\<rparr>)
      \<lparr>rp_decoder := de, rp_jitter := jb_push (rp_jitter p) sn pcm\<rparr>) nd)"
proof -
  let ?h = "packet_header_new PKT_AUDIO lid sn ctr"
  from assms(2,3) obtain c where c: "encrypt (prims E) tx (header_to_bytes ?h) opus_data lid sn ctr = Ok c"
    and w: "wire = header_to_bytes ?h @ c" by (auto simp: seal_Ok)
  have h: "peer_id ?h = lid" "seq_num ?h = sn" "counter ?h = ctr" "pkt_type ?h = PKT_AUDIO"
    by (simp_all add: packet_header_new_def)
  from open_sealed [OF assms(1,5,6) c] assms(4)
  have "open_audio E (header_to_bytes ?h) c ?h nd = Ok (opus_data, uses_peer_key p)"
    by (intro open_audio_sealed) (simp_all add: h)
  then show ?thesis using assms(4,7,8)
    by (cases "uses_peer_key p") (simp_all add: w handle_incoming_wire Let_def handle_audio_def h touch_def)
qed

section \<open>A concrete node\<close>

definition demo_os :: socket_os where
  "demo_os = \<lparr>grants = (\<lambda>_ _. True), reported_addr = (\<lambda>_. Some (demo_addr 5000))\<rparr>"

definition demo_env :: env where
  "demo_env = \<lparr>prims = demo_prims, opus_lib = demo_opus, psk = replicate 32 5, clock = 1000,
     local_address = Some (demo_addr 5000), net_os = demo_os, send_ok = (\<lambda>_ _. True),
     key_pair = key_exchange_new demo_prims [3], peer_iter = rev, ping_iter = rev\<rparr>"

definition demo_node :: node where
  "demo_node = \<lparr>peer_mgr = (new_host (replicate 8 7))\<lparr>peers := [(1, demo_peer)], addr_to_id := [demo_addr 5001 \<mapsto> 1]\<rparr>,
     crypto_ctx = crypto_context_new (replicate 32 5) (replicate 8 7), outbox = []\<rparr>"

lemma demo_node_inv: "node_inv (psk demo_env) demo_node"
proof -
  have "jb_inv jitter_buffer_new \<and> pending_ok latency_tracker_new"
    using jb_new_inv latency_sys.start_inv [OF refl] by (simp add: latency_inv_def)
  then have "table_ok [(1, demo_peer)] [demo_addr 5001 \<mapsto> 1]"
    by (auto simp: table_ok_def demo_peer_def peer_ok_def split: if_splits)
  then show ?thesis
    by (simp add: node_inv_def demo_node_def demo_env_def pm_inv_def crypto_context_new_def new_host_def)
qed

lemma demo_seal: "\<exists>wire. seal demo_env ctx ty pid sn ctr m = Ok wire"
  by (simp add: seal_Ok encrypt_def demo_env_def demo_prims_def)

text \<open>An audio packet from the demonstration peer, accepted by the demonstration node.\<close>

lemma demo_audio_accepted:
  "\<exists>wire flt de. seal demo_env (crypto_ctx demo_node) PKT_AUDIO 1 9 7 [4, 5] = Ok wire \<and>
     handle_incoming demo_env wire (demo_addr 5001) demo_node = (Ok (), upd_node_peer 1 (\<lambda>_.
       demo_peer\<lparr>last_seen := clock demo_env, rp_replay_filter := flt, rp_decoder := de,
         rp_jitter := jb_push (rp_jitter demo_peer) 9 [4, 5]\<rparr>) demo_node)"
proof -
  obtain w where w: "seal demo_env (crypto_ctx demo_node) PKT_AUDIO 1 9 7 [4, 5] = Ok w" using demo_seal by blast
  have g: "get_peer 1 (peer_mgr demo_node) = Some demo_peer" by (simp add: demo_node_def get_peer_def)
  obtain flt where f: "check_and_accept replay_filter_new 7 = (True, flt)"
    by (simp add: check_and_accept_def replay_filter_new_def Let_def)
  obtain de where de: "opus_decode_packet demo_opus \<lparr>dec_calls = []\<rparr> [4, 5] = (Ok [4, 5], de)"
    by (simp add: opus_decode_packet_def demo_opus_def FRAME_SAMPLES_def)
  have u: "\<not> uses_peer_key demo_peer" by (simp add: uses_peer_key_def demo_peer_def)
  have "handle_incoming demo_env w (demo_addr 5001) demo_node = (Ok (), upd_node_peer 1 (\<lambda>_.
      (if uses_peer_key demo_peer then demo_peer\<lparr>last_seen := clock demo_env, peer_replay_filter := flt\<rparr>
       else demo_peer\<lparr>last_seen := clock demo_env, rp_replay_filter := flt\<rparr>)
      \<lparr>rp_decoder := de, rp_jitter := jb_push (rp_jitter demo_peer) 9 [4, 5]\<rparr>) demo_node)"
    by (rule sealed_audio_accepted [OF _ w _ g])
      (use f de in \<open>simp_all add: demo_env_def demo_aead_ok audio_context_def demo_peer_def uses_peer_key_def\<close>)
  with w u show ?thesis by auto
qed

section \<open>Properties\<close>

text \<open>C2. An unauthentic packet changes nothing. Only the keys and nonces its type calls for count: the
  pre-shared key, with the nonce of the header under the zero session for JOIN and PEER_LIST and
  under the node's own session for every other type, and for audio also the key exchanged with the
  peer the header names, if that peer has sent its own. If none of these opens the packet, as when it
  was sealed under a wrong passphrase, for another session, with another header or by nobody, the
  handler reports an error and leaves the whole node as it was, for every type but KEEPALIVE.\<close>

theorem unauthentic_packet_ignored:
  assumes "node_inv (psk E) nd" "pkt_type h \<noteq> PKT_KEEPALIVE"
    and "aead_decrypt (prims E) (psk E)
      (build_nonce (if pkt_type h \<in> {PKT_JOIN, PKT_PEER_LIST} then ZERO_SESSION else session_id (peer_mgr nd))
        (peer_id h) Send (seq_num h) (counter h)) (header_to_bytes h) ct = None"
    and "\<And>p ctx. pkt_type h = PKT_AUDIO \<Longrightarrow> get_peer (peer_id h) (peer_mgr nd) = Some p \<Longrightarrow> kx_received p \<Longrightarrow> peer_crypto p = Some ctx \<Longrightarrow>
      aead_decrypt (prims E) (cipher_key ctx)
        (build_nonce (ctx_session_id ctx) (peer_id h) Send (seq_num h) (counter h)) (header_to_bytes h) ct = None"
  shows "\<exists>e. handle_incoming E (header_to_bytes h @ ct) src nd = (Err e, nd)"
proof -
  let ?hb = "header_to_bytes h" and ?sid = "session_id (peer_mgr nd)"
  have own: "cipher_key (crypto_ctx nd) = psk E" "ctx_session_id (crypto_ctx nd) = ?sid" using assms(1) by (simp_all add: node_inv_def)
  have zero: "open_packet E (crypto_context_new (psk E) ZERO_SESSION) ?hb ct h = Err DecryptFailed"
    if "pkt_type h \<in> {PKT_JOIN, PKT_PEER_LIST}"
    using that assms(3) by (intro open_packet_None) (simp add: crypto_context_new_def)
  have fresh: "open_packet E (crypto_context_new (psk E) ?sid) ?hb ct h = Err DecryptFailed"
    "open_packet E (crypto_ctx nd) ?hb ct h = Err DecryptFailed" if "pkt_type h \<notin> {PKT_JOIN, PKT_PEER_LIST}"
    using that assms(3) own by (auto intro!: open_packet_None simp: crypto_context_new_def)
  have audio: "open_audio E ?hb ct h nd = Err DecryptFailed" if "pkt_type h = PKT_AUDIO"
    using that fresh(2) assms(4) by (intro open_audio_None) (auto simp: pkt_defs intro!: open_packet_None)
  show ?thesis
    using assms(2) zero fresh audio unfolding handle_incoming_wire Let_def by (auto simp: handler_defs pkt_defs)
qed

text \<open>A HELLO sealed under another passphrase's key.\<close>

theorem unauthentic_packet_ignored_witness:
  "\<exists>wire e. seal demo_env (crypto_context_new (replicate 32 6) (replicate 8 7)) PKT_HELLO 1 0 0 [] = Ok wire \<and>
     handle_incoming demo_env wire (demo_addr 9) demo_node = (Err e, demo_node)"
proof -
  let ?h = "packet_header_new PKT_HELLO 1 0 0"
  obtain wire where w: "seal demo_env (crypto_context_new (replicate 32 6) (replicate 8 7)) PKT_HELLO 1 0 0 [] = Ok wire"
    using demo_seal by blast
  then obtain c where c: "wire = header_to_bytes ?h @ c" "encrypt (prims demo_env)
      (crypto_context_new (replicate 32 6) (replicate 8 7)) (header_to_bytes ?h) [] 1 0 0 = Ok c" by (auto simp: seal_Ok)
  have "\<exists>e. handle_incoming demo_env (header_to_bytes ?h @ c) (demo_addr 9) demo_node = (Err e, demo_node)"
  proof (rule unauthentic_packet_ignored [OF demo_node_inv])
    show "aead_decrypt (prims demo_env) (psk demo_env)
      (build_nonce (if pkt_type ?h \<in> {PKT_JOIN, PKT_PEER_LIST} then ZERO_SESSION else session_id (peer_mgr demo_node))
        (peer_id ?h) Send (seq_num ?h) (counter ?h)) (header_to_bytes ?h) c = None"
      using c(2) by (auto simp: encrypt_def demo_env_def demo_prims_def demo_tag_def crypto_context_new_def packet_header_new_def
          pkt_defs demo_node_def new_host_def ok_or_eq_Ok sum_list_replicate)
  qed (simp_all add: packet_header_new_def pkt_defs)
  with w c(1) show ?thesis by blast
qed

text \<open>KEEPALIVE is the exception: it is never opened. A datagram with that type byte, whatever else
  its header and payload contain, refreshes the peer whose address it came from.\<close>

theorem keepalive_unauthenticated:
  "handle_incoming E (header_to_bytes (packet_header_new PKT_KEEPALIVE i sn c) @ junk) src nd =
     (Ok (), case addr_to_id (peer_mgr nd) src of
        None \<Rightarrow> nd | Some pid \<Rightarrow> upd_node_peer pid (\<lambda>p. p\<lparr>last_seen := clock E\<rparr>) nd)"
proof -
  have "touch now = (\<lambda>p. p\<lparr>last_seen := now\<rparr>)" for now by (rule ext) (simp add: touch_def)
  then show ?thesis
    by (simp add: handle_incoming_wire Let_def packet_header_new_def pkt_defs handle_keepalive_def
        touch_by_addr_def peer_by_addr_def split: option.splits)
qed

text \<open>Audio gets through: a packet sealed by a sender whose context has the key and session under
  which the receiver expects that peer's audio, with a counter the peer's replay filter admits, is
  accepted; exactly the sender's entry in the table changes, its jitter buffer by a push of the
  decoded samples under the packet's sequence number.\<close>

theorem audio_delivered:
  assumes "aead_ok (prims E)" "seal Es tx PKT_AUDIO lid sn ctr opus_data = Ok wire" "prims Es = prims E"
    and "get_peer lid (peer_mgr nd) = Some p"
    and "cipher_key (audio_context nd p) = cipher_key tx" "ctx_session_id (audio_context nd p) = ctx_session_id tx"
    and "check_and_accept (if uses_peer_key p then peer_replay_filter p else rp_replay_filter p) ctr = (True, flt)"
    and "opus_decode_packet (opus_lib E) (rp_decoder p) opus_data = (Ok pcm, de)"
  shows "handle_incoming E wire src nd =
    (Ok (), upd_node_peer lid (\<lambda>_. (if uses_peer_key p then p\<lparr>last_seen := clock E, peer_replay_filter := flt\<rparr>
        else p\<lparr>last_seen := clock E, rp_replay_filter := flt\<rparr>)
      \<lparr>rp_decoder := de, rp_jitter := jb_push (rp_jitter p) sn pcm\<rparr>) nd)"
  by (rule sealed_audio_accepted [OF assms])

theorem audio_delivered_witness:
  "\<exists>wire nd. handle_incoming demo_env wire (demo_addr 5001) demo_node = (Ok (), nd) \<and>
     map_option (\<lambda>p. frames (rp_jitter p)) (get_peer 1 (peer_mgr nd)) = Some [\<lparr>jf_seq_num = 9, jf_pcm = [4, 5]\<rparr>]"
proof -
  obtain w where w: "seal demo_env (crypto_ctx demo_node) PKT_AUDIO 1 9 7 [4, 5] = Ok w" using demo_seal by blast
  have g: "get_peer 1 (peer_mgr demo_node) = Some demo_peer" by (simp add: demo_node_def get_peer_def)
  obtain flt where f: "check_and_accept replay_filter_new 7 = (True, flt)"
    by (simp add: check_and_accept_def replay_filter_new_def Let_def)
  obtain de where de: "opus_decode_packet demo_opus \<lparr>dec_calls = []\<rparr> [4, 5] = (Ok [4, 5], de)"
    by (simp add: opus_decode_packet_def demo_opus_def FRAME_SAMPLES_def)
  have "aead_ok (prims demo_env)" "prims demo_env = prims demo_env" by (simp_all add: demo_env_def demo_aead_ok)
  from audio_delivered [OF this(1) w this(2) g, of flt "[4, 5]" de "demo_addr 5001"] f de
  have r: "handle_incoming demo_env w (demo_addr 5001) demo_node = (Ok (), upd_node_peer 1 (\<lambda>_.
      demo_peer\<lparr>last_seen := clock demo_env, rp_replay_filter := flt, rp_decoder := de,
        rp_jitter := jb_push (rp_jitter demo_peer) 9 [4, 5]\<rparr>) demo_node)" (is "_ = (Ok (), ?nd)")
    by (simp add: demo_env_def audio_context_def demo_peer_def uses_peer_key_def)
  have "frames (jb_push (rp_jitter demo_peer) 9 [4, 5]) = [\<lparr>jf_seq_num = 9, jf_pcm = [4, 5]\<rparr>]"
    by (simp add: demo_peer_def jb_push_def jitter_buffer_new_def Let_def MAX_DEPTH_def vec_insert_def)
  then have "map_option (\<lambda>p. frames (rp_jitter p)) (get_peer 1 (peer_mgr ?nd)) = Some [\<lparr>jf_seq_num = 9, jf_pcm = [4, 5]\<rparr>]"
    using g by (simp add: upd_node_peer_def get_upd_peer)
  with r show ?thesis by blast
qed

text \<open>The packets that kill a session: PEER_LISTs under the pre-shared key on which the parser panics.\<close>

definition fatal_packet :: "env \<Rightarrow> bytes \<Rightarrow> bool" where
  "fatal_packet E data \<longleftrightarrow>
     (\<exists>h ct pt. data = header_to_bytes h @ ct \<and> pkt_type h = PKT_PEER_LIST \<and>
        open_packet E (crypto_context_new (psk E) ZERO_SESSION) (header_to_bytes h) ct h = Ok pt \<and>
        peer_list_from_bytes pt = Panic)"

lemma fatal_packet_clock [simp]: "fatal_packet (E\<lparr>clock := t\<rparr>) data = fatal_packet E data"
  by (simp add: fatal_packet_def open_packet_def)

lemma handle_incoming_Panic:
  "fst (handle_incoming E data src nd) = Panic \<longleftrightarrow> fatal_packet E data"
proof (cases data rule: wire_cases)
  case 1
  then show ?thesis by (auto simp: handle_incoming_short HEADER_LEN_def fatal_packet_def)
next
  case (2 h ct)
  have inj: "header_to_bytes h @ ct = header_to_bytes h' @ ct' \<longleftrightarrow> h = h' \<and> ct = ct'" for h' ct'
    using header_wire.framing [of h ct h' ct'] by auto
  have "fst (handle_peer_list E (header_to_bytes h) ct h src nd) = Panic \<longleftrightarrow>
      (\<exists>pt. open_packet E (crypto_context_new (psk E) ZERO_SESSION) (header_to_bytes h) ct h = Ok pt \<and>
        peer_list_from_bytes pt = Panic)"
    by (auto simp: handle_peer_list_def fst_attempt_Panic Let_def greet_peers_not_Panic)
  then have "fst (handle_incoming E data src nd) = Panic \<longleftrightarrow> pkt_type h = PKT_PEER_LIST \<and>
      (\<exists>pt. open_packet E (crypto_context_new (psk E) ZERO_SESSION) (header_to_bytes h) ct h = Ok pt \<and>
        peer_list_from_bytes pt = Panic)"
    using handlers_not_Panic by (auto simp: 2 handle_incoming_wire Let_def pkt_defs)
  then show ?thesis by (auto simp: 2 inj fatal_packet_def)
qed

text \<open>C12. The handler panics on exactly one kind of packet: a PEER_LIST that the pre-shared key opens
  and whose content ends right after the id of an announced entry (or another truncation on which
  the payload parser indexes out of range). No other packet can crash the session.\<close>

theorem handle_incoming_panics_iff:
  "fst (handle_incoming E data src nd) = Panic \<longleftrightarrow>
     (\<exists>h ct pt. data = header_to_bytes h @ ct \<and> pkt_type h = PKT_PEER_LIST \<and>
        open_packet E (crypto_context_new (psk E) ZERO_SESSION) (header_to_bytes h) ct h = Ok pt \<and>
        peer_list_from_bytes pt = Panic)"
  unfolding handle_incoming_Panic by (rule fatal_packet_def)

end
