(* ===== verification/Capture.thy ===== *)
theory Capture
  imports Codec
begin

text \<open>
  What happens to captured samples before they are encoded: the noise suppressor of
  \<^verbatim>\<open>vc-core/src/dsp.rs\<close>, the voice activity detector of \<^verbatim>\<open>vc-core/src/vad.rs\<close> and the input gate of
  \<^verbatim>\<open>vc-core/src/input.rs\<close>. RNNoise (the crate \<^verbatim>\<open>nnnoiseless\<close>) is a parameter, a function of the frames
  it was given before; so are the square root and logarithm of the platform.
\<close>

section \<open>Noise suppression\<close>

definition DENOISE_FRAME_SIZE :: nat where "DENOISE_FRAME_SIZE = 480"

text \<open>\<open>denoise history frame\<close> is the output frame and the voice probability.\<close>

type_synonym denoise = "fl list list \<Rightarrow> fl list \<Rightarrow> fl list \<times> fl"

text \<open>The output array has the size of the input array.\<close>

definition denoise_ok :: "denoise \<Rightarrow> bool" where
  "denoise_ok dn \<longleftrightarrow> (\<forall>h x. length x = DENOISE_FRAME_SIZE \<longrightarrow> length (fst (dn h x)) = DENOISE_FRAME_SIZE)"

record noise_suppressor =
  dn_calls :: "fl list list"
  accum :: "fl list"
  output_buf :: "fl list"
  last_vad_prob :: fl
  enabled :: bool

definition noise_suppressor_new :: noise_suppressor where
  "noise_suppressor_new =
     \<lparr>dn_calls = [], accum = [], output_buf = [], last_vad_prob = Fin 0, enabled = True\<rparr>"

definition set_enabled :: "bool \<Rightarrow> noise_suppressor \<Rightarrow> noise_suppressor" where
  "set_enabled b ns = ns\<lparr>enabled := b\<rparr>"

definition scale_up :: "fl list \<Rightarrow> fl list" where
  "scale_up = map (\<lambda>s. f_mul F32 s (Fin 32768))"

definition scale_down :: "fl list \<Rightarrow> fl list" where
  "scale_down = map (\<lambda>s. f_div F32 s (Fin 32768))"

definition ns_process :: "denoise \<Rightarrow> noise_suppressor \<Rightarrow> fl list \<Rightarrow> fl list option \<times> noise_suppressor" where
  "ns_process dn ns0 frame =
     (if \<not> enabled ns0 then (Some frame, ns0)
      else
        let ns = ns0\<lparr>accum := accum ns0 @ frame\<rparr>;
            ns = (if length (accum ns) \<ge> DENOISE_FRAME_SIZE
                  then
                    let denoise_frame = scale_up (take DENOISE_FRAME_SIZE (accum ns));
                        (output_frame, prob) = dn (dn_calls ns) denoise_frame
                    in ns\<lparr>accum := drop DENOISE_FRAME_SIZE (accum ns),
                          dn_calls := dn_calls ns @ [denoise_frame],
                          last_vad_prob := prob,
                          output_buf := output_buf ns @ scale_down output_frame\<rparr>
                  else ns)
        in if output_buf ns \<noteq> [] then (Some (output_buf ns), ns\<lparr>output_buf := []\<rparr>) else (None, ns))"

section \<open>Voice activity\<close>

record vad_config =
  energy_threshold_db :: fl
  hold_frames :: u32
  rnnoise_threshold :: fl

definition vad_config_default :: vad_config where
  "vad_config_default = \<lparr>energy_threshold_db = Fin (- 40), hold_frames = 20, rnnoise_threshold = Fin (1 / 2)\<rparr>"

record voice_activity_detector =
  config :: vad_config
  hold_counter :: u32
  is_active :: bool

definition vad_new :: "vad_config \<Rightarrow> voice_activity_detector" where
  "vad_new c = \<lparr>config = c, hold_counter = 0, is_active = False\<rparr>"

definition vad_set_config :: "vad_config \<Rightarrow> voice_activity_detector \<Rightarrow> voice_activity_detector" where
  "vad_set_config c v = v\<lparr>config := c\<rparr>"

record float_math =
  f32_sqrt :: "fl \<Rightarrow> fl"
  f32_log10 :: "fl \<Rightarrow> fl"

definition compute_energy_db :: "float_math \<Rightarrow> fl list \<Rightarrow> fl" where
  "compute_energy_db fm pcm =
     (if pcm = [] then NInf
      else
        let total = foldl (f_add F32) (Fin 0) (map (\<lambda>s. f_mul F32 s s) pcm);
            rms = f32_sqrt fm (f_div F32 total (f_of_int F32 (int (length pcm))))
        in if rms < fround F32 (1 / 10 ^ 10) then NInf else f_mul F32 (Fin 20) (f32_log10 fm rms))"

definition voice_detected :: "float_math \<Rightarrow> vad_config \<Rightarrow> fl list \<Rightarrow> fl option \<Rightarrow> bool" where
  "voice_detected fm c pcm rnnoise_vad =
     (let energy_db = compute_energy_db fm pcm in
      case rnnoise_vad of
        Some vad_prob \<Rightarrow> energy_db > energy_threshold_db c \<and> vad_prob > rnnoise_threshold c
      | None \<Rightarrow> energy_db > energy_threshold_db c)"

definition detect ::
  "float_math \<Rightarrow> voice_activity_detector \<Rightarrow> fl list \<Rightarrow> fl option \<Rightarrow> bool \<times> voice_activity_detector" where
  "detect fm v0 pcm rnnoise_vad =
     (let v = (if voice_detected fm (config v0) pcm rnnoise_vad
               then v0\<lparr>hold_counter := hold_frames (config v0), is_active := True\<rparr>
               else if hold_counter v0 > 0 then v0\<lparr>hold_counter := hold_counter v0 - 1\<rparr>
               else v0\<lparr>is_active := False\<rparr>)
      in (is_active v, v))"

section \<open>Input gate\<close>

datatype input_mode = AlwaysOn | PushToTalk | VoiceActivation

record input_gate =
  mode :: input_mode
  ptt_active :: bool
  vad_active :: bool
  is_transmitting :: bool

definition input_gate_new :: "input_mode \<Rightarrow> input_gate" where
  "input_gate_new m = \<lparr>mode = m, ptt_active = False, vad_active = False, is_transmitting = False\<rparr>"

definition set_mode :: "input_mode \<Rightarrow> input_gate \<Rightarrow> input_gate" where
  "set_mode m g = g\<lparr>mode := m\<rparr>"

definition set_vad_active :: "bool \<Rightarrow> input_gate \<Rightarrow> input_gate" where
  "set_vad_active b g = g\<lparr>vad_active := b\<rparr>"

definition set_ptt :: "bool \<Rightarrow> input_gate \<Rightarrow> input_gate" where
  "set_ptt b g = g\<lparr>ptt_active := b\<rparr>"

definition should_transmit :: "input_gate \<Rightarrow> bool \<times> input_gate" where
  "should_transmit g =
     (let t = (case mode g of AlwaysOn \<Rightarrow> True | PushToTalk \<Rightarrow> ptt_active g | VoiceActivation \<Rightarrow> vad_active g)
      in (t, g\<lparr>is_transmitting := t\<rparr>))"

section \<open>Block accumulation\<close>

text \<open>Feeding frames one after the other: the outputs in order, and the state at the end.\<close>

fun ns_run :: "denoise \<Rightarrow> noise_suppressor \<Rightarrow> fl list list \<Rightarrow> fl list option list \<times> noise_suppressor" where
  "ns_run dn ns [] = ([], ns)"
| "ns_run dn ns (f # fs) =
     (case ns_process dn ns f of (r, ns') \<Rightarrow> (case ns_run dn ns' fs of (rs, ns'') \<Rightarrow> (r # rs, ns'')))"

text \<open>The state of an enabled suppressor that has been given the samples \<open>xs\<close> so far.\<close>

definition ns_rep :: "fl list \<Rightarrow> noise_suppressor \<Rightarrow> bool" where
  "ns_rep xs ns \<longleftrightarrow> enabled ns \<and> output_buf ns = [] \<and> length (accum ns) < 480 \<and>
     concat (dn_calls ns) @ scale_up (accum ns) = scale_up xs \<and> (\<forall>c \<in> set (dn_calls ns). length c = 480)"

lemma scale_length [simp]: "length (scale_up xs) = length xs" "length (scale_down xs) = length xs"
  by (simp_all add: scale_up_def scale_down_def)

lemma scale_up_append [simp]: "scale_up (xs @ ys) = scale_up xs @ scale_up ys"
  by (simp add: scale_up_def)

lemma ns_process_rep:
  assumes "ns_rep xs ns" "length f \<le> 480" "denoise_ok dn"
  shows "ns_rep (xs @ f) (snd (ns_process dn ns f)) \<and>
    map_option length (fst (ns_process dn ns f)) = (if 480 \<le> length (accum ns) + length f then Some 480 else None)"
proof (cases "480 \<le> length (accum ns) + length f")
  case True
  let ?a = "accum ns @ f"
  have split: "scale_up (take 480 ?a) @ scale_up (drop 480 ?a) = scale_up ?a"
    by (metis append_take_drop_id scale_up_append)
  obtain out prob where dn: "dn (dn_calls ns) (scale_up (take 480 ?a)) = (out, prob)" by fastforce
  have "length (scale_up (take 480 ?a)) = 480" using True by simp
  then have o: "length out = 480"
    using assms(3) dn unfolding denoise_ok_def DENOISE_FRAME_SIZE_def by (metis fst_conv)
  then have "scale_down out \<noteq> []" by (metis list.size(3) scale_length(2) zero_neq_numeral)
  with True assms dn o split show ?thesis
    by (auto simp: ns_process_def Let_def ns_rep_def DENOISE_FRAME_SIZE_def)
next
  case False
  with assms show ?thesis by (auto simp: ns_process_def Let_def ns_rep_def DENOISE_FRAME_SIZE_def)
qed

lemma ns_process_accum:
  "enabled ns \<Longrightarrow> length (accum (snd (ns_process dn ns f))) =
     (let n = length (accum ns) + length f in if 480 \<le> n then n - 480 else n)"
  by (auto simp: ns_process_def Let_def DENOISE_FRAME_SIZE_def split: prod.splits)

lemma ns_run_rep:
  assumes "ns_rep xs ns" "length (accum ns) = 120 * (k mod 4)" "denoise_ok dn" "\<forall>f \<in> set fs. length f = 120"
  shows "ns_rep (xs @ concat fs) (snd (ns_run dn ns fs)) \<and>
    map (map_option length) (fst (ns_run dn ns fs)) =
      map (\<lambda>i. if (i + 1) mod 4 = 0 then Some 480 else None) [k..<k + length fs]"
  using assms
proof (induction fs arbitrary: xs ns k)
  case (Cons f fs)
  let ?ns = "snd (ns_process dn ns f)"
  have en: "enabled ns" using Cons.prems(1) by (simp add: ns_rep_def)
  have f: "length f = 120" using Cons.prems(4) by simp
  define j where "j = k mod 4"
  have j: "(k + 1) mod 4 = (if j = 3 then 0 else j + 1)" "j < 4" by (simp_all add: j_def mod_Suc)
  have m: "480 \<le> length (accum ns) + length f \<longleftrightarrow> (k + 1) mod 4 = 0"
    unfolding Cons.prems(2) f j(1) j_def [symmetric] using j(2) by auto
  have "length (accum ?ns) = 120 * ((k + 1) mod 4)"
    unfolding ns_process_accum [OF en] Cons.prems(2) f Let_def j(1) j_def [symmetric] using j(2) by auto
  moreover have rep: "ns_rep (xs @ f) ?ns" and out: "map_option length (fst (ns_process dn ns f)) =
      (if (k + 1) mod 4 = 0 then Some 480 else None)"
    using ns_process_rep [OF Cons.prems(1) _ Cons.prems(3), of f] m f by simp_all
  ultimately show ?case
    using Cons.IH [of "xs @ f" ?ns "k + 1"] Cons.prems(3,4)
    by (simp add: split_beta upt_conv_Cons del: upt_Suc)
qed simp

section \<open>Properties\<close>

text \<open>C22. Noise suppression of 120-sample frames answers on every fourth frame, with 480 samples, and
  on no other; the blocks given to RNNoise followed by what waits in the accumulator are exactly
  the samples fed in, in order, scaled: none is lost, repeated or moved.\<close>

theorem noise_suppressor_blocks:
  assumes "denoise_ok dn" "\<forall>f \<in> set fs. length f = 120"
  shows "case ns_run dn noise_suppressor_new fs of (rs, ns) \<Rightarrow>
    map (map_option length) rs = map (\<lambda>i. if (i + 1) mod 4 = 0 then Some 480 else None) [0..<length fs] \<and>
    concat (dn_calls ns) @ scale_up (accum ns) = scale_up (concat fs) \<and>
    length (accum ns) < 480 \<and> (\<forall>c \<in> set (dn_calls ns). length c = 480)"
proof -
  have "ns_rep [] noise_suppressor_new" by (simp add: ns_rep_def noise_suppressor_new_def)
  from ns_run_rep [OF this, of 0, OF _ assms] show ?thesis
    by (auto simp: noise_suppressor_new_def ns_rep_def split: prod.splits)
qed

definition demo_denoise :: denoise where
  "demo_denoise h x = (x, Fin 0)"

lemma demo_denoise_ok: "denoise_ok demo_denoise"
  by (simp add: denoise_ok_def demo_denoise_def)

theorem noise_suppressor_blocks_witness:
  "map (map_option length) (fst (ns_run demo_denoise noise_suppressor_new (replicate 5 (replicate 120 (Fin 0))))) =
     [None, None, None, Some 480, None]"
  using noise_suppressor_blocks [OF demo_denoise_ok, of "replicate 5 (replicate 120 (Fin 0))"]
  by (simp add: split_beta upt_rec)

fun vad_run :: "float_math \<Rightarrow> voice_activity_detector \<Rightarrow> (fl list \<times> fl option) list \<Rightarrow> bool list" where
  "vad_run fm v [] = []"
| "vad_run fm v ((pcm, p) # fs) = (case detect fm v pcm p of (b, v') \<Rightarrow> b # vad_run fm v' fs)"

lemma vad_run_silent:
  assumes "\<forall>(pcm, p) \<in> set fs. \<not> voice_detected fm (config v) pcm p" "is_active v"
  shows "vad_run fm v fs = map (\<lambda>i. i < unat (hold_counter v)) [0..<length fs]"
  using assms
proof (induction fs arbitrary: v)
  case (Cons f fs)
  obtain pcm p where f: "f = (pcm, p)" by fastforce
  show ?case
  proof (cases "hold_counter v = 0")
    case True
    have off: "vad_run fm w fs = replicate (length fs) False"
      if "\<not> is_active w" "hold_counter w = 0" "config w = config v" for w
      using that Cons.prems(1)
    proof (induction fs arbitrary: w)
      case (Cons g gs)
      then show ?case by (cases g) (simp add: detect_def Let_def)
    qed simp
    have "map (\<lambda>i. i < unat (hold_counter v)) [0..<length (f # fs)] = replicate (length (f # fs)) False"
      using True by (intro replicate_eqI) auto
    with True off [of "v\<lparr>is_active := False\<rparr>"] Cons.prems f show ?thesis
      by (simp add: detect_def Let_def)
  next
    case False
    then have u: "unat (hold_counter v) = Suc (unat (hold_counter v - 1))"
      by (simp add: unat_minus_one) (metis Suc_pred unat_gt_0 word_neq_0_conv word_coorder.not_eq_extremum)
    let ?v = "v\<lparr>hold_counter := hold_counter v - 1\<rparr>"
    have "vad_run fm ?v fs = map (\<lambda>i. i < unat (hold_counter v - 1)) [0..<length fs]"
      using Cons.IH [of ?v] Cons.prems by simp
    moreover have "[0..<length (f # fs)] = 0 # map Suc [0..<length fs]" by (simp add: map_Suc_upt upt_conv_Cons del: upt_Suc)
    moreover have "hold_counter v > 0" using False word_neq_0_conv by blast
    ultimately show ?thesis using Cons.prems f u by (simp add: detect_def Let_def comp_def del: upt_Suc)
  qed
qed simp

text \<open>The hold time is exact: after a frame with voice, the detector stays active for precisely
  the configured number of frames without voice and is inactive from the next one on.\<close>

theorem vad_hold_exact:
  assumes "voice_detected fm (config v) pcm p"
    and "\<forall>(pcm, p) \<in> set silent. \<not> voice_detected fm (config v) pcm p"
  shows "vad_run fm v ((pcm, p) # silent) =
    True # map (\<lambda>i. i < unat (hold_frames (config v))) [0..<length silent]"
  using assms vad_run_silent [of silent fm "v\<lparr>hold_counter := hold_frames (config v), is_active := True\<rparr>"]
  by (simp add: detect_def Let_def)

theorem vad_hold_exact_witness:
  "vad_run \<lparr>f32_sqrt = (\<lambda>x. PInf), f32_log10 = (\<lambda>x. Fin 0)\<rparr> (vad_new (vad_config_default\<lparr>hold_frames := 2\<rparr>))
     [([Fin 1], None), ([], None), ([], None), ([], None)] = [True, True, True, False]"
proof -
  let ?fm = "\<lparr>f32_sqrt = (\<lambda>x. PInf), f32_log10 = (\<lambda>x. Fin 0)\<rparr>" and ?c = "vad_config_default\<lparr>hold_frames := 2\<rparr>"
  have "\<not> PInf < y" for y by (cases y) simp_all
  then have "compute_energy_db ?fm [Fin 1] = Fin 0"
    using fround_F32_int [of 0] by (simp add: compute_energy_db_def Let_def)
  then have "voice_detected ?fm ?c [Fin 1] None"
    by (simp add: voice_detected_def vad_config_default_def)
  moreover have "\<not> voice_detected ?fm ?c [] None"
    by (simp add: voice_detected_def vad_config_default_def compute_energy_db_def)
  ultimately show ?thesis
    using vad_hold_exact [of ?fm "vad_new ?c" "[Fin 1]" None "[([], None), ([], None), ([], None)]"]
    by (simp add: vad_new_def vad_config_default_def upt_rec)
qed

end
