(* ===== verification/Mixer.thy ===== *)
theory Mixer
  imports Codec
begin

text \<open>
  The mixer, \<^verbatim>\<open>vc-core/src/mixer.rs\<close>: sample-wise \<^verbatim>\<open>f32\<close> sums of the peers' buffers, then a clamp or a
  \<^verbatim>\<open>tanh\<close>. The \<^verbatim>\<open>tanh\<close> of the platform's mathematical library is an argument.
\<close>

text \<open>One pass of the inner loop: the first \<open>min\<close> of the two lengths is added, the rest stays.\<close>

fun add_into :: "fl list \<Rightarrow> fl list \<Rightarrow> fl list" where
  "add_into (x # out) (b # buf) = f_add F32 x b # add_into out buf"
| "add_into out buf = out"

definition mix_sum :: "fl list list \<Rightarrow> nat \<Rightarrow> fl list" where
  "mix_sum bufs n = foldl add_into (replicate n (Fin 0)) bufs"

definition mix_peers :: "fl list list \<Rightarrow> fl list \<Rightarrow> fl list" where
  "mix_peers bufs out = map (f_clamp (Fin (- 1)) (Fin 1)) (mix_sum bufs (length out))"

definition mix_peers_soft :: "(fl \<Rightarrow> fl) \<Rightarrow> fl list list \<Rightarrow> fl list \<Rightarrow> fl list" where
  "mix_peers_soft tanh_f bufs out = map tanh_f (mix_sum bufs (length out))"

section \<open>Sums of bounded samples\<close>

text \<open>Finite values no larger than \<open>k\<close>.\<close>

definition upto_abs :: "rat \<Rightarrow> fl \<Rightarrow> bool" where
  "upto_abs k x \<longleftrightarrow> (\<exists>v. x = Fin v \<and> \<bar>v\<bar> \<le> k)"

lemma upto_abs_Fin [simp]: "upto_abs k (Fin v) \<longleftrightarrow> \<bar>v\<bar> \<le> k"
  by (simp add: upto_abs_def)

lemma upto_abs_mono: "upto_abs j x \<Longrightarrow> j \<le> k \<Longrightarrow> upto_abs k x"
  by (auto simp: upto_abs_def)

lemma f_add_within:
  assumes "upto_abs (of_nat m) x" "upto_abs (of_nat n) y" "m + n < 2 ^ 24"
  shows "upto_abs (of_nat (m + n)) (f_add F32 x y)"
proof -
  from assms obtain v w where vw: "x = Fin v" "\<bar>v\<bar> \<le> of_nat m" "y = Fin w" "\<bar>w\<bar> \<le> of_nat n"
    by (auto simp: upto_abs_def)
  define k where "k = int (m + n)"
  have k: "0 \<le> k" "k < 2 ^ 24" using assms(3) by (simp_all add: k_def)
  have "of_int k < (of_int (2 ^ 24) :: rat)" using k by (simp only: of_int_less_iff)
  also have "\<dots> \<le> 2 powi 128" using powi_le_iff [of 24 128] by simp
  finally have b: "of_int k < (2 powi fmax_exp F32 :: rat)" by simp
  have r: "representable F32 (of_int k)" "representable F32 (- of_int k)"
    using k representable_int [of k F32] representable_int [of "- k" F32] by simp_all
  have kk: "(of_int k :: rat) = of_nat m + of_nat n" by (simp add: k_def)
  have "- of_int k \<le> v + w" "v + w \<le> of_int k" using vw unfolding kk by (simp_all add: abs_le_iff)
  from fround_between [OF this r(2,1)] b k obtain u where "fround F32 (v + w) = Fin u" "- of_int k \<le> u" "u \<le> of_int k"
    by auto
  then show ?thesis using vw kk by (simp add: abs_le_iff)
qed

lemma add_into_length [simp]: "length (add_into out buf) = length out"
  by (induction out buf rule: add_into.induct) simp_all

lemma add_into_within:
  assumes "list_all (upto_abs (of_nat m)) out" "list_all (upto_abs (of_nat n)) buf" "m + n < 2 ^ 24"
  shows "list_all (upto_abs (of_nat (m + n))) (add_into out buf)"
proof -
  have grow: "upto_abs (of_nat m) x \<Longrightarrow> upto_abs (of_nat (m + n)) x" for x by (erule upto_abs_mono) (simp only: of_nat_le_iff le_add1)
  show ?thesis using assms
  proof (induction out buf rule: add_into.induct)
    case (1 x out b buf)
    then show ?case using f_add_within [of m x n b] by simp
  qed (use grow in \<open>auto simp: list_all_iff simp del: of_nat_add\<close>)
qed

lemma foldl_add_into_within:
  assumes "list_all (upto_abs (of_nat m)) out" "\<forall>buf \<in> set bufs. list_all (upto_abs (of_nat n)) buf"
    and "m + n * length bufs < 2 ^ 24"
  shows "list_all (upto_abs (of_nat (m + n * length bufs))) (foldl add_into out bufs)"
  using assms
proof (induction bufs arbitrary: out m)
  case (Cons buf bufs)
  have "list_all (upto_abs (of_nat (m + n))) (add_into out buf)"
    using Cons.prems by (intro add_into_within) simp_all
  from Cons.IH [OF this] Cons.prems show ?case by (simp add: algebra_simps)
qed simp

lemma foldl_add_into_length [simp]: "length (foldl add_into out bufs) = length out"
  by (induction bufs arbitrary: out) simp_all

section \<open>Properties\<close>

lemma sample_within: "upto_abs 2 (sample_to_f32 s)"
proof -
  have s: "to_unit n \<le> 2" if "n \<le> 32768" for n
  proof -
    have "of_int n \<le> (of_int 32768 :: rat)" using that by (simp only: of_int_le_iff)
    then have "of_int n / 32767 \<le> (2 :: rat)" by simp
    from round_fmt_mono [OF this, of F32] round_fmt_exact [OF representable_int [of 2 F32]]
    show ?thesis by (simp add: to_unit_def)
  qed
  then show ?thesis
    using s [of "sint s"] s [of "- sint s"] sint_i16 [of s]
    by (simp add: sample_to_f32_Fin to_unit_minus abs_le_iff)
qed

lemma clamp_unit: "upto_abs k x \<Longrightarrow> upto_abs 1 (f_clamp (Fin (- 1)) (Fin 1) x)"
  by (auto simp: upto_abs_def f_clamp_def Let_def)

lemma mix_range:
  assumes "length pcms \<le> 1000000"
  shows "length (mix_peers (map i16_to_f32 pcms) out) = length out \<and>
    list_all (upto_abs 1) (mix_peers (map i16_to_f32 pcms) out)"
proof -
  have "list_all (upto_abs (of_nat (0 + 2 * length (map i16_to_f32 pcms)))) (mix_sum (map i16_to_f32 pcms) (length out))"
    unfolding mix_sum_def using assms sample_within
    by (intro foldl_add_into_within) (auto simp: list_all_iff i16_to_f32_def)
  then have "list_all (upto_abs 1) (mix_peers (map i16_to_f32 pcms) out)"
    using clamp_unit by (auto simp: mix_peers_def list_all_iff)
  then show ?thesis by (simp add: mix_peers_def mix_sum_def)
qed

text \<open>Each sample of the mix is the clamped sum of the samples the buffers have at its place.\<close>

lemma add_into_nth: "n < length out \<Longrightarrow> add_into out buf ! n = (if n < length buf then f_add F32 (out ! n) (buf ! n) else out ! n)"
  by (induction out buf arbitrary: n rule: add_into.induct) (auto simp: nth_Cons simp del: f_add.simps split: nat.splits)

lemma foldl_add_into_nth:
  "n < length out \<Longrightarrow> foldl add_into out bufs ! n =
     foldl (f_add F32) (out ! n) (map (\<lambda>buf. buf ! n) (filter (\<lambda>buf. n < length buf) bufs))"
  by (induction bufs arbitrary: out) (simp_all add: add_into_nth del: f_add.simps)

lemma mix_nth:
  assumes "n < length out"
  shows "mix_peers (map i16_to_f32 pcms) out ! n = f_clamp (Fin (- 1)) (Fin 1) (foldl (f_add F32) (Fin 0)
    (map (\<lambda>pcm. sample_to_f32 (pcm ! n)) (filter (\<lambda>pcm. n < length pcm) pcms)))"
proof -
  have "map (\<lambda>buf. buf ! n) (filter (\<lambda>buf. n < length buf) (map i16_to_f32 pcms)) =
      map (\<lambda>pcm. sample_to_f32 (pcm ! n)) (filter (\<lambda>pcm. n < length pcm) pcms)"
    by (induction pcms) (auto simp: i16_to_f32_def)
  then show ?thesis using assms by (simp add: mix_peers_def mix_sum_def foldl_add_into_nth del: f_add.simps)
qed

text \<open>Whatever decoded buffers are mixed (any lengths, up to a million peers), the output keeps
  the length of the output buffer and every sample of it is a number between -1.0 and 1.0: no
  overflow, infinity or NaN gets through.\<close>

theorem mix_peers_range:
  assumes "length pcms \<le> 1000000"
  shows "length (mix_peers (map i16_to_f32 pcms) out) = length out \<and>
    list_all (upto_abs 1) (mix_peers (map i16_to_f32 pcms) out)"
  by (rule mix_range [OF assms])

theorem mix_peers_range_witness:
  "list_all (upto_abs 1) (mix_peers (map i16_to_f32 [[32767, 5], [32767], [- 32768, 1, 2]]) [Fin 7, Fin 7])"
  using mix_peers_range [of "[[32767, 5], [32767], [- 32768, 1, 2]]" "[Fin 7, Fin 7]"] by simp

lemma f_add_zero_sample: "f_add F32 (Fin 0) (sample_to_f32 s) = sample_to_f32 s"
proof -
  have r: "representable F32 (to_unit (sint s))" by (simp add: to_unit_def round_fmt_representable)
  have "\<bar>to_unit (sint s)\<bar> \<le> 2" using sample_within [of s] by (simp add: sample_to_f32_Fin)
  also have "(2 :: rat) = 2 powi 1" by simp
  also have "\<dots> < 2 powi 128" by (simp only: powi_less_iff)
  finally show ?thesis using fround_exact [OF r] by (simp add: sample_to_f32_Fin)
qed

lemma add_into_zeros:
  "length pcm = n \<Longrightarrow> add_into (replicate n (Fin 0)) (i16_to_f32 pcm) = i16_to_f32 pcm"
  by (induction pcm arbitrary: n) (auto simp: i16_to_f32_def f_add_zero_sample simp del: f_add.simps)

text \<open>With a single connected peer the mix is transparent: for a frame of the output's length
  the mixed samples convert back to exactly the decoded ones (-32768 as -32767).\<close>

theorem mix_single_peer_transparent:
  assumes "length pcm = length out"
  shows "f32_to_i16 (mix_peers [i16_to_f32 pcm] out) = map (\<lambda>s. if sint s = - 32768 then - 32767 else s) pcm"
proof -
  have "f_clamp (Fin (- 1)) (Fin 1) (f_clamp (Fin (- 1)) (Fin 1) x) = f_clamp (Fin (- 1)) (Fin 1) x" for x
    by (cases x) (auto simp: f_clamp_def Let_def)
  then have "f32_to_i16 (map (f_clamp (Fin (- 1)) (Fin 1)) xs) = f32_to_i16 xs" for xs
    by (simp add: f32_to_i16_def sample_to_i16_def)
  then show ?thesis
    using add_into_zeros [OF assms] sample_roundtrip_list [of pcm]
    by (simp add: mix_peers_def mix_sum_def)
qed

theorem mix_single_peer_transparent_witness:
  "f32_to_i16 (mix_peers [i16_to_f32 [1, 2, - 7]] [Fin 0, Fin 0, Fin 0]) = [1, 2, - 7]"
  using mix_single_peer_transparent [of "[1, 2, - 7]" "[Fin 0, Fin 0, Fin 0]"] by simp

end
