(* ===== verification/Run_Loop.thy ===== *)
theory Run_Loop
  imports Session Capture Mixer
begin

text \<open>
  The body of \<^verbatim>\<open>Session::run\<close> in \<^verbatim>\<open>vc-core/src/lib.rs\<close>: the JOIN a joining node sends first, and what one
  turn of the loop does after receiving: capture and send audio, mix and play, keepalives and
  timeouts, pings and key exchanges, jitter adaptation, and the report to the user interface. Each
  part is one definition; \<open>loop_turn\<close> composes them in the order of the code. The samples the
  capture ring buffer yields, the datagram the socket yields and the settings of the user
  interface are inputs of a turn; the frames handed to the playout ring buffer are an output. A
  panic of the handler ends the thread: nothing of the turn happens after it.
\<close>

section \<open>Sending\<close>

definition send_join :: "env \<Rightarrow> u16 \<Rightarrow> socket_addr \<Rightarrow> node \<Rightarrow> unit outcome \<times> node" where
  "send_join E port host_addr nd =
     attempt (seal E (crypto_context_new (psk E) ZERO_SESSION) PKT_JOIN 0 0 0
                (join_to_bytes \<lparr>listen_port = port\<rparr>)) nd
       (\<lambda>wire. send_to E wire host_addr nd)"

text \<open>A failure to seal is logged, a failure to send too.\<close>

definition send_sealed :: "env \<Rightarrow> bytes outcome \<Rightarrow> socket_addr \<Rightarrow> node \<Rightarrow> node" where
  "send_sealed E r a nd = (case r of Ok wire \<Rightarrow> snd (send_to E wire a nd) | _ \<Rightarrow> nd)"

text \<open>One audio packet to one connected peer, under its own context once both sides have exchanged
  keys and under the PSK context otherwise.\<close>

definition send_audio_to :: "env \<Rightarrow> bytes \<Rightarrow> u8 \<Rightarrow> u8 \<times> socket_addr \<Rightarrow> node \<Rightarrow> node" where
  "send_audio_to E opus_data lid dst nd0 =
     (case dst of (pid, a) \<Rightarrow>
      case get_peer pid (peer_mgr nd0) of
        None \<Rightarrow> nd0
      | Some p0 \<Rightarrow>
          let (seq, p) = next_seq p0;
              nd = upd_node_peer pid (\<lambda>_. p) nd0
          in case (if kx_sent p \<and> kx_received p then peer_crypto p else None) of
               Some peer_ctx \<Rightarrow>
                 (case next_counter peer_ctx of
                    (Ok ctr, ctx) \<Rightarrow>
                      send_sealed E (seal E ctx PKT_AUDIO lid seq ctr opus_data) a
                        (upd_node_peer pid (\<lambda>_. p\<lparr>peer_crypto := Some ctx\<rparr>) nd)
                  | (_, ctx) \<Rightarrow> upd_node_peer pid (\<lambda>_. p\<lparr>peer_crypto := Some ctx\<rparr>) nd)
             | None \<Rightarrow>
                 (case next_counter (crypto_ctx nd) of
                    (Ok ctr, ctx) \<Rightarrow>
                      send_sealed E (seal E ctx PKT_AUDIO lid seq ctr opus_data) a (nd\<lparr>crypto_ctx := ctx\<rparr>)
                  | (_, ctx) \<Rightarrow> nd\<lparr>crypto_ctx := ctx\<rparr>))"

definition send_audio :: "env \<Rightarrow> bytes \<Rightarrow> node \<Rightarrow> node" where
  "send_audio E opus_data nd =
     (let lid = local_id (peer_mgr nd); connected = connected_peers (peer_iter E) (peer_mgr nd)
      in foldl (\<lambda>nd dst. send_audio_to E opus_data lid dst nd) nd connected)"

section \<open>Capture\<close>

record capture =
  suppressor :: noise_suppressor
  detector :: voice_activity_detector
  gate :: input_gate
  encoder_of :: encoder
  capture_accum :: "fl list"

record audio_env =
  denoiser :: denoise
  fmath :: float_math

text \<open>One 120-sample chunk: detect, gate, convert, encode, send.\<close>

definition transmit_chunk ::
  "env \<Rightarrow> audio_env \<Rightarrow> fl option \<Rightarrow> fl list \<Rightarrow> capture \<times> node \<Rightarrow> capture \<times> node" where
  "transmit_chunk E A rnnoise_vad chunk st =
     (case st of (cap, nd) \<Rightarrow>
      let (voice_active, v) = detect (fmath A) (detector cap) chunk rnnoise_vad;
          (go, g) = should_transmit (set_vad_active voice_active (gate cap));
          cap = cap\<lparr>detector := v, gate := g\<rparr>
      in if \<not> go then (cap, nd)
         else case opus_encode_frame (opus_lib E) (encoder_of cap) (f32_to_i16 chunk) of (r, en) \<Rightarrow>
           let cap = cap\<lparr>encoder_of := en\<rparr> in
           case r of Ok opus_data \<Rightarrow> (cap, send_audio E opus_data nd) | _ \<Rightarrow> (cap, nd))"

text \<open>\<^verbatim>\<open>chunks(FRAME_SAMPLES)\<close>, stopping at a short one.\<close>

function transmit_chunks ::
  "env \<Rightarrow> audio_env \<Rightarrow> fl option \<Rightarrow> fl list \<Rightarrow> capture \<times> node \<Rightarrow> capture \<times> node" where
  "transmit_chunks E A rnnoise_vad xs st =
     (if length xs < FRAME_SAMPLES then st
      else transmit_chunks E A rnnoise_vad (drop FRAME_SAMPLES xs)
             (transmit_chunk E A rnnoise_vad (take FRAME_SAMPLES xs) st))"
  by pat_completeness auto

termination
  by (relation "measure (\<lambda>(_, _, _, xs, _). length xs)") (auto simp: FRAME_SAMPLES_def)

definition capture_frame :: "env \<Rightarrow> audio_env \<Rightarrow> fl list \<Rightarrow> capture \<times> node \<Rightarrow> capture \<times> node" where
  "capture_frame E A frame st =
     (case st of (cap, nd) \<Rightarrow>
      case ns_process (denoiser A) (suppressor cap) frame of (processed, ns) \<Rightarrow>
      let cap = cap\<lparr>suppressor := ns\<rparr> in
      case processed of
        None \<Rightarrow> (cap, nd)
      | Some denoised \<Rightarrow>
          transmit_chunks E A (if enabled ns then Some (last_vad_prob ns) else None) denoised (cap, nd))"

text \<open>The loop over the accumulated samples; what is left over waits for the next turn.\<close>

function drain_capture :: "env \<Rightarrow> audio_env \<Rightarrow> fl list \<Rightarrow> capture \<times> node \<Rightarrow> capture \<times> node" where
  "drain_capture E A xs st =
     (if length xs < FRAME_SAMPLES then (case st of (cap, nd) \<Rightarrow> (cap\<lparr>capture_accum := xs\<rparr>, nd))
      else drain_capture E A (drop FRAME_SAMPLES xs) (capture_frame E A (take FRAME_SAMPLES xs) st))"
  by pat_completeness auto

termination
  by (relation "measure (\<lambda>(_, _, xs, _). length xs)") (auto simp: FRAME_SAMPLES_def)

declare transmit_chunks.simps [simp del] drain_capture.simps [simp del]

definition capture_step :: "env \<Rightarrow> audio_env \<Rightarrow> fl list \<Rightarrow> capture \<times> node \<Rightarrow> capture \<times> node" where
  "capture_step E A popped st = drain_capture E A (capture_accum (fst st) @ popped) st"

section \<open>Playout\<close>

text \<open>One peer's contribution: its next frame, or concealment when there is none.\<close>

definition playout_peer :: "opus_prims \<Rightarrow> remote_peer \<Rightarrow> fl list option \<times> remote_peer" where
  "playout_peer opus p =
     (if state p \<noteq> Connected then (None, p)
      else case jb_pop (rp_jitter p) of
        (Some pcm, jb) \<Rightarrow> (Some (i16_to_f32 pcm), p\<lparr>rp_jitter := jb\<rparr>)
      | (None, jb) \<Rightarrow>
          (case decode_plc opus (rp_decoder p) of (r, de) \<Rightarrow>
             ((case r of Ok plc \<Rightarrow> Some (i16_to_f32 plc) | _ \<Rightarrow> None),
              p\<lparr>rp_jitter := jb, rp_decoder := de\<rparr>)))"

definition playout_bufs :: "opus_prims \<Rightarrow> peer_order \<Rightarrow> peer_manager \<Rightarrow> fl list list" where
  "playout_bufs opus it pm = List.map_filter (\<lambda>(k, p). fst (playout_peer opus p)) (it (peers pm))"

definition playout_step :: "env \<Rightarrow> node \<Rightarrow> fl list option \<times> node" where
  "playout_step E nd =
     (let peer_bufs = playout_bufs (opus_lib E) (peer_iter E) (peer_mgr nd);
          pm = (peer_mgr nd)\<lparr>peers := map (\<lambda>(k, p). (k, snd (playout_peer (opus_lib E) p))) (peers (peer_mgr nd))\<rparr>
      in (if peer_bufs = [] then None
          else Some (mix_peers peer_bufs (replicate FRAME_SAMPLES (Fin 0))),
          nd\<lparr>peer_mgr := pm\<rparr>))"

section \<open>Timers\<close>

definition keepalive_to :: "env \<Rightarrow> u8 \<Rightarrow> u8 \<times> socket_addr \<Rightarrow> node \<Rightarrow> node" where
  "keepalive_to E lid dst nd =
     (case next_counter (crypto_ctx nd) of
        (Ok ctr, ctx) \<Rightarrow>
          send_sealed E (seal E ctx PKT_KEEPALIVE lid 0 ctr []) (snd dst) (nd\<lparr>crypto_ctx := ctx\<rparr>)
      | (_, ctx) \<Rightarrow> nd\<lparr>crypto_ctx := ctx\<rparr>)"

definition keepalive_step :: "env \<Rightarrow> node \<Rightarrow> node" where
  "keepalive_step E nd =
     (let lid = local_id (peer_mgr nd); connected = connected_peers (peer_iter E) (peer_mgr nd);
          nd = foldl (\<lambda>nd dst. keepalive_to E lid dst nd) nd connected
      in nd\<lparr>peer_mgr := check_timeouts (clock E) (peer_mgr nd)\<rparr>)"

definition ping_to :: "env \<Rightarrow> u8 \<Rightarrow> u8 \<times> socket_addr \<Rightarrow> node \<Rightarrow> node" where
  "ping_to E lid dst nd0 =
     (case dst of (pid, a) \<Rightarrow>
      case get_peer pid (peer_mgr nd0) of
        None \<Rightarrow> nd0
      | Some p \<Rightarrow>
          (case ping_sent (ping_iter E) (clock E) (rp_latency p) of (ping, lt) \<Rightarrow>
           let nd = upd_node_peer pid (\<lambda>p. p\<lparr>rp_latency := lt\<rparr>) nd0;
               payload = ping_to_bytes \<lparr>ping_id = ping\<rparr>
           in case next_counter (crypto_ctx nd) of
                (Ok ctr, ctx) \<Rightarrow>
                  send_sealed E (seal E ctx PKT_PING lid 0 ctr payload) a (nd\<lparr>crypto_ctx := ctx\<rparr>)
              | (_, ctx) \<Rightarrow> nd\<lparr>crypto_ctx := ctx\<rparr>))"

definition key_exchange_to :: "env \<Rightarrow> u8 \<Rightarrow> u8 \<times> socket_addr \<Rightarrow> node \<Rightarrow> node" where
  "key_exchange_to E lid dst nd =
     (case dst of (pid, a) \<Rightarrow>
      case get_peer pid (peer_mgr nd) of
        Some p \<Rightarrow> if \<not> kx_sent p then send_key_exchange E lid (session_id (peer_mgr nd)) pid a nd else nd
      | None \<Rightarrow> nd)"

definition ping_step :: "env \<Rightarrow> node \<Rightarrow> node" where
  "ping_step E nd =
     (let lid = local_id (peer_mgr nd);
          nd = foldl (\<lambda>nd dst. ping_to E lid dst nd) nd (connected_peers (peer_iter E) (peer_mgr nd))
      in foldl (\<lambda>nd dst. key_exchange_to E lid dst nd) nd (connected_peers (peer_iter E) (peer_mgr nd)))"

definition adapt_step :: "fl \<Rightarrow> node \<Rightarrow> node" where
  "adapt_step elapsed nd =
     nd\<lparr>peer_mgr := (peer_mgr nd)\<lparr>peers := map (\<lambda>(k, p). (k, p\<lparr>rp_jitter := jb_adapt (rp_jitter p) elapsed\<rparr>))
          (peers (peer_mgr nd))\<rparr>\<rparr>"

record peer_display_info =
  info_id :: u8
  info_addr :: socket_addr
  info_state :: peer_state
  info_latency :: latency_stats
  key_exchange_done :: bool

definition peer_info :: "peer_order \<Rightarrow> peer_manager \<Rightarrow> peer_display_info list" where
  "peer_info it pm = map (\<lambda>(k, p). \<lparr>info_id = rp_id p, info_addr = addr p, info_state = state p,
     info_latency = stats (rp_latency p), key_exchange_done = kx_sent p \<and> kx_received p\<rparr>) (it (peers pm))"

section \<open>A turn of the loop\<close>

record timers =
  last_playout :: instant
  last_keepalive :: instant
  last_adapt :: instant
  last_ping :: instant
  last_ui_update :: instant

record shared_state =
  sh_noise_suppression :: bool
  sh_ptt_active :: bool
  sh_input_mode :: input_mode
  sh_is_transmitting :: bool
  sh_peer_info :: "peer_display_info list"
  sh_external_addr :: "socket_addr option"

record session_state =
  the_node :: node
  the_capture :: capture
  the_timers :: timers
  the_shared :: shared_state
  played :: "fl list list"
  panicked :: bool

definition sync_controls :: "session_state \<Rightarrow> session_state" where
  "sync_controls s =
     (let sh = the_shared s; cap = the_capture s in
      s\<lparr>the_capture := cap\<lparr>suppressor := set_enabled (sh_noise_suppression sh) (suppressor cap),
          gate := set_mode (sh_input_mode sh) (set_ptt (sh_ptt_active sh) (gate cap))\<rparr>\<rparr>)"

definition receive_part :: "env \<Rightarrow> (bytes \<times> socket_addr) option \<Rightarrow> session_state \<Rightarrow> session_state" where
  "receive_part E received s =
     (case received of
        Some (data, src) \<Rightarrow>
          (case handle_incoming E data src (the_node s) of (r, nd) \<Rightarrow>
             s\<lparr>the_node := nd, panicked := (r = Panic)\<rparr>)
      | None \<Rightarrow> s)"

definition capture_part :: "env \<Rightarrow> audio_env \<Rightarrow> fl list \<Rightarrow> session_state \<Rightarrow> session_state" where
  "capture_part E A popped s =
     (case capture_step E A popped (the_capture s, the_node s) of (cap, nd) \<Rightarrow>
      s\<lparr>the_capture := cap, the_node := nd,
        the_shared := (the_shared s)\<lparr>sh_is_transmitting := is_transmitting (gate cap)\<rparr>\<rparr>)"

definition playout_part :: "env \<Rightarrow> session_state \<Rightarrow> session_state" where
  "playout_part E s =
     (if clock E - last_playout (the_timers s) \<ge> FRAME_DURATION_US * 1000
      then case playout_step E (the_node s) of (mixed, nd) \<Rightarrow>
        s\<lparr>the_node := nd,
          played := (case mixed of Some m \<Rightarrow> played s @ [m] | None \<Rightarrow> played s),
          the_timers := (the_timers s)\<lparr>last_playout := clock E\<rparr>\<rparr>
      else s)"

definition keepalive_part :: "env \<Rightarrow> session_state \<Rightarrow> session_state" where
  "keepalive_part E s =
     (if as_secs_f64 (clock E - last_keepalive (the_timers s)) \<ge> Fin 1
      then s\<lparr>the_node := keepalive_step E (the_node s),
             the_timers := (the_timers s)\<lparr>last_keepalive := clock E\<rparr>\<rparr>
      else s)"

definition PING_INTERVAL_SECS :: fl where "PING_INTERVAL_SECS = Fin 2"

definition ping_part :: "env \<Rightarrow> session_state \<Rightarrow> session_state" where
  "ping_part E s =
     (if as_secs_f64 (clock E - last_ping (the_timers s)) \<ge> PING_INTERVAL_SECS
      then s\<lparr>the_node := ping_step E (the_node s), the_timers := (the_timers s)\<lparr>last_ping := clock E\<rparr>\<rparr>
      else s)"

definition adapt_part :: "env \<Rightarrow> session_state \<Rightarrow> session_state" where
  "adapt_part E s =
     (let elapsed = as_secs_f64 (clock E - last_adapt (the_timers s)) in
      if elapsed \<ge> Fin (1 / 2)
      then s\<lparr>the_node := adapt_step elapsed (the_node s), the_timers := (the_timers s)\<lparr>last_adapt := clock E\<rparr>\<rparr>
      else s)"

definition ui_part :: "env \<Rightarrow> session_state \<Rightarrow> session_state" where
  "ui_part E s =
     (if as_secs_f64 (clock E - last_ui_update (the_timers s)) \<ge> Fin (1 / 4)
      then s\<lparr>the_shared := (the_shared s)\<lparr>sh_peer_info := peer_info (peer_iter E) (peer_mgr (the_node s))\<rparr>,
             the_timers := (the_timers s)\<lparr>last_ui_update := clock E\<rparr>\<rparr>
      else s)"

definition loop_turn ::
  "env \<Rightarrow> audio_env \<Rightarrow> (bytes \<times> socket_addr) option \<Rightarrow> fl list \<Rightarrow> session_state \<Rightarrow> session_state" where
  "loop_turn E A received popped s =
     (let s = receive_part E received (sync_controls s) in
      if panicked s then s
      else ui_part E (adapt_part E (ping_part E (keepalive_part E (playout_part E (capture_part E A popped s))))))"

section \<open>Every part keeps the invariant\<close>

lemma next_counter_inv:
  "node_inv key nd \<Longrightarrow> next_counter (crypto_ctx nd) = (r, ctx) \<Longrightarrow> node_inv key (nd\<lparr>crypto_ctx := ctx\<rparr>)"
  using next_counter_frame [of "crypto_ctx nd" r ctx] by (simp add: node_inv_def)

lemma send_sealed_inv [node_inv_intros]: "node_inv key nd \<Longrightarrow> node_inv key (send_sealed E r a nd)"
  by (auto simp: send_sealed_def intro: send_to_inv split: outcome.splits)

lemma send_join_inv: "node_inv key nd \<Longrightarrow> node_inv key (snd (send_join E port host nd))"
  by (auto simp: send_join_def intro!: attempt_inv send_to_inv)

lemma get_upd_node_peer:
  "get_peer k (peer_mgr (upd_node_peer pid f nd)) =
     (if k = pid then map_option f (get_peer pid (peer_mgr nd)) else get_peer k (peer_mgr nd))"
  by (simp add: upd_node_peer_def get_upd_peer)

lemma upd_node_peer_ctx [simp]: "crypto_ctx (upd_node_peer pid f nd) = crypto_ctx nd"
  by (simp add: upd_node_peer_def)

lemma send_audio_to_inv:
  assumes "node_inv key nd"
  shows "node_inv key (send_audio_to E opus_data lid dst nd)"
proof (cases "get_peer (fst dst) (peer_mgr nd)")
  case (Some p)
  let ?p = "p\<lparr>send_seq := send_seq p + 1\<rparr>"
  have ok: "peer_ok p" using node_inv_peer_ok [OF assms Some] by simp
  then have nd: "node_inv key (upd_node_peer (fst dst) (\<lambda>_. ?p) nd)"
    using put_peer_inv [OF assms Some, of ?p] by (simp add: peer_ok_def)
  have pc: "node_inv key (upd_node_peer (fst dst) (\<lambda>_. ?p\<lparr>peer_crypto := c\<rparr>) (upd_node_peer (fst dst) (\<lambda>_. ?p) nd))" for c
    using ok Some by (intro put_peer_inv [OF nd, of _ ?p]) (simp_all add: get_upd_node_peer peer_ok_def)
  show ?thesis
    using Some nd pc next_counter_inv [OF nd]
    by (auto simp: send_audio_to_def next_seq_def Let_def split: prod.splits outcome.splits option.splits
        intro!: send_sealed_inv)
qed (use assms in \<open>auto simp: send_audio_to_def split: prod.splits\<close>)

lemma foldl_node_inv:
  assumes "node_inv key nd" "\<And>nd x. node_inv key nd \<Longrightarrow> node_inv key (f nd x)"
  shows "node_inv key (foldl f nd xs)"
  using assms by (induction xs arbitrary: nd) auto

lemma send_audio_inv: "node_inv key nd \<Longrightarrow> node_inv key (send_audio E opus_data nd)"
  unfolding send_audio_def Let_def by (rule foldl_node_inv) (auto intro: send_audio_to_inv)

lemma transmit_chunk_inv: "node_inv key (snd st) \<Longrightarrow> node_inv key (snd (transmit_chunk E A v chunk st))"
  by (auto simp: transmit_chunk_def Let_def intro: send_audio_inv split: prod.splits outcome.splits)

lemma transmit_chunks_inv: "node_inv key (snd st) \<Longrightarrow> node_inv key (snd (transmit_chunks E A v xs st))"
proof (induction E A v xs st rule: transmit_chunks.induct)
  case (1 E A v xs st)
  then show ?case by (subst transmit_chunks.simps) (simp add: transmit_chunk_inv)
qed

lemma capture_frame_inv: "node_inv key (snd st) \<Longrightarrow> node_inv key (snd (capture_frame E A frame st))"
  by (auto simp: capture_frame_def Let_def intro!: transmit_chunks_inv split: prod.splits option.splits)

lemma drain_capture_inv: "node_inv key (snd st) \<Longrightarrow> node_inv key (snd (drain_capture E A xs st))"
proof (induction E A xs st rule: drain_capture.induct)
  case (1 E A xs st)
  then show ?case
    by (subst drain_capture.simps) (auto simp: capture_frame_inv split: prod.splits)
qed

lemma map_node_peers_inv:
  "node_inv key nd \<Longrightarrow> peer_keeps f \<Longrightarrow>
     node_inv key (nd\<lparr>peer_mgr := (peer_mgr nd)\<lparr>peers := map (\<lambda>(k, p). (k, f p)) (peers (peer_mgr nd))\<rparr>\<rparr>)"
  by (simp add: node_inv_def map_peers_inv)

lemma playout_peer_keeps: "peer_keeps (\<lambda>p. snd (playout_peer opus p))"
  using jb_pop_inv
  by (fastforce simp: peer_keeps_def playout_peer_def peer_ok_def split: prod.splits option.splits)

lemma playout_step_inv: "node_inv key nd \<Longrightarrow> node_inv key (snd (playout_step E nd))"
  by (simp add: playout_step_def Let_def map_node_peers_inv playout_peer_keeps)

lemma keepalive_step_inv: "node_inv key nd \<Longrightarrow> node_inv key (keepalive_step E nd)"
proof -
  assume "node_inv key nd"
  then have "node_inv key (foldl (\<lambda>nd dst. keepalive_to E lid dst nd) nd xs)" for lid xs
    by (rule foldl_node_inv)
      (auto simp: keepalive_to_def intro!: send_sealed_inv next_counter_inv split: prod.splits outcome.splits)
  then show ?thesis
    by (simp add: keepalive_step_def Let_def node_inv_def check_timeouts_inv) (simp add: check_timeouts_def)
qed

lemma ping_to_inv:
  assumes "node_inv key nd" "iterates (ping_iter E)"
  shows "node_inv key (ping_to E lid dst nd)"
proof (cases "get_peer (fst dst) (peer_mgr nd)")
  case (Some p)
  obtain i lt where ps: "ping_sent (ping_iter E) (clock E) (rp_latency p) = (i, lt)" by fastforce
  have ok: "peer_ok p" using node_inv_peer_ok [OF assms(1) Some] by simp
  then have "pending_ok lt" using ping_sent_pending [OF _ assms(2), of "rp_latency p" "clock E"] ps
    by (simp add: peer_ok_def)
  then have "peer_keeps (\<lambda>p. p\<lparr>rp_latency := lt\<rparr>)" by (simp add: peer_keeps_def peer_ok_def)
  note nd = upd_node_peer_inv [OF assms(1) this, of "fst dst"]
  show ?thesis
    using Some nd ps next_counter_inv [OF nd]
    by (auto simp: ping_to_def Let_def split: prod.splits outcome.splits intro!: send_sealed_inv)
qed (use assms in \<open>auto simp: ping_to_def split: prod.splits\<close>)

lemma ping_step_inv:
  assumes "node_inv key nd" "iterates (ping_iter E)"
  shows "node_inv key (ping_step E nd)"
  unfolding ping_step_def Let_def
  by (rule foldl_node_inv, rule foldl_node_inv [OF assms(1)])
    (auto simp: key_exchange_to_def intro: ping_to_inv [OF _ assms(2)] send_key_exchange_inv
      split: prod.splits option.splits)

lemma adapt_step_inv: "node_inv key nd \<Longrightarrow> node_inv key (adapt_step elapsed nd)"
  unfolding adapt_step_def by (rule map_node_peers_inv) (auto simp: peer_keeps_def peer_ok_def jb_adapt_inv)

lemma loop_turn_inv:
  assumes "node_inv (psk E) (the_node s)" "iterates (ping_iter E)"
  shows "node_inv (psk E) (the_node (loop_turn E A received popped s))"
proof -
  have sync: "the_node (sync_controls s) = the_node s" by (simp add: sync_controls_def Let_def)
  have rcv: "node_inv (psk E) (the_node (receive_part E received (sync_controls s)))"
    using assms(1) handle_incoming_inv [of E "the_node s"]
    by (auto simp: receive_part_def sync split: option.splits prod.splits) (metis snd_conv)
  have cap: "node_inv (psk E) (the_node (capture_part E A popped u))" if "node_inv (psk E) (the_node u)" for u
    using that drain_capture_inv [of "psk E" "(the_capture u, the_node u)"]
    by (auto simp: capture_part_def capture_step_def split: prod.splits) (metis snd_conv)
  have play: "node_inv (psk E) (the_node (playout_part E u))" if "node_inv (psk E) (the_node u)" for u
    using that playout_step_inv [of "psk E" "the_node u" E] by (auto simp: playout_part_def split: prod.splits)
  have keep: "node_inv (psk E) (the_node (keepalive_part E u))" if "node_inv (psk E) (the_node u)" for u
    using that by (simp add: keepalive_part_def keepalive_step_inv)
  have ping: "node_inv (psk E) (the_node (ping_part E u))" if "node_inv (psk E) (the_node u)" for u
    using that assms(2) by (simp add: ping_part_def ping_step_inv)
  have adapt: "node_inv (psk E) (the_node (adapt_part E u))" if "node_inv (psk E) (the_node u)" for u
    using that by (simp add: adapt_part_def Let_def adapt_step_inv)
  have ui: "the_node (ui_part E u) = the_node u" for u by (simp add: ui_part_def)
  show ?thesis
    using rcv by (simp add: loop_turn_def Let_def ui cap play keep ping adapt)
qed

section \<open>Sessions\<close>

text \<open>A session starts as a host with a fresh session id or as a joining node.\<close>

definition session_start :: "bytes \<Rightarrow> session_state \<Rightarrow> bool" where
  "session_start key s \<longleftrightarrow> (\<exists>sid. length sid = 8 \<and> crypto_ctx (the_node s) = crypto_context_new key sid \<and>
     (peer_mgr (the_node s) = new_host sid \<or> (sid = replicate 8 0 \<and> peer_mgr (the_node s) = new_joiner)))"

text \<open>What happens to it: the JOIN is sent, the loop turns, the user interface changes the controls.\<close>

inductive session_step :: "bytes \<Rightarrow> session_state \<Rightarrow> session_state \<Rightarrow> bool" for key where
  step_join: "psk E = key \<Longrightarrow> session_step key s (s\<lparr>the_node := snd (send_join E port host (the_node s))\<rparr>)"
| step_turn: "psk E = key \<Longrightarrow> iterates (ping_iter E) \<Longrightarrow> session_step key s (loop_turn E A received popped s)"
| step_controls: "session_step key s (s\<lparr>the_shared := sh\<rparr>)"

interpretation session_sys: invariant_system "session_start key" "session_step key" "\<lambda>s. node_inv key (the_node s)"
  for key
proof unfold_locales
  fix s t :: session_state
  show "session_start key s \<Longrightarrow> node_inv key (the_node s)"
    using pm_inv_new
    by (auto simp: session_start_def node_inv_def crypto_context_new_def) (simp_all add: new_host_def new_joiner_def)
  assume inv: "node_inv key (the_node s)"
  assume "session_step key s t"
  then show "node_inv key (the_node t)"
    by cases (use inv loop_turn_inv send_join_inv in auto)
qed

section \<open>Properties\<close>

text \<open>C9. Through a whole session, whatever arrives, is captured or is set by the user, in any order:
  at most four remote peers, each under its own id, with at most eight buffered frames, a jitter
  target between one and four and at most 16 unanswered pings; the address index leads only to
  peers with that address; and the PSK context belongs to the key and the session of the table.\<close>

theorem session_invariant:
  assumes "reach (session_start key) (session_step key) s"
  shows "case peer_mgr (the_node s) of pm \<Rightarrow>
    distinct (map fst (peers pm)) \<and> length (peers pm) \<le> 4 \<and>
    (\<forall>(k, p) \<in> set (peers pm). rp_id p = k \<and> length (frames (rp_jitter p)) \<le> 8 \<and>
       target_depth (rp_jitter p) \<in> {1..4} \<and> length (pending (rp_latency p)) \<le> 16) \<and>
    (\<forall>a k. addr_to_id pm a = Some k \<longrightarrow> (\<exists>p. get_peer k pm = Some p \<and> addr p = a)) \<and>
    length (session_id pm) = 8 \<and>
    cipher_key (crypto_ctx (the_node s)) = key \<and> ctx_session_id (crypto_ctx (the_node s)) = session_id pm"
proof -
  have inv: "node_inv key (the_node s)" using session_sys.reach_inv [OF assms] .
  then have "table_ok (peers (peer_mgr (the_node s))) (addr_to_id (peer_mgr (the_node s)))"
    by (simp add: node_inv_def pm_inv_def)
  note ok = table_okD [OF this]
  have "rp_id p = k \<and> length (frames (rp_jitter p)) \<le> 8 \<and> target_depth (rp_jitter p) \<in> {1..4} \<and>
      length (pending (rp_latency p)) \<le> 16" if "(k, p) \<in> set (peers (peer_mgr (the_node s)))" for k p
    using ok(3) [OF that]
    by (simp add: peer_ok_def jb_inv_def pending_ok_def MAX_DEPTH_def MAX_PENDING_PINGS_def)
  with ok inv show ?thesis by (auto simp: node_inv_def get_peer_def)
qed

definition demo_session :: session_state where
  "demo_session = \<lparr>the_node = \<lparr>peer_mgr = new_host (replicate 8 7),
       crypto_ctx = crypto_context_new (replicate 32 5) (replicate 8 7), outbox = []\<rparr>,
     the_capture = \<lparr>suppressor = noise_suppressor_new, detector = vad_new vad_config_default,
       gate = input_gate_new AlwaysOn, encoder_of = \<lparr>enc_calls = []\<rparr>, capture_accum = []\<rparr>,
     the_timers = \<lparr>last_playout = 0, last_keepalive = 0, last_adapt = 0, last_ping = 0, last_ui_update = 0\<rparr>,
     the_shared = \<lparr>sh_noise_suppression = True, sh_ptt_active = False, sh_input_mode = AlwaysOn,
       sh_is_transmitting = False, sh_peer_info = [], sh_external_addr = None\<rparr>,
     played = [], panicked = False\<rparr>"

definition demo_audio_env :: audio_env where
  "demo_audio_env = \<lparr>denoiser = demo_denoise, fmath = \<lparr>f32_sqrt = (\<lambda>x. PInf), f32_log10 = (\<lambda>x. Fin 0)\<rparr>\<rparr>"

theorem session_invariant_witness:
  "length (peers (peer_mgr (the_node (loop_turn demo_env demo_audio_env (Some (replicate 30 2, demo_addr 7)) [] demo_session)))) \<le> 4"
proof -
  have "session_start (replicate 32 5) demo_session"
    by (auto simp: session_start_def demo_session_def intro!: exI [of _ "replicate 8 7"])
  then have "reach (session_start (replicate 32 5)) (session_step (replicate 32 5))
      (loop_turn demo_env demo_audio_env (Some (replicate 30 2, demo_addr 7)) [] demo_session)"
    by (rule reach_step [OF reach_start], intro step_turn) (simp_all add: demo_env_def iterates_rev)
  from session_invariant [OF this] show ?thesis by simp
qed

section \<open>The capture loop as a fold\<close>

interpretation transmit_loop: chunk_loop FRAME_SAMPLES "transmit_chunk E A v" "\<lambda>_ st. st" "transmit_chunks E A v"
  for E A v
  by unfold_locales (simp_all add: FRAME_SAMPLES_def transmit_chunks.simps [of E A v])

interpretation capture_loop: chunk_loop FRAME_SAMPLES "capture_frame E A"
    "\<lambda>rest st. case st of (cap, nd) \<Rightarrow> (cap\<lparr>capture_accum := rest\<rparr>, nd)" "drain_capture E A"
  for E A
  by unfold_locales (simp_all add: FRAME_SAMPLES_def drain_capture.simps [of E A])

text \<open>Nothing in the processing of a frame reads or writes the accumulator.\<close>

definition put_accum :: "fl list \<Rightarrow> capture \<times> node \<Rightarrow> capture \<times> node" where
  "put_accum xs st = ((fst st)\<lparr>capture_accum := xs\<rparr>, snd st)"

lemma transmit_chunk_accum: "transmit_chunk E A v c (put_accum xs st) = put_accum xs (transmit_chunk E A v c st)"
  by (cases st) (simp add: transmit_chunk_def put_accum_def Let_def split: prod.splits outcome.splits)

lemma transmit_chunks_accum: "transmit_chunks E A v zs (put_accum xs st) = put_accum xs (transmit_chunks E A v zs st)"
proof -
  have "foldl (\<lambda>s c. transmit_chunk E A v c s) (put_accum xs st) cs =
      put_accum xs (foldl (\<lambda>s c. transmit_chunk E A v c s) st cs)" for cs
    by (induction cs arbitrary: st) (simp_all add: transmit_chunk_accum)
  then show ?thesis by (simp add: transmit_loop.loop_fold)
qed

lemma capture_frame_accum: "capture_frame E A c (put_accum xs st) = put_accum xs (capture_frame E A c st)"
proof -
  obtain cap nd where st: "st = (cap, nd)" by fastforce
  obtain r ns where p: "ns_process (denoiser A) (suppressor cap) c = (r, ns)" by fastforce
  have c: "cap\<lparr>capture_accum := xs, suppressor := ns\<rparr> = cap\<lparr>suppressor := ns, capture_accum := xs\<rparr>" by simp
  have "transmit_chunks E A v zs (cap\<lparr>suppressor := ns, capture_accum := xs\<rparr>, nd) =
      put_accum xs (transmit_chunks E A v zs (cap\<lparr>suppressor := ns\<rparr>, nd))" for v zs
    using transmit_chunks_accum [of E A v zs xs "(cap\<lparr>suppressor := ns\<rparr>, nd)"] by (simp add: put_accum_def)
  then show ?thesis using p
    by (cases r) (simp_all add: capture_frame_def st put_accum_def [of xs "(_, _)"] Let_def c)
qed

text \<open>The gate of a node in push-to-talk mode whose key is up.\<close>

definition muted :: "capture \<Rightarrow> bool" where
  "muted cap \<longleftrightarrow> mode (gate cap) = PushToTalk \<and> \<not> ptt_active (gate cap)"

lemma transmit_chunk_muted:
  "muted (fst st) \<Longrightarrow> muted (fst (transmit_chunk E A v chunk st)) \<and> snd (transmit_chunk E A v chunk st) = snd st"
  by (auto simp: transmit_chunk_def muted_def should_transmit_def set_vad_active_def Let_def split: prod.splits)

lemma transmit_chunks_muted:
  "muted (fst st) \<Longrightarrow> muted (fst (transmit_chunks E A v xs st)) \<and> snd (transmit_chunks E A v xs st) = snd st"
proof (induction E A v xs st rule: transmit_chunks.induct)
  case (1 E A v xs st)
  then show ?case by (subst (1 2) transmit_chunks.simps) (simp add: transmit_chunk_muted)
qed

lemma capture_frame_muted:
  assumes "muted (fst st)"
  shows "muted (fst (capture_frame E A frame st)) \<and> snd (capture_frame E A frame st) = snd st"
proof -
  have "muted (cap\<lparr>suppressor := ns\<rparr>) = muted cap" for cap ns by (simp add: muted_def)
  with assms transmit_chunks_muted show ?thesis
    by (fastforce simp: capture_frame_def Let_def split: prod.splits option.splits)
qed

lemma drain_capture_muted: "muted (fst st) \<Longrightarrow> snd (drain_capture E A xs st) = snd st"
proof (induction E A xs st rule: drain_capture.induct)
  case (1 E A xs st)
  then show ?case by (subst drain_capture.simps) (auto simp: capture_frame_muted split: prod.splits)
qed

text \<open>C21. Push-to-talk is private: while the mode is push-to-talk and the key is not pressed, no amount
  of captured sound makes the node send anything or change any state of a peer.\<close>

theorem push_to_talk_private:
  assumes "mode (gate cap) = PushToTalk" "\<not> ptt_active (gate cap)"
  shows "snd (capture_step E A popped (cap, nd)) = nd"
  using drain_capture_muted [of "(cap, nd)"] assms by (simp add: capture_step_def muted_def)

theorem push_to_talk_private_witness:
  "snd (capture_step demo_env demo_audio_env (replicate 960 (Fin 1))
     ((the_capture demo_session)\<lparr>gate := input_gate_new PushToTalk\<rparr>, demo_node)) = demo_node"
  by (rule push_to_talk_private) (simp_all add: input_gate_new_def)

text \<open>What a peer contributes to the sound, as a specification: the next frame of a connected peer, or
  else what the decoder conceals the gap with.\<close>

definition contribution :: "opus_prims \<Rightarrow> remote_peer \<Rightarrow> i16 list option" where
  "contribution opus p =
     (if state p \<noteq> Connected then None
      else case fst (jb_pop (rp_jitter p)) of
        Some pcm \<Rightarrow> Some pcm
      | None \<Rightarrow> (case fst (decode_plc opus (rp_decoder p)) of Ok plc \<Rightarrow> Some plc | _ \<Rightarrow> None))"

definition contributions :: "env \<Rightarrow> node \<Rightarrow> i16 list list" where
  "contributions E nd = List.map_filter (\<lambda>(k, p). contribution (opus_lib E) p) (peer_iter E (peers (peer_mgr nd)))"

lemma playout_peer_contribution: "fst (playout_peer opus p) = map_option i16_to_f32 (contribution opus p)"
  by (auto simp: playout_peer_def contribution_def split: prod.splits option.splits outcome.splits)

lemma playout_bufs_contributions: "playout_bufs (opus_lib E) (peer_iter E) (peer_mgr nd) = map i16_to_f32 (contributions E nd)"
proof -
  have "List.map_filter (\<lambda>(k, p). fst (playout_peer opus p)) ps =
      map i16_to_f32 (List.map_filter (\<lambda>(k, p). contribution opus p) ps)" for opus and ps :: "(u8 \<times> remote_peer) list"
    by (induction ps) (auto simp: map_filter_simps playout_peer_contribution split: option.splits)
  then show ?thesis by (simp add: playout_bufs_def contributions_def)
qed

lemma contributions_Nil_iff:
  assumes "iterates (peer_iter E)"
  shows "contributions E nd = [] \<longleftrightarrow> (\<forall>(k, p) \<in> set (peers (peer_mgr nd)). contribution (opus_lib E) p = None)"
  using iterates_set [OF assms, of "peers (peer_mgr nd)"]
  by (auto simp: contributions_def map_filter_def filter_empty_conv)

text \<open>C20. What is played is the mix of what the connected peers contribute. A frame is handed to the
  sound device exactly when some connected peer of the table contributes one: its next frame, or the
  decoder's concealment. It has 120 samples, all numbers between -1.0 and 1.0, and each is the clamped
  sum of the samples that the contributions have at its position; when a single peer contributes a
  frame, that frame is what is heard (-32768 as -32767).\<close>

theorem playout_frame_valid:
  assumes "node_inv key nd" "iterates (peer_iter E)"
  shows "(fst (playout_step E nd) \<noteq> None \<longleftrightarrow>
      (\<exists>(k, p) \<in> set (peers (peer_mgr nd)). contribution (opus_lib E) p \<noteq> None)) \<and>
    (\<forall>m. fst (playout_step E nd) = Some m \<longrightarrow>
      length m = 120 \<and> list_all (upto_abs 1) m \<and>
      (\<forall>n < 120. m ! n = f_clamp (Fin (- 1)) (Fin 1) (foldl (f_add F32) (Fin 0)
         (map (\<lambda>pcm. sample_to_f32 (pcm ! n)) (filter (\<lambda>pcm. n < length pcm) (contributions E nd))))) \<and>
      (\<forall>pcm. contributions E nd = [pcm] \<and> length pcm = 120 \<longrightarrow>
         f32_to_i16 m = map (\<lambda>s. if sint s = - 32768 then - 32767 else s) pcm))"
proof -
  let ?pcms = "contributions E nd" and ?out = "replicate 120 (Fin 0)"
  have step: "fst (playout_step E nd) = (if ?pcms = [] then None else Some (mix_peers (map i16_to_f32 ?pcms) ?out))"
    by (simp add: playout_step_def Let_def playout_bufs_contributions FRAME_SAMPLES_def)
  have "length ?pcms \<le> length (peer_iter E (peers (peer_mgr nd)))" by (simp add: contributions_def map_filter_def)
  also have "\<dots> \<le> 4"
    using iterates_length [OF assms(2)] assms(1) by (simp add: node_inv_def pm_inv_def table_ok_def)
  finally have "length ?pcms \<le> 1000000" by simp
  from mix_range [OF this, of ?out] have range: "length (mix_peers (map i16_to_f32 ?pcms) ?out) = 120 \<and>
    list_all (upto_abs 1) (mix_peers (map i16_to_f32 ?pcms) ?out)" by simp
  have nth: "mix_peers (map i16_to_f32 ?pcms) ?out ! n = f_clamp (Fin (- 1)) (Fin 1) (foldl (f_add F32) (Fin 0)
       (map (\<lambda>pcm. sample_to_f32 (pcm ! n)) (filter (\<lambda>pcm. n < length pcm) ?pcms)))" if "n < 120" for n
    using mix_nth [of n ?out ?pcms] that by simp
  have single: "f32_to_i16 (mix_peers (map i16_to_f32 ?pcms) ?out) = map (\<lambda>s. if sint s = - 32768 then - 32767 else s) pcm"
    if "?pcms = [pcm]" "length pcm = 120" for pcm
    using mix_single_peer_transparent [of pcm ?out] that by simp
  show ?thesis using contributions_Nil_iff [OF assms(2), of nd] range nth single by (auto simp: step split: if_splits)
qed

text \<open>Two frames of a connected peer have arrived: the first is heard.\<close>

theorem playout_frame_valid_witness:
  "\<exists>m. fst (playout_step demo_env (upd_node_peer 1 (\<lambda>p. p\<lparr>rp_jitter :=
       jb_push (jb_push (rp_jitter p) 7 (replicate 120 1000)) 8 (replicate 120 2000)\<rparr>) demo_node)) = Some m \<and>
     f32_to_i16 m = replicate 120 1000"
proof -
  let ?f = "\<lambda>p. p\<lparr>rp_jitter := jb_push (jb_push (rp_jitter p) 7 (replicate 120 1000)) 8 (replicate 120 2000)\<rparr>"
  let ?nd = "upd_node_peer 1 ?f demo_node"
  have "peer_keeps ?f" by (simp add: peer_keeps_def peer_ok_def jb_push_inv)
  then have inv: "node_inv (psk demo_env) ?nd" by (rule upd_node_peer_inv [OF demo_node_inv])
  have it: "iterates (peer_iter demo_env)" by (simp add: demo_env_def iterates_rev)
  have peers: "peers (peer_mgr ?nd) = [(1, ?f demo_peer)]" by (simp add: upd_node_peer_def upd_peer_def demo_node_def)
  have one: "contribution (opus_lib demo_env) (?f demo_peer) = Some (replicate 120 1000)"
    by (simp add: contribution_def demo_peer_def jb_pop_def jb_push_def jitter_buffer_new_def INITIAL_DEPTH_def
        MAX_DEPTH_def vec_insert_def comes_after_def SEQ_HALF_def)
  then have "contributions demo_env ?nd = [replicate 120 1000]"
    unfolding contributions_def peers by (simp add: demo_env_def map_filter_simps)
  with playout_frame_valid [OF inv it] one show ?thesis unfolding peers by (auto simp: map_replicate_const)
qed

text \<open>How the sound device slices its samples makes no difference: processing one batch of captured
  samples and then another is processing both at once, to the last packet sent; and what is left
  waiting afterwards is always shorter than a frame, so the loop has worked off everything it can.\<close>

theorem capture_slicing_irrelevant:
  "capture_step E A late (capture_step E A early st) = capture_step E A (early @ late) st \<and>
   length (capture_accum (fst (capture_step E A early st))) < FRAME_SAMPLES"
proof -
  let ?fin = "\<lambda>rest (st :: capture \<times> node). case st of (cap, nd) \<Rightarrow> (cap\<lparr>capture_accum := rest\<rparr>, nd)"
  let ?xs = "capture_accum (fst st) @ early"
  let ?rest = "drop (length ?xs div FRAME_SAMPLES * FRAME_SAMPLES) ?xs"
  let ?st = "foldl (\<lambda>s c. capture_frame E A c s) st (chunks_exact FRAME_SAMPLES ?xs)"
  have fin: "?fin r s = put_accum r s" for r s by (simp add: put_accum_def split: prod.splits)
  have one: "capture_step E A early st = put_accum ?rest ?st"
    by (simp add: capture_step_def capture_loop.loop_fold fin)
  have "capture_step E A late (put_accum ?rest ?st) = drain_capture E A (?rest @ late) (put_accum ?rest ?st)"
    by (simp add: capture_step_def put_accum_def)
  also have "\<dots> = drain_capture E A (?xs @ late) st"
    by (rule capture_loop.loop_slices) (simp_all add: fin capture_frame_accum, simp add: put_accum_def)
  also have "\<dots> = capture_step E A (early @ late) st" by (simp add: capture_step_def)
  finally have slices: "capture_step E A late (capture_step E A early st) = capture_step E A (early @ late) st"
    by (simp only: one)
  have "length ?rest = length ?xs mod FRAME_SAMPLES" by (simp only: length_drop minus_div_mult_eq_mod)
  also have "\<dots> < FRAME_SAMPLES" by (simp add: FRAME_SAMPLES_def)
  finally have "length (capture_accum (fst (capture_step E A early st))) < FRAME_SAMPLES"
    unfolding one by (simp add: put_accum_def)
  with slices show ?thesis by simp
qed

end
