(* ===== verification/Handshake.thy ===== *)
theory Handshake
  imports Run_Loop
begin

text \<open>
  Two nodes talking: the handlers of \<^verbatim>\<open>vc-core/src/lib.rs\<close> on both sides of a network that delivers what
  the other side handed to its socket. Joining a host, agreeing on a per-peer key, and what the
  fixed nonces of the control packets and the resets of the send counters amount to.
\<close>

section \<open>A working environment\<close>

text \<open>Sealing succeeds and opening inverts it, sends are accepted and decoders can be created.\<close>

definition env_ok :: "env \<Rightarrow> bool" where
  "env_ok E \<longleftrightarrow> aead_ok (prims E) \<and> (\<forall>k n a m. aead_encrypt (prims E) k n a m \<noteq> None) \<and>
     (\<forall>w a. send_ok E w a) \<and> opus_decoder_init (opus_lib E)"

lemma env_ok_seal:
  assumes "env_ok E"
  obtains c where "seal E ctx ty pid sn ctr m = Ok (header_to_bytes (packet_header_new ty pid sn ctr) @ c)"
    "encrypt (prims E) ctx (header_to_bytes (packet_header_new ty pid sn ctr)) m pid sn ctr = Ok c"
proof -
  obtain c where "aead_encrypt (prims E) (cipher_key ctx) (build_nonce (ctx_session_id ctx) pid Send sn ctr)
      (header_to_bytes (packet_header_new ty pid sn ctr)) m = Some c"
    using assms unfolding env_ok_def by blast
  then have "encrypt (prims E) ctx (header_to_bytes (packet_header_new ty pid sn ctr)) m pid sn ctr = Ok c"
    by (simp add: encrypt_def)
  then show ?thesis using that by (simp add: seal_def Let_def build_wire_packet_def)
qed

lemma env_ok_send [simp]: "env_ok E \<Longrightarrow> send_to E w a nd = (Ok (), nd\<lparr>outbox := outbox nd @ [(w, a)]\<rparr>)"
  by (simp add: send_to_def env_ok_def)

lemma env_ok_open:
  assumes "env_ok E" "prims E' = prims E"
    and "encrypt (prims E') tx (header_to_bytes (packet_header_new ty pid sn ctr)) m pid sn ctr = Ok c"
    and "cipher_key rx = cipher_key tx" "ctx_session_id rx = ctx_session_id tx"
  shows "open_packet E rx (header_to_bytes (packet_header_new ty pid sn ctr)) c (packet_header_new ty pid sn ctr) = Ok m"
  using assms by (intro open_sealed [where tx = tx]) (simp_all add: env_ok_def)

text \<open>The datagram a node sent last.\<close>

definition last_sent :: "node \<Rightarrow> bytes" where
  "last_sent nd = fst (last (outbox nd))"

section \<open>Joining\<close>

definition handshake ::
  "env \<Rightarrow> env \<Rightarrow> u16 \<Rightarrow> socket_addr \<Rightarrow> socket_addr \<Rightarrow> node \<Rightarrow> node \<Rightarrow> unit outcome list \<times> node \<times> node" where
  "handshake EJ EH port aJ aH nJ nH =
     (case send_join EJ port aH nJ of (r1, nJ1) \<Rightarrow>
      case handle_incoming EH (last_sent nJ1) aJ nH of (r2, nH1) \<Rightarrow>
      case handle_incoming EJ (last_sent nH1) aH nJ1 of (r3, nJ2) \<Rightarrow>
      case handle_incoming EH (last_sent nJ2) aJ nH1 of (r4, nH2) \<Rightarrow>
      case handle_incoming EJ (last_sent nH2) aH nJ2 of (r5, nJ3) \<Rightarrow>
        ([r1, r2, r3, r4, r5], nJ3, nH2))"

definition fresh_joiner :: "bytes \<Rightarrow> node" where
  "fresh_joiner key = \<lparr>peer_mgr = new_joiner, crypto_ctx = crypto_context_new key ZERO_SESSION, outbox = []\<rparr>"

definition fresh_host :: "bytes \<Rightarrow> bytes \<Rightarrow> node" where
  "fresh_host key sid = \<lparr>peer_mgr = new_host sid, crypto_ctx = crypto_context_new key sid, outbox = []\<rparr>"

text \<open>A peer with which nothing but greetings has been exchanged.\<close>

definition untouched :: "remote_peer \<Rightarrow> bool" where
  "untouched p \<longleftrightarrow> rp_jitter p = jitter_buffer_new \<and> rp_decoder p = \<lparr>dec_calls = []\<rparr> \<and>
     rp_replay_filter p = replay_filter_new \<and> peer_replay_filter p = replay_filter_new \<and>
     \<not> kx_sent p \<and> \<not> kx_received p \<and> peer_crypto p = None"

lemma untouched_greeting [simp]:
  "untouched (p\<lparr>state := st\<rparr>) = untouched p" "untouched (touch now p) = untouched p"
  by (simp_all add: untouched_def touch_def)

lemma env_ok_new_peer:
  assumes "env_ok E"
  obtains p where "remote_peer_new (opus_lib E) (clock E) pid a = Ok p" "rp_id p = pid" "addr p = a"
    "state p = Discovered" "untouched p"
proof -
  have "decoder_new (opus_lib E) = Ok \<lparr>dec_calls = []\<rparr>" using assms by (simp add: decoder_new_def env_ok_def)
  with that show ?thesis by (simp add: remote_peer_new_def untouched_def)
qed

lemmas handle_packet = handle_incoming_wire Let_def packet_header_new_def pkt_defs

text \<open>The host's answer to a JOIN when its table is empty.\<close>

lemma host_answers_join:
  assumes "env_ok EH" "psk EH = key" "local_address EH = Some hA" "\<not> is_unspecified (addr_ip hA)"
    and "iterates (peer_iter EH)"
    and "encrypt (prims EH) (crypto_context_new key ZERO_SESSION) (header_to_bytes (packet_header_new PKT_JOIN 0 0 0))
           (join_to_bytes j) 0 0 0 = Ok c"
  obtains p c' where "state p = Connected" "addr p = aJ" "rp_id p = 1" "untouched p" "last_seen p = clock EH"
    "encrypt (prims EH) (crypto_context_new key ZERO_SESSION) (header_to_bytes (packet_header_new PKT_PEER_LIST 0 0 0))
       (peer_list_to_bytes \<lparr>pl_session_id = sid, pl_peers = [(0, hA), (1, aJ)]\<rparr>) 0 0 0 = Ok c'"
    "handle_incoming EH (header_to_bytes (packet_header_new PKT_JOIN 0 0 0) @ c) aJ (fresh_host key sid) =
       (Ok (), (fresh_host key sid)\<lparr>peer_mgr := (new_host sid)\<lparr>peers := [(1, p)], addr_to_id := [aJ \<mapsto> 1], next_peer_id := 2\<rparr>,
          outbox := [(header_to_bytes (packet_header_new PKT_PEER_LIST 0 0 0) @ c', aJ)]\<rparr>)"
proof -
  obtain p0 where p0: "remote_peer_new (opus_lib EH) (clock EH) 1 aJ = Ok p0" "rp_id p0 = 1" "addr p0 = aJ"
    "untouched p0" using env_ok_new_peer [OF assms(1)] by metis
  let ?p = "touch (clock EH) (p0\<lparr>state := Connected\<rparr>)"
  let ?pl = "\<lparr>pl_session_id = sid, pl_peers = [(0, hA), (1, aJ)]\<rparr>"
  obtain c' where c': "seal EH (crypto_context_new key ZERO_SESSION) PKT_PEER_LIST 0 0 0 (peer_list_to_bytes ?pl) =
      Ok (header_to_bytes (packet_header_new PKT_PEER_LIST 0 0 0) @ c')"
    "encrypt (prims EH) (crypto_context_new key ZERO_SESSION) (header_to_bytes (packet_header_new PKT_PEER_LIST 0 0 0))
       (peer_list_to_bytes ?pl) 0 0 0 = Ok c'" using env_ok_seal [OF assms(1)] by metis
  have "open_packet EH (crypto_context_new key ZERO_SESSION) (header_to_bytes (packet_header_new PKT_JOIN 0 0 0)) c
      (packet_header_new PKT_JOIN 0 0 0) = Ok (join_to_bytes j)"
    using assms(1,6) by (intro env_ok_open [where E' = EH]) simp_all
  moreover have "join_from_bytes (join_to_bytes j) = Ok j" using join_wire.roundtrip by simp
  moreover have "peer_iter EH [x] = [x]" for x
    using iterates_set [OF assms(5), of "[x]"] iterates_length [OF assms(5), of "[x]"]
    by (cases "peer_iter EH [x]") auto
  ultimately have "handle_join EH (header_to_bytes (packet_header_new PKT_JOIN 0 0 0)) c (packet_header_new PKT_JOIN 0 0 0) aJ (fresh_host key sid) =
       (Ok (), (fresh_host key sid)\<lparr>peer_mgr := (new_host sid)\<lparr>peers := [(1, ?p)], addr_to_id := [aJ \<mapsto> 1], next_peer_id := 2\<rparr>,
          outbox := [(header_to_bytes (packet_header_new PKT_PEER_LIST 0 0 0) @ c', aJ)]\<rparr>)"
    using assms(1-4) p0 c'(1)
    by (simp add: handle_join_def fresh_host_def new_host_def allocate_peer_id_def MAX_PEERS_def node_add_peer_def
        add_peer_def get_peer_def upd_node_peer_def upd_peer_def build_peer_list_def touch_def Let_def)
  then have "handle_incoming EH (header_to_bytes (packet_header_new PKT_JOIN 0 0 0) @ c) aJ (fresh_host key sid) =
       (Ok (), (fresh_host key sid)\<lparr>peer_mgr := (new_host sid)\<lparr>peers := [(1, ?p)], addr_to_id := [aJ \<mapsto> 1], next_peer_id := 2\<rparr>,
          outbox := [(header_to_bytes (packet_header_new PKT_PEER_LIST 0 0 0) @ c', aJ)]\<rparr>)"
    by (simp add: handle_incoming_wire Let_def) (simp add: packet_header_new_def pkt_defs)
  with p0 c'(2) show ?thesis by (intro that [of ?p c']) (simp_all, simp_all add: touch_def)
qed

text \<open>The joiner's answer to the PEER_LIST: it takes the id 1 and the session, and greets the host at
  the address the packet came from.\<close>

lemma joiner_greets_host:
  assumes "env_ok EJ" "psk EJ = key" "prims EH = prims EJ" "length sid = 8" "wire_addr hA" "wire_addr aJ"
    and "encrypt (prims EH) (crypto_context_new key ZERO_SESSION) (header_to_bytes (packet_header_new PKT_PEER_LIST 0 0 0))
           (peer_list_to_bytes \<lparr>pl_session_id = sid, pl_peers = [(0, hA), (1, aJ)]\<rparr>) 0 0 0 = Ok c"
    and "nJ = (fresh_joiner key)\<lparr>outbox := ob\<rparr>"
  obtains p c' where "state p = HelloSent" "addr p = aH" "rp_id p = 0" "untouched p"
    "encrypt (prims EJ) (crypto_context_new key sid) (header_to_bytes (packet_header_new PKT_HELLO 1 0 0)) [] 1 0 0 = Ok c'"
    "handle_incoming EJ (header_to_bytes (packet_header_new PKT_PEER_LIST 0 0 0) @ c) aH nJ =
       (Ok (), \<lparr>peer_mgr = new_joiner\<lparr>local_id := 1, session_id := sid, peers := [(0, p)], addr_to_id := [aH \<mapsto> 0]\<rparr>,
          crypto_ctx = crypto_context_new key sid,
          outbox = ob @ [(header_to_bytes (packet_header_new PKT_HELLO 1 0 0) @ c', aH)]\<rparr>)"
proof -
  let ?pl = "\<lparr>pl_session_id = sid, pl_peers = [(0, hA), (1, aJ)]\<rparr>"
  obtain p0 where p0: "remote_peer_new (opus_lib EJ) (clock EJ) 0 aH = Ok p0" "rp_id p0 = 0" "addr p0 = aH"
    "untouched p0" using env_ok_new_peer [OF assms(1)] by metis
  let ?p = "p0\<lparr>state := HelloSent\<rparr>"
  obtain c' where c': "seal EJ (crypto_context_new key sid) PKT_HELLO 1 0 0 [] =
      Ok (header_to_bytes (packet_header_new PKT_HELLO 1 0 0) @ c')"
    "encrypt (prims EJ) (crypto_context_new key sid) (header_to_bytes (packet_header_new PKT_HELLO 1 0 0)) [] 1 0 0 = Ok c'"
    using env_ok_seal [OF assms(1)] by metis
  have o: "open_packet EJ (crypto_context_new key ZERO_SESSION) (header_to_bytes (packet_header_new PKT_PEER_LIST 0 0 0)) c
      (packet_header_new PKT_PEER_LIST 0 0 0) = Ok (peer_list_to_bytes ?pl)"
    using assms(1,3,7) by (intro env_ok_open [where E' = EH]) simp_all
  have w: "peer_list_from_bytes (peer_list_to_bytes ?pl) = Ok ?pl"
    using assms(4-6) by (intro peer_list_wire.roundtrip) (simp add: wire_peer_list_def)
  have m: "max_id [0, 1] = Some 1" by (simp add: max_id_def)
  have "handle_peer_list EJ (header_to_bytes (packet_header_new PKT_PEER_LIST 0 0 0)) c (packet_header_new PKT_PEER_LIST 0 0 0) aH nJ =
       (Ok (), \<lparr>peer_mgr = new_joiner\<lparr>local_id := 1, session_id := sid, peers := [(0, ?p)], addr_to_id := [aH \<mapsto> 0]\<rparr>,
          crypto_ctx = crypto_context_new key sid,
          outbox = ob @ [(header_to_bytes (packet_header_new PKT_HELLO 1 0 0) @ c', aH)]\<rparr>)"
    using assms(1,2,8) p0 c'(1) o w m
    by (simp add: handle_peer_list_def fresh_joiner_def new_joiner_def node_add_peer_def set_identity_def
        add_peer_def get_peer_def upd_node_peer_def upd_peer_def MAX_PEERS_def Let_def packet_header_new_def)
  then have "handle_incoming EJ (header_to_bytes (packet_header_new PKT_PEER_LIST 0 0 0) @ c) aH nJ =
       (Ok (), \<lparr>peer_mgr = new_joiner\<lparr>local_id := 1, session_id := sid, peers := [(0, ?p)], addr_to_id := [aH \<mapsto> 0]\<rparr>,
          crypto_ctx = crypto_context_new key sid,
          outbox = ob @ [(header_to_bytes (packet_header_new PKT_HELLO 1 0 0) @ c', aH)]\<rparr>)"
    by (simp add: handle_incoming_wire Let_def) (simp add: packet_header_new_def pkt_defs)
  with p0 c'(2) show ?thesis by (intro that [of ?p c']) simp_all
qed

text \<open>A HELLO from a known peer connects it and is acknowledged; an acknowledgement connects too.\<close>

lemma hello_connects:
  assumes "env_ok E" "prims E' = prims E" "psk E = key" "get_peer pid (peer_mgr nd) = Some p"
    and "encrypt (prims E') (crypto_context_new key (session_id (peer_mgr nd)))
           (header_to_bytes (packet_header_new PKT_HELLO pid 0 0)) [] pid 0 0 = Ok c"
  obtains c' where
    "encrypt (prims E) (crypto_context_new key (session_id (peer_mgr nd)))
       (header_to_bytes (packet_header_new PKT_HELLO_ACK (local_id (peer_mgr nd)) 0 0)) [] (local_id (peer_mgr nd)) 0 0 = Ok c'"
    "handle_incoming E (header_to_bytes (packet_header_new PKT_HELLO pid 0 0) @ c) src nd =
       (Ok (), (upd_node_peer pid (\<lambda>p. touch (clock E) (p\<lparr>state := Connected\<rparr>)) nd)
          \<lparr>outbox := outbox nd @ [(header_to_bytes (packet_header_new PKT_HELLO_ACK (local_id (peer_mgr nd)) 0 0) @ c', src)]\<rparr>)"
proof -
  let ?lid = "local_id (peer_mgr nd)" and ?ctx = "crypto_context_new key (session_id (peer_mgr nd))"
  obtain c' where c': "seal E ?ctx PKT_HELLO_ACK ?lid 0 0 [] =
      Ok (header_to_bytes (packet_header_new PKT_HELLO_ACK ?lid 0 0) @ c')"
    "encrypt (prims E) ?ctx (header_to_bytes (packet_header_new PKT_HELLO_ACK ?lid 0 0)) [] ?lid 0 0 = Ok c'"
    using env_ok_seal [OF assms(1)] by metis
  have "open_packet E ?ctx (header_to_bytes (packet_header_new PKT_HELLO pid 0 0)) c
      (packet_header_new PKT_HELLO pid 0 0) = Ok []"
    using assms by (intro env_ok_open [where E' = E']) simp_all
  then have "handle_hello E (header_to_bytes (packet_header_new PKT_HELLO pid 0 0)) c (packet_header_new PKT_HELLO pid 0 0) src nd =
       (Ok (), (upd_node_peer pid (\<lambda>p. touch (clock E) (p\<lparr>state := Connected\<rparr>)) nd)
          \<lparr>outbox := outbox nd @ [(header_to_bytes (packet_header_new PKT_HELLO_ACK ?lid 0 0) @ c', src)]\<rparr>)"
    using assms(1,3,4) c'(1)
    by (simp add: handle_hello_def Let_def upd_node_peer_def packet_header_new_def)
  then have "handle_incoming E (header_to_bytes (packet_header_new PKT_HELLO pid 0 0) @ c) src nd =
       (Ok (), (upd_node_peer pid (\<lambda>p. touch (clock E) (p\<lparr>state := Connected\<rparr>)) nd)
          \<lparr>outbox := outbox nd @ [(header_to_bytes (packet_header_new PKT_HELLO_ACK ?lid 0 0) @ c', src)]\<rparr>)"
    by (simp add: handle_incoming_wire Let_def) (simp add: packet_header_new_def pkt_defs)
  with c'(2) show ?thesis by (rule that)
qed

lemma hello_ack_connects:
  assumes "env_ok E" "prims E' = prims E" "psk E = key"
    and "encrypt (prims E') (crypto_context_new key (session_id (peer_mgr nd)))
           (header_to_bytes (packet_header_new PKT_HELLO_ACK pid 0 0)) [] pid 0 0 = Ok c"
  shows "handle_incoming E (header_to_bytes (packet_header_new PKT_HELLO_ACK pid 0 0) @ c) src nd =
    (Ok (), upd_node_peer pid (\<lambda>p. touch (clock E) (p\<lparr>state := Connected\<rparr>)) nd)"
proof -
  have "open_packet E (crypto_context_new key (session_id (peer_mgr nd)))
      (header_to_bytes (packet_header_new PKT_HELLO_ACK pid 0 0)) c (packet_header_new PKT_HELLO_ACK pid 0 0) = Ok []"
    using assms by (intro env_ok_open [where E' = E']) simp_all
  then have "handle_hello_ack E (header_to_bytes (packet_header_new PKT_HELLO_ACK pid 0 0)) c (packet_header_new PKT_HELLO_ACK pid 0 0) nd =
      (Ok (), upd_node_peer pid (\<lambda>p. touch (clock E) (p\<lparr>state := Connected\<rparr>)) nd)"
    using assms(3) by (simp add: handle_hello_ack_def packet_header_new_def)
  then show ?thesis
    by (simp add: handle_incoming_wire Let_def) (simp add: packet_header_new_def pkt_defs)
qed

text \<open>The nodes the five steps lead to.\<close>

lemma handshake_result:
  assumes "env_ok EJ" "env_ok EH" "prims EJ = prims EH" "psk EJ = key" "psk EH = key" "length sid = 8"
    and "local_address EH = Some hA" "\<not> is_unspecified (addr_ip hA)" "wire_addr hA" "wire_addr aJ"
    and "iterates (peer_iter EH)"
  obtains nJ nH pJ pH where "handshake EJ EH port aJ aH (fresh_joiner key) (fresh_host key sid) = (replicate 5 (Ok ()), nJ, nH)"
    "local_id (peer_mgr nJ) = 1" "session_id (peer_mgr nJ) = sid" "crypto_ctx nJ = crypto_context_new key sid"
    "local_id (peer_mgr nH) = 0" "session_id (peer_mgr nH) = sid" "crypto_ctx nH = crypto_context_new key sid"
    "get_peer 0 (peer_mgr nJ) = Some pJ" "state pJ = Connected" "addr pJ = aH" "untouched pJ"
    "get_peer 1 (peer_mgr nH) = Some pH" "state pH = Connected" "addr pH = aJ" "untouched pH"
proof -
  obtain c1 where c1: "seal EJ (crypto_context_new key ZERO_SESSION) PKT_JOIN 0 0 0 (join_to_bytes \<lparr>listen_port = port\<rparr>) =
      Ok (header_to_bytes (packet_header_new PKT_JOIN 0 0 0) @ c1)"
    "encrypt (prims EJ) (crypto_context_new key ZERO_SESSION) (header_to_bytes (packet_header_new PKT_JOIN 0 0 0))
       (join_to_bytes \<lparr>listen_port = port\<rparr>) 0 0 0 = Ok c1" using env_ok_seal [OF assms(1)] by metis
  let ?nJ1 = "(fresh_joiner key)\<lparr>outbox := [(header_to_bytes (packet_header_new PKT_JOIN 0 0 0) @ c1, aH)]\<rparr>"
  have s1: "send_join EJ port aH (fresh_joiner key) = (Ok (), ?nJ1)"
    using assms(1,4) c1(1) by (simp add: send_join_def) (simp add: fresh_joiner_def)
  obtain pH c2 where pH: "state pH = Connected" "addr pH = aJ" "untouched pH"
    and c2: "encrypt (prims EH) (crypto_context_new key ZERO_SESSION) (header_to_bytes (packet_header_new PKT_PEER_LIST 0 0 0))
       (peer_list_to_bytes \<lparr>pl_session_id = sid, pl_peers = [(0, hA), (1, aJ)]\<rparr>) 0 0 0 = Ok c2"
    and s2: "handle_incoming EH (header_to_bytes (packet_header_new PKT_JOIN 0 0 0) @ c1) aJ (fresh_host key sid) =
       (Ok (), (fresh_host key sid)\<lparr>peer_mgr := (new_host sid)\<lparr>peers := [(1, pH)], addr_to_id := [aJ \<mapsto> 1], next_peer_id := 2\<rparr>,
          outbox := [(header_to_bytes (packet_header_new PKT_PEER_LIST 0 0 0) @ c2, aJ)]\<rparr>)" (is "_ = (Ok (), ?nH1)")
    using host_answers_join [OF assms(2,5,7,8,11) c1(2) [unfolded assms(3)]] by metis
  obtain pJ c3 where pJ: "addr pJ = aH" "untouched pJ"
    and c3: "encrypt (prims EJ) (crypto_context_new key sid) (header_to_bytes (packet_header_new PKT_HELLO 1 0 0)) [] 1 0 0 = Ok c3"
    and s3: "handle_incoming EJ (header_to_bytes (packet_header_new PKT_PEER_LIST 0 0 0) @ c2) aH ?nJ1 =
       (Ok (), \<lparr>peer_mgr = new_joiner\<lparr>local_id := 1, session_id := sid, peers := [(0, pJ)], addr_to_id := [aH \<mapsto> 0]\<rparr>,
          crypto_ctx = crypto_context_new key sid,
          outbox = [(header_to_bytes (packet_header_new PKT_JOIN 0 0 0) @ c1, aH)] @
            [(header_to_bytes (packet_header_new PKT_HELLO 1 0 0) @ c3, aH)]\<rparr>)" (is "_ = (Ok (), ?nJ2)")
    using joiner_greets_host [OF assms(1,4) assms(3) [symmetric] assms(6,9,10) c2 refl] by metis
  have g: "get_peer 1 (peer_mgr ?nH1) = Some pH" "session_id (peer_mgr ?nH1) = sid" "local_id (peer_mgr ?nH1) = 0"
    by (simp_all add: get_peer_def new_host_def)
  obtain c4 where c4: "encrypt (prims EH) (crypto_context_new key sid) (header_to_bytes (packet_header_new PKT_HELLO_ACK 0 0 0)) [] 0 0 0 = Ok c4"
    and s4: "handle_incoming EH (header_to_bytes (packet_header_new PKT_HELLO 1 0 0) @ c3) aJ ?nH1 =
       (Ok (), (upd_node_peer 1 (\<lambda>p. touch (clock EH) (p\<lparr>state := Connected\<rparr>)) ?nH1)
          \<lparr>outbox := outbox ?nH1 @ [(header_to_bytes (packet_header_new PKT_HELLO_ACK 0 0 0) @ c4, aJ)]\<rparr>)" (is "_ = (Ok (), ?nH2)")
    using hello_connects [OF assms(2) assms(3) assms(5) g(1), of c3 aJ] c3 unfolding g(2,3) by metis
  have s5: "handle_incoming EJ (header_to_bytes (packet_header_new PKT_HELLO_ACK 0 0 0) @ c4) aH ?nJ2 =
      (Ok (), upd_node_peer 0 (\<lambda>p. touch (clock EJ) (p\<lparr>state := Connected\<rparr>)) ?nJ2)"
    using hello_ack_connects [OF assms(1) assms(3) [symmetric] assms(4), of ?nJ2 0 c4 aH] c4 by simp
  let ?con = "\<lambda>E p. touch (clock E) (p\<lparr>state := Connected\<rparr>)"
  have "handshake EJ EH port aJ aH (fresh_joiner key) (fresh_host key sid) =
      (replicate 5 (Ok ()), upd_node_peer 0 (?con EJ) ?nJ2, ?nH2)"
    unfolding handshake_def s1 prod.case last_sent_def using s2 s3 s4 s5 by (simp add: eval_nat_numeral)
  then show ?thesis
    by (rule that [of _ _ "?con EJ pJ" "?con EH pH"])
      (use pH pJ in \<open>simp_all add: upd_node_peer_def upd_peer_def get_peer_def fresh_host_def new_host_def\<close>,
       simp_all add: touch_def)
qed

section \<open>Key agreement\<close>

text \<open>One side sends its KEY_EXCHANGE on the ping timer, the other answers from its handler.\<close>

definition key_agreement ::
  "env \<Rightarrow> env \<Rightarrow> socket_addr \<Rightarrow> socket_addr \<Rightarrow> u8 \<Rightarrow> node \<Rightarrow> node \<Rightarrow> node \<times> node" where
  "key_agreement EA EB aA aB idB nA nB =
     (let nA1 = key_exchange_to EA (local_id (peer_mgr nA)) (idB, aB) nA in
      case handle_incoming EB (last_sent nA1) aA nB of (_, nB1) \<Rightarrow>
      case handle_incoming EA (last_sent nB1) aB nA1 of (_, nA2) \<Rightarrow> (nA2, nB1))"

lemma send_key_exchange_Ok:
  assumes "env_ok E" "psk E = key"
  obtains c where
    "encrypt (prims E) (crypto_context_new key sid) (header_to_bytes (packet_header_new PKT_KEY_EXCHANGE lid 0 0))
       (kx_public (key_pair E)) lid 0 0 = Ok c"
    "send_key_exchange E lid sid pid dst nd = upd_node_peer pid (\<lambda>p. p\<lparr>kx_sent := True\<rparr>)
       (nd\<lparr>outbox := outbox nd @ [(header_to_bytes (packet_header_new PKT_KEY_EXCHANGE lid 0 0) @ c, dst)]\<rparr>)"
proof -
  obtain c where "seal E (crypto_context_new key sid) PKT_KEY_EXCHANGE lid 0 0 (kx_public (key_pair E)) =
      Ok (header_to_bytes (packet_header_new PKT_KEY_EXCHANGE lid 0 0) @ c)"
    "encrypt (prims E) (crypto_context_new key sid) (header_to_bytes (packet_header_new PKT_KEY_EXCHANGE lid 0 0))
       (kx_public (key_pair E)) lid 0 0 = Ok c"
    using env_ok_seal [OF assms(1)] by metis
  with assms that show ?thesis by (simp add: send_key_exchange_def kx_to_bytes_def public_key_bytes_def)
qed

text \<open>What a KEY_EXCHANGE from a known peer does.\<close>

lemma key_exchange_received:
  assumes "env_ok E" "prims E' = prims E" "psk E = key" "length pub = 32"
    and "encrypt (prims E') (crypto_context_new key (session_id (peer_mgr nd)))
           (header_to_bytes (packet_header_new PKT_KEY_EXCHANGE pid 0 0)) pub pid 0 0 = Ok c"
    and "derive_peer_key (prims E) (key_pair E) pub (session_id (peer_mgr nd)) (local_id (peer_mgr nd)) pid = Ok dk"
    and "nd' = upd_node_peer pid (\<lambda>p. p\<lparr>peer_crypto := Some (crypto_context_new dk (session_id (peer_mgr nd))),
           kx_received := True\<rparr>) nd"
  shows "handle_incoming E (header_to_bytes (packet_header_new PKT_KEY_EXCHANGE pid 0 0) @ c) src nd =
    (Ok (), if (case get_peer pid (peer_mgr nd) of Some p \<Rightarrow> \<not> kx_sent p | None \<Rightarrow> False)
            then send_key_exchange E (local_id (peer_mgr nd)) (session_id (peer_mgr nd)) pid src nd' else nd')"
proof -
  have "open_packet E (crypto_context_new key (session_id (peer_mgr nd)))
      (header_to_bytes (packet_header_new PKT_KEY_EXCHANGE pid 0 0)) c (packet_header_new PKT_KEY_EXCHANGE pid 0 0) = Ok pub"
    using assms by (intro env_ok_open [where E' = E']) simp_all
  moreover have "kx_from_bytes pub = Ok \<lparr>public_key = pub\<rparr>" using assms(4) by (simp add: kx_from_bytes_def)
  moreover have "(case get_peer pid (peer_mgr nd') of Some p \<Rightarrow> \<not> kx_sent p | None \<Rightarrow> False) \<longleftrightarrow>
      (case get_peer pid (peer_mgr nd) of Some p \<Rightarrow> \<not> kx_sent p | None \<Rightarrow> False)"
    by (simp add: assms(7) get_upd_node_peer split: option.splits)
  ultimately have "handle_key_exchange E (header_to_bytes (packet_header_new PKT_KEY_EXCHANGE pid 0 0)) c
      (packet_header_new PKT_KEY_EXCHANGE pid 0 0) src nd =
    (Ok (), if (case get_peer pid (peer_mgr nd) of Some p \<Rightarrow> \<not> kx_sent p | None \<Rightarrow> False)
            then send_key_exchange E (local_id (peer_mgr nd)) (session_id (peer_mgr nd)) pid src nd' else nd')"
    using assms(3,6) by (simp add: handle_key_exchange_def Let_def assms(7) packet_header_new_def)
  then show ?thesis
    by (simp add: handle_incoming_wire Let_def) (simp add: packet_header_new_def pkt_defs)
qed

text \<open>The nodes the two messages lead to.\<close>

lemma key_agreement_result:
  assumes "env_ok EA" "env_ok EB" "prims EA = P" "prims EB = P" "dh_ok P" "psk EA = key" "psk EB = key"
    and "key_pair EA = key_exchange_new P sA" "key_pair EB = key_exchange_new P sB"
    and "session_id (peer_mgr nA) = sid" "session_id (peer_mgr nB) = sid"
    and "local_id (peer_mgr nA) = idA" "local_id (peer_mgr nB) = idB"
    and "get_peer idB (peer_mgr nA) = Some pA" "\<not> kx_sent pA" "get_peer idA (peer_mgr nB) = Some pB" "\<not> kx_sent pB"
    and "derive_peer_key P (key_pair EA) (kx_public (key_pair EB)) sid idA idB = Ok dk"
  obtains nA' nB' where "key_agreement EA EB aA aB idB nA nB = (nA', nB')"
    "get_peer idA (peer_mgr nB') = Some (pB\<lparr>peer_crypto := Some (crypto_context_new dk sid), kx_received := True, kx_sent := True\<rparr>)"
    "get_peer idB (peer_mgr nA') = Some (pA\<lparr>peer_crypto := Some (crypto_context_new dk sid), kx_received := True, kx_sent := True\<rparr>)"
    "local_id (peer_mgr nA') = idA" "local_id (peer_mgr nB') = idB"
proof -
  have pub: "length (kx_public (key_pair EA)) = 32" "length (kx_public (key_pair EB)) = 32"
    using assms(5,8,9) by (simp_all add: key_exchange_new_def dh_ok_def)
  have dB: "derive_peer_key (prims EB) (key_pair EB) (kx_public (key_pair EA)) sid idB idA = Ok dk"
    using derive_peer_key_comm [OF assms(5), of sB sA sid idB idA] assms(4,8,9,18) by (simp add: public_key_bytes_def)
  obtain c1 where c1: "encrypt (prims EA) (crypto_context_new key sid) (header_to_bytes (packet_header_new PKT_KEY_EXCHANGE idA 0 0))
       (kx_public (key_pair EA)) idA 0 0 = Ok c1"
    and s1: "send_key_exchange EA idA sid idB aB nA = upd_node_peer idB (\<lambda>p. p\<lparr>kx_sent := True\<rparr>)
       (nA\<lparr>outbox := outbox nA @ [(header_to_bytes (packet_header_new PKT_KEY_EXCHANGE idA 0 0) @ c1, aB)]\<rparr>)" (is "_ = ?nA1")
    using send_key_exchange_Ok [OF assms(1,6)] by metis
  define nB1 where "nB1 = upd_node_peer idA (\<lambda>p. p\<lparr>peer_crypto := Some (crypto_context_new dk sid), kx_received := True\<rparr>) nB"
  obtain c2 where c2: "encrypt (prims EB) (crypto_context_new key sid) (header_to_bytes (packet_header_new PKT_KEY_EXCHANGE idB 0 0))
       (kx_public (key_pair EB)) idB 0 0 = Ok c2"
    and s2: "send_key_exchange EB idB sid idA aA nB1 = upd_node_peer idA (\<lambda>p. p\<lparr>kx_sent := True\<rparr>)
       (nB1\<lparr>outbox := outbox nB1 @ [(header_to_bytes (packet_header_new PKT_KEY_EXCHANGE idB 0 0) @ c2, aA)]\<rparr>)" (is "_ = ?nB2")
    using send_key_exchange_Ok [OF assms(2,7)] by metis
  have k1: "key_exchange_to EA idA (idB, aB) nA = ?nA1"
    using assms(10,14,15) s1 by (simp add: key_exchange_to_def)
  have pr: "prims EA = prims EB" "prims EB = prims EA" using assms(3,4) by simp_all
  have r1: "handle_incoming EB (header_to_bytes (packet_header_new PKT_KEY_EXCHANGE idA 0 0) @ c1) aA nB = (Ok (), ?nB2)"
    using key_exchange_received [OF assms(2) pr(1) assms(7) pub(1), of nB idA c1 dk nB1 aA] c1 dB assms(11,13,16,17) s2
    by (simp add: nB1_def)
  have A1: "session_id (peer_mgr ?nA1) = sid" "local_id (peer_mgr ?nA1) = idA"
    "get_peer idB (peer_mgr ?nA1) = Some (pA\<lparr>kx_sent := True\<rparr>)"
    using assms(10,12,14) by (simp_all add: get_upd_node_peer) (simp_all add: upd_node_peer_def)
  define nA2 where "nA2 = upd_node_peer idB (\<lambda>p. p\<lparr>peer_crypto := Some (crypto_context_new dk sid), kx_received := True\<rparr>) ?nA1"
  have r2: "handle_incoming EA (header_to_bytes (packet_header_new PKT_KEY_EXCHANGE idB 0 0) @ c2) aB ?nA1 = (Ok (), nA2)"
    using key_exchange_received [OF assms(1) pr(2) assms(6) pub(2), of ?nA1 idB c2 dk nA2 aB] c2 assms(3,18)
    by (simp only: A1 nA2_def) simp
  have l: "last_sent ?nA1 = header_to_bytes (packet_header_new PKT_KEY_EXCHANGE idA 0 0) @ c1"
    "last_sent ?nB2 = header_to_bytes (packet_header_new PKT_KEY_EXCHANGE idB 0 0) @ c2"
    by (simp_all add: last_sent_def upd_node_peer_def)
  have "key_agreement EA EB aA aB idB nA nB = (nA2, ?nB2)"
    by (simp only: key_agreement_def Let_def assms(12) k1 l r1 r2 prod.case)
  moreover have "get_peer idA (peer_mgr ?nB2) = Some (pB\<lparr>peer_crypto := Some (crypto_context_new dk sid), kx_received := True, kx_sent := True\<rparr>)"
    using assms(16) by (simp add: get_upd_node_peer nB1_def)
  moreover have "get_peer idB (peer_mgr nA2) = Some (pA\<lparr>peer_crypto := Some (crypto_context_new dk sid), kx_received := True, kx_sent := True\<rparr>)"
    using assms(14) by (simp add: nA2_def get_upd_node_peer)
  moreover have "local_id (peer_mgr nA2) = idA" "local_id (peer_mgr ?nB2) = idB"
    using assms(12,13) by (simp_all add: nA2_def nB1_def upd_node_peer_def)
  ultimately show ?thesis by (rule that)
qed

section \<open>Properties\<close>

text \<open>Joining works end to end: with the same passphrase on both sides and a network that delivers,
  the five steps JOIN, PEER_LIST, HELLO, HELLO_ACK between a fresh joiner and a fresh host all
  succeed; afterwards the joiner has the id 1 and the host's session, each lists the other as
  connected under the address its packets came from, and both use the same PSK context.\<close>

theorem handshake_connects:
  assumes "env_ok EJ" "env_ok EH" "prims EJ = prims EH" "psk EJ = key" "psk EH = key" "length sid = 8"
    and "local_address EH = Some hA" "\<not> is_unspecified (addr_ip hA)" "wire_addr hA" "wire_addr aJ"
    and "iterates (peer_iter EH)"
  shows "case handshake EJ EH port aJ aH (fresh_joiner key) (fresh_host key sid) of (rs, nJ, nH) \<Rightarrow>
    rs = replicate 5 (Ok ()) \<and>
    local_id (peer_mgr nJ) = 1 \<and> session_id (peer_mgr nJ) = sid \<and>
    map_option (\<lambda>p. (state p, addr p)) (get_peer 0 (peer_mgr nJ)) = Some (Connected, aH) \<and>
    map_option (\<lambda>p. (state p, addr p)) (get_peer 1 (peer_mgr nH)) = Some (Connected, aJ) \<and>
    crypto_ctx nJ = crypto_context_new key sid \<and> crypto_ctx nH = crypto_context_new key sid"
proof -
  obtain nJ nH pJ pH where
    "handshake EJ EH port aJ aH (fresh_joiner key) (fresh_host key sid) = (replicate 5 (Ok ()), nJ, nH)"
    "local_id (peer_mgr nJ) = 1" "session_id (peer_mgr nJ) = sid" "crypto_ctx nJ = crypto_context_new key sid"
    "crypto_ctx nH = crypto_context_new key sid" "get_peer 0 (peer_mgr nJ) = Some pJ" "state pJ = Connected" "addr pJ = aH"
    "get_peer 1 (peer_mgr nH) = Some pH" "state pH = Connected" "addr pH = aJ"
    by (rule handshake_result [OF assms, of port aH])
  then show ?thesis by simp
qed

lemma demo_env_ok: "env_ok demo_env"
  by (simp add: env_ok_def demo_env_def demo_aead_ok) (simp add: demo_prims_def demo_opus_def)

theorem handshake_connects_witness:
  "fst (handshake demo_env demo_env 5001 (demo_addr 5001) (demo_addr 5000)
     (fresh_joiner (replicate 32 5)) (fresh_host (replicate 32 5) (replicate 8 7))) = replicate 5 (Ok ())"
proof -
  have "psk demo_env = replicate 32 5" "local_address demo_env = Some (demo_addr 5000)" "iterates (peer_iter demo_env)"
    "\<not> is_unspecified (addr_ip (demo_addr 5000))" "wire_addr (demo_addr 5000)" "wire_addr (demo_addr 5001)"
    by (simp_all add: demo_env_def demo_addr_def iterates_rev)
  with handshake_connects [of demo_env demo_env "replicate 32 5" "replicate 8 7" "demo_addr 5000" "demo_addr 5001"
      "demo_addr 5000" 5001] demo_env_ok
  show ?thesis by (simp add: split_beta)
qed

text \<open>Key agreement works end to end: when one side of a connected pair sends its KEY_EXCHANGE and
  the other has not sent one yet, then after the two messages both sides hold the same derived key
  under the session's id, with counters at zero, and both are marked as having sent and received.\<close>

theorem key_agreement_same_key:
  assumes "env_ok EA" "env_ok EB" "prims EA = P" "prims EB = P" "dh_ok P" "psk EA = key" "psk EB = key"
    and "key_pair EA = key_exchange_new P sA" "key_pair EB = key_exchange_new P sB"
    and "session_id (peer_mgr nA) = sid" "session_id (peer_mgr nB) = sid"
    and "local_id (peer_mgr nA) = idA" "local_id (peer_mgr nB) = idB"
    and "get_peer idB (peer_mgr nA) = Some pA" "\<not> kx_sent pA" "get_peer idA (peer_mgr nB) = Some pB" "\<not> kx_sent pB"
    and "derive_peer_key P (key_pair EA) (kx_public (key_pair EB)) sid idA idB = Ok dk"
  shows "case key_agreement EA EB aA aB idB nA nB of (nA', nB') \<Rightarrow>
    map_option (\<lambda>p. (peer_crypto p, kx_sent p, kx_received p)) (get_peer idB (peer_mgr nA')) =
      Some (Some (crypto_context_new dk sid), True, True) \<and>
    map_option (\<lambda>p. (peer_crypto p, kx_sent p, kx_received p)) (get_peer idA (peer_mgr nB')) =
      Some (Some (crypto_context_new dk sid), True, True)"
proof -
  obtain nA' nB' where "key_agreement EA EB aA aB idB nA nB = (nA', nB')"
    "get_peer idA (peer_mgr nB') = Some (pB\<lparr>peer_crypto := Some (crypto_context_new dk sid), kx_received := True, kx_sent := True\<rparr>)"
    "get_peer idB (peer_mgr nA') = Some (pA\<lparr>peer_crypto := Some (crypto_context_new dk sid), kx_received := True, kx_sent := True\<rparr>)"
    by (rule key_agreement_result [OF assms, of aA aB])
  then show ?thesis by simp
qed

theorem key_agreement_same_key_witness:
  "\<exists>dk nA nB. key_agreement demo_env (demo_env\<lparr>key_pair := key_exchange_new demo_prims [5]\<rparr>) (demo_addr 5000) (demo_addr 5001) 1
       demo_node (demo_node\<lparr>peer_mgr := (peer_mgr demo_node)\<lparr>local_id := 1, peers := [(0, demo_peer)]\<rparr>\<rparr>) = (nA, nB) \<and>
     map_option peer_crypto (get_peer 1 (peer_mgr nA)) = Some (Some (crypto_context_new dk (replicate 8 7))) \<and>
     map_option peer_crypto (get_peer 0 (peer_mgr nB)) = Some (Some (crypto_context_new dk (replicate 8 7)))"
proof -
  let ?EB = "demo_env\<lparr>key_pair := key_exchange_new demo_prims [5]\<rparr>"
  let ?nB = "demo_node\<lparr>peer_mgr := (peer_mgr demo_node)\<lparr>local_id := 1, peers := [(0, demo_peer)]\<rparr>\<rparr>"
  have eB: "env_ok ?EB" using demo_env_ok by (simp add: env_ok_def)
  have "x25519_dh demo_prims [3] (x25519_public demo_prims [5]) = replicate 32 15"
    by (simp add: demo_prims_def hd_append)
  moreover have "\<not> list_all (\<lambda>b. b = 0) (replicate 32 (15 :: u8))" by (simp add: list_all_iff)
  moreover have "\<exists>k. hkdf_sha256 demo_prims s i f l = Some k" for s i f l by (simp add: demo_prims_def)
  ultimately obtain dk where dk: "derive_peer_key demo_prims (key_pair demo_env) (kx_public (key_pair ?EB)) (replicate 8 7) 0 1 = Ok dk"
    by (auto simp: derive_peer_key_def demo_env_def key_exchange_new_def Let_def ok_or_eq_Ok split: prod.splits) metis
  have "prims demo_env = demo_prims" "prims ?EB = demo_prims" "psk demo_env = replicate 32 5" "psk ?EB = replicate 32 5"
    "key_pair demo_env = key_exchange_new demo_prims [3]" "key_pair ?EB = key_exchange_new demo_prims [5]"
    "session_id (peer_mgr demo_node) = replicate 8 7" "session_id (peer_mgr ?nB) = replicate 8 7"
    "local_id (peer_mgr demo_node) = 0" "local_id (peer_mgr ?nB) = 1"
    "get_peer 1 (peer_mgr demo_node) = Some demo_peer" "\<not> kx_sent demo_peer" "get_peer 0 (peer_mgr ?nB) = Some demo_peer"
    by (simp_all add: demo_env_def demo_node_def new_host_def get_peer_def demo_peer_def)
  note h = this
  from key_agreement_same_key [OF demo_env_ok eB h(1,2) demo_dh_ok h(3-6) h(7,8) h(9,10) h(11) h(12) h(13) h(12) dk,
      of "demo_addr 5000" "demo_addr 5001"]
  show ?thesis by (cases "key_agreement demo_env ?EB (demo_addr 5000) (demo_addr 5001) 1 demo_node ?nB") auto
qed

section \<open>A session that has been joined\<close>

text \<open>For the examples of other theories: at time 0 no timer is due, and a turn is what is received.\<close>

definition timers_zero :: timers where
  "timers_zero = \<lparr>last_playout = 0, last_keepalive = 0, last_adapt = 0, last_ping = 0, last_ui_update = 0\<rparr>"

lemma capture_idle:
  assumes "capture_accum (the_capture s) = []"
  shows "the_node (capture_part E A [] s) = the_node s" "the_timers (capture_part E A [] s) = the_timers s"
    "capture_accum (the_capture (capture_part E A [] s)) = []" "panicked (capture_part E A [] s) = panicked s"
  using assms by (simp_all add: capture_part_def capture_step_def drain_capture.simps FRAME_SAMPLES_def)

lemma turn_at_zero:
  assumes "the_timers s = timers_zero" "capture_accum (the_capture s) = []" "clock E = 0"
    and "handle_incoming E d src (the_node s) = (Ok (), nd)"
  shows "the_node (loop_turn E A (Some (d, src)) [] s) = nd" "capture_accum (the_capture (loop_turn E A (Some (d, src)) [] s)) = []"
    "the_timers (loop_turn E A (Some (d, src)) [] s) = timers_zero" "\<not> panicked (loop_turn E A (Some (d, src)) [] s)"
proof -
  let ?r = "receive_part E (Some (d, src)) (sync_controls s)" let ?c = "capture_part E A [] ?r"
  let ?t = "loop_turn E A (Some (d, src)) [] s"
  have r: "the_node ?r = nd" "the_timers ?r = the_timers s" "capture_accum (the_capture ?r) = []" "\<not> panicked ?r"
    using assms(2,4) by (simp_all add: receive_part_def sync_controls_def Let_def)
  have z: "as_secs_f64 0 = Fin 0" by (rule as_secs_f64_cases [of 0]) simp_all
  note c = capture_idle [OF r(3), of E A]
  have "playout_part E ?c = ?c" using assms(1,3) r(2) c(2) by (simp add: playout_part_def FRAME_DURATION_US_def timers_zero_def)
  then have "?t = ?c" using assms(1,3) r(2,4) c(2)
    by (simp add: loop_turn_def Let_def keepalive_part_def ping_part_def adapt_part_def ui_part_def PING_INTERVAL_SECS_def z timers_zero_def)
  then show "the_node ?t = nd" "capture_accum (the_capture ?t) = []" "the_timers ?t = timers_zero" "\<not> panicked ?t"
    using c r assms(1) by simp_all
qed

lemma demo_joined:
  obtains s p where "reach (session_start (replicate 32 5)) (session_step (replicate 32 5)) s"
    "get_peer 1 (peer_mgr (the_node s)) = Some p" "state p = Connected" "last_seen p = 0" "untouched p"
    "peers (peer_mgr (the_node s)) = [(1, p)]" "session_id (peer_mgr (the_node s)) = replicate 8 7"
    "crypto_ctx (the_node s) = crypto_context_new (replicate 32 5) (replicate 8 7)"
    "the_timers s = timers_zero" "capture_accum (the_capture s) = []" "\<not> panicked s"
proof -
  let ?E = "demo_env\<lparr>clock := 0\<rparr>" and ?h = "header_to_bytes (packet_header_new PKT_JOIN 0 0 0)" and ?key = "replicate 32 5 :: bytes"
  have ok: "env_ok ?E" using demo_env_ok by (simp add: env_ok_def)
  obtain c where c: "encrypt (prims ?E) (crypto_context_new ?key ZERO_SESSION) ?h (join_to_bytes \<lparr>listen_port = 1\<rparr>) 0 0 0 = Ok c"
    using env_ok_seal [OF ok] by metis
  have e: "psk ?E = ?key" "local_address ?E = Some (demo_addr 5000)" "\<not> is_unspecified (addr_ip (demo_addr 5000))" "iterates (peer_iter ?E)"
    by (simp_all add: demo_env_def demo_addr_def iterates_rev)
  obtain p c' where p: "state p = Connected" "untouched p" "last_seen p = clock ?E"
    and h: "handle_incoming ?E (?h @ c) (demo_addr 5001) (fresh_host ?key (replicate 8 7)) =
       (Ok (), (fresh_host ?key (replicate 8 7))\<lparr>peer_mgr := (new_host (replicate 8 7))\<lparr>peers := [(1, p)],
            addr_to_id := [demo_addr 5001 \<mapsto> 1], next_peer_id := 2\<rparr>,
          outbox := [(header_to_bytes (packet_header_new PKT_PEER_LIST 0 0 0) @ c', demo_addr 5001)]\<rparr>)"
    using host_answers_join [OF ok e c, of "demo_addr 5001" "replicate 8 7"] by blast
  define nd where "nd = snd (handle_incoming ?E (?h @ c) (demo_addr 5001) (fresh_host ?key (replicate 8 7)))"
  let ?s = "loop_turn ?E demo_audio_env (Some (?h @ c, demo_addr 5001)) [] demo_session"
  have "the_node demo_session = fresh_host ?key (replicate 8 7)" by (simp add: demo_session_def fresh_host_def)
  then have inc: "handle_incoming ?E (?h @ c) (demo_addr 5001) (the_node demo_session) = (Ok (), nd)"
    using h by (simp add: nd_def)
  have nd: "get_peer 1 (peer_mgr nd) = Some p" "peers (peer_mgr nd) = [(1, p)]" "session_id (peer_mgr nd) = replicate 8 7"
    "crypto_ctx nd = crypto_context_new ?key (replicate 8 7)"
    by (simp_all add: nd_def h get_peer_def) (simp_all add: fresh_host_def new_host_def)
  have d: "the_timers demo_session = timers_zero" "capture_accum (the_capture demo_session) = []"
    by (simp_all add: demo_session_def timers_zero_def)
  have s: "the_node ?s = nd" "capture_accum (the_capture ?s) = []" "the_timers ?s = timers_zero" "\<not> panicked ?s"
    using turn_at_zero [OF d _ inc, of demo_audio_env] by simp_all
  have st: "session_start ?key demo_session"
    by (auto simp: session_start_def demo_session_def intro!: exI [of _ "replicate 8 7"])
  have "session_step ?key demo_session ?s" by (rule step_turn) (simp_all add: demo_env_def iterates_rev)
  then have "reach (session_start ?key) (session_step ?key) ?s" by (rule reach_step [OF reach_start [of "session_start ?key", OF st]])
  then show ?thesis by (rule that [of ?s p]) (use s p nd in simp_all)
qed

end
