(* ===== verification/Audio.thy ===== *)
theory Audio
  imports Latency Codec "HOL-Library.Sublist"
begin

text \<open>
  \<^verbatim>\<open>vc-core/src/audio.rs\<close>: which stream configurations are tried on a sound device and in which order,
  and the callbacks that move samples between the device and the ring buffers, with down-mixing of
  captured channels, up-mixing for playout, silence on underrun and the accounting of overflows.
  The ring buffer (crate \<^verbatim>\<open>ringbuf\<close>) and the devices (crate \<^verbatim>\<open>cpal\<close>) are parameters.
\<close>

section \<open>Constants and parameters\<close>

definition DESIRED_BUFFER_SAMPLES :: u32 where "DESIRED_BUFFER_SAMPLES = 96"
definition RING_BUFFER_CAPACITY :: nat where "RING_BUFFER_CAPACITY = 9600"

text \<open>The operations of a ring buffer with states \<^typ>\<open>'r\<close>: a new one of a capacity; writing a slice,
  which returns how many samples were taken; reading into a slice of a length, which returns the
  samples read.\<close>

record 'r ring_ops =
  ring_new :: "nat \<Rightarrow> 'r"
  push_slice :: "fl list \<Rightarrow> 'r \<Rightarrow> nat \<times> 'r"
  pop_slice :: "nat \<Rightarrow> 'r \<Rightarrow> fl list \<times> 'r"

text \<open>What the crate documents: a first-in first-out queue, \<open>contents\<close>, of a fixed capacity; a write
  takes the longest prefix that fits, a read the longest prefix that is there.\<close>

definition ring_ok :: "'r ring_ops \<Rightarrow> ('r \<Rightarrow> fl list) \<Rightarrow> nat \<Rightarrow> bool" where
  "ring_ok R contents cap \<longleftrightarrow>
     contents (ring_new R cap) = [] \<and>
     (\<forall>r xs. length (contents r) \<le> cap \<longrightarrow>
        (case push_slice R xs r of (n, r') \<Rightarrow>
           n = min (length xs) (cap - length (contents r)) \<and> contents r' = contents r @ take n xs)) \<and>
     (\<forall>r n. case pop_slice R n r of (ys, r') \<Rightarrow>
        ys = take n (contents r) \<and> contents r' = drop n (contents r))"

definition create_audio_ring_buffer :: "'r ring_ops \<Rightarrow> 'r" where
  "create_audio_ring_buffer R = ring_new R RING_BUFFER_CAPACITY"

section \<open>Stream configurations\<close>

datatype buffer_size = BufferDefault | BufferFixed u32

record stream_config =
  channels :: u16
  sample_rate :: u32
  buffer_size_of :: buffer_size

definition build_stream_config :: "u16 \<Rightarrow> buffer_size \<Rightarrow> stream_config" where
  "build_stream_config ch bs =
     \<lparr>channels = ch, sample_rate = word_of_nat SAMPLE_RATE, buffer_size_of = bs\<rparr>"

definition candidate_configs :: "stream_config option \<Rightarrow> stream_config list" where
  "candidate_configs device_default =
     [build_stream_config 1 (BufferFixed DESIRED_BUFFER_SAMPLES), build_stream_config 1 BufferDefault] @
     (case device_default of
        None \<Rightarrow> []
      | Some dev \<Rightarrow>
          if channels dev > 1 then
            [build_stream_config 2 (BufferFixed DESIRED_BUFFER_SAMPLES), build_stream_config 2 BufferDefault] @
            (if channels dev \<noteq> 2 then
               [build_stream_config (channels dev) (BufferFixed DESIRED_BUFFER_SAMPLES),
                build_stream_config (channels dev) BufferDefault]
             else [])
          else [])"

section \<open>Devices\<close>

text \<open>A device in one direction: its name when it can be read, its default configuration, and which
  configurations a stream can be built and started with. A host lists devices, or fails to.\<close>

record device =
  dev_name :: "string option"
  default_config :: "stream_config option"
  builds :: "stream_config \<Rightarrow> bool"
  plays :: "stream_config \<Rightarrow> bool"

record audio_host =
  input_devs :: "device list option"
  output_devs :: "device list option"
  default_input_device :: "device option"
  default_output_device :: "device option"

definition list_input_devices :: "audio_host \<Rightarrow> string list outcome" where
  "list_input_devices H =
     and_then (ok_or DeviceListFailed (input_devs H)) (\<lambda>ds. Ok (List.map_filter dev_name ds))"

definition list_output_devices :: "audio_host \<Rightarrow> string list outcome" where
  "list_output_devices H =
     and_then (ok_or DeviceListFailed (output_devs H)) (\<lambda>ds. Ok (List.map_filter dev_name ds))"

definition pick_device :: "device list option \<Rightarrow> device option \<Rightarrow> string option \<Rightarrow> device outcome" where
  "pick_device devices fallback device_name =
     (case device_name of
        Some name \<Rightarrow> and_then (ok_or DeviceListFailed devices) (\<lambda>ds.
          ok_or (DeviceNotFound name) (List.find (\<lambda>d. dev_name d = Some name) ds))
      | None \<Rightarrow> ok_or NoDefaultDevice fallback)"

text \<open>The loop over the candidates: the first one the device can build a stream for is used, and its
  failure to start is final.\<close>

fun try_configs :: "device \<Rightarrow> stream_config list \<Rightarrow> stream_config outcome" where
  "try_configs d [] = Err NoSupportedConfig"
| "try_configs d (config # configs) =
     (if builds d config then (if plays d config then Ok config else Err StreamPlayFailed)
      else try_configs d configs)"

definition start_capture :: "audio_host \<Rightarrow> string option \<Rightarrow> stream_config outcome" where
  "start_capture H device_name =
     and_then (pick_device (input_devs H) (default_input_device H) device_name)
       (\<lambda>d. try_configs d (candidate_configs (default_config d)))"

definition start_playout :: "audio_host \<Rightarrow> string option \<Rightarrow> stream_config outcome" where
  "start_playout H device_name =
     and_then (pick_device (output_devs H) (default_output_device H) device_name)
       (\<lambda>d. try_configs d (candidate_configs (default_config d)))"

section \<open>Capture callbacks\<close>

text \<open>The state of a capture callback: the ring buffer and the dropped samples not yet reported.\<close>

record 'r capture_cb =
  cb_ring :: 'r
  overflow_samples :: nat
  overflow_log_time :: "instant option"

text \<open>The common part: write the mono samples; when they do not all fit, count the dropped ones and
  report at most every two seconds. The list is the reports made.\<close>

definition push_captured :: "'r ring_ops \<Rightarrow> instant \<Rightarrow> fl list \<Rightarrow> 'r capture_cb \<Rightarrow> nat list \<times> 'r capture_cb" where
  "push_captured R now samples cb =
     (case push_slice R samples (cb_ring cb) of (written, r) \<Rightarrow>
      let cb = cb\<lparr>cb_ring := r\<rparr> in
      if written < length samples then
        let cb = cb\<lparr>overflow_samples := overflow_samples cb + (length samples - written)\<rparr>;
            should_log = (case overflow_log_time cb of Some t \<Rightarrow> now - t \<ge> 2000000000 | None \<Rightarrow> True)
        in if should_log
           then ([overflow_samples cb], cb\<lparr>overflow_samples := 0, overflow_log_time := Some now\<rparr>)
           else ([], cb)
      else ([], cb))"

definition capture_mono_cb :: "'r ring_ops \<Rightarrow> instant \<Rightarrow> bool \<Rightarrow> fl list \<Rightarrow> 'r capture_cb \<Rightarrow> nat list \<times> 'r capture_cb" where
  "capture_mono_cb R now running data cb = (if \<not> running then ([], cb) else push_captured R now data cb)"

definition downmix_frame :: "nat \<Rightarrow> fl list \<Rightarrow> fl" where
  "downmix_frame ch frame = f_div F32 (foldl (f_add F32) (Fin 0) frame) (f_of_int F32 (int ch))"

definition downmix :: "nat \<Rightarrow> fl list \<Rightarrow> fl list" where
  "downmix ch data = map (downmix_frame ch) (chunks_exact ch data)"

definition capture_downmix_cb ::
  "'r ring_ops \<Rightarrow> nat \<Rightarrow> instant \<Rightarrow> bool \<Rightarrow> fl list \<Rightarrow> 'r capture_cb \<Rightarrow> (nat list \<times> 'r capture_cb) outcome" where
  "capture_downmix_cb R ch now running data cb =
     (if \<not> running then Ok ([], cb)
      else if ch = 0 then Panic
      else Ok (push_captured R now (downmix ch data) cb))"

text \<open>The callback \<^verbatim>\<open>start_capture\<close> installs for a configuration.\<close>

definition capture_callback ::
  "'r ring_ops \<Rightarrow> stream_config \<Rightarrow> instant \<Rightarrow> bool \<Rightarrow> fl list \<Rightarrow> 'r capture_cb \<Rightarrow> (nat list \<times> 'r capture_cb) outcome" where
  "capture_callback R config now running data cb =
     (let ch = unat (channels config) in
      if ch = 1 then Ok (capture_mono_cb R now running data cb)
      else capture_downmix_cb R ch now running data cb)"

section \<open>Playout callbacks\<close>

definition playout_mono_cb :: "'r ring_ops \<Rightarrow> bool \<Rightarrow> fl list \<Rightarrow> 'r \<Rightarrow> fl list \<times> 'r" where
  "playout_mono_cb R running data r =
     (if \<not> running then (replicate (length data) (Fin 0), r)
      else case pop_slice R (length data) r of (ys, r) \<Rightarrow>
        (ys @ replicate (length data - length ys) (Fin 0), r))"

text \<open>The two loops of the up-mix: over the channels of one frame, over the frames.\<close>

fun fill_frame :: "nat \<Rightarrow> nat \<Rightarrow> fl \<Rightarrow> fl list \<Rightarrow> fl list" where
  "fill_frame 0 base s data = data"
| "fill_frame (Suc ch) base s data = (fill_frame ch base s data)[base + ch := s]"

fun upmix_frames :: "nat \<Rightarrow> nat \<Rightarrow> fl list \<Rightarrow> fl list \<Rightarrow> fl list" where
  "upmix_frames ch 0 mono_buf data = data"
| "upmix_frames ch (Suc i) mono_buf data =
     fill_frame ch (i * ch) (if i < length mono_buf then mono_buf ! i else Fin 0) (upmix_frames ch i mono_buf data)"

definition playout_upmix_cb :: "'r ring_ops \<Rightarrow> nat \<Rightarrow> bool \<Rightarrow> fl list \<Rightarrow> 'r \<Rightarrow> (fl list \<times> 'r) outcome" where
  "playout_upmix_cb R ch running data r =
     (if \<not> running then Ok (replicate (length data) (Fin 0), r)
      else if ch = 0 then Panic
      else case pop_slice R (length data div ch) r of (ys, r) \<Rightarrow>
        Ok (upmix_frames ch (length data div ch) ys data, r))"

text \<open>The callback \<^verbatim>\<open>start_playout\<close> installs for a configuration; \<open>data\<close> is the buffer as handed over.\<close>

definition playout_callback :: "'r ring_ops \<Rightarrow> stream_config \<Rightarrow> bool \<Rightarrow> fl list \<Rightarrow> 'r \<Rightarrow> (fl list \<times> 'r) outcome" where
  "playout_callback R config running data r =
     (let ch = unat (channels config) in
      if ch = 1 then Ok (playout_mono_cb R running data r) else playout_upmix_cb R ch running data r)"

section \<open>Capture over time\<close>

text \<open>The capture callback runs in its own thread, the session reads from the other end of the ring
  buffer; a history is an interleaving of the two.\<close>

datatype capture_event = Captured instant "fl list" | Drained nat

fun capture_run ::
  "'r ring_ops \<Rightarrow> stream_config \<Rightarrow> capture_event list \<Rightarrow> 'r capture_cb \<Rightarrow> (fl list \<times> nat list \<times> 'r capture_cb) outcome" where
  "capture_run R config [] cb = Ok ([], [], cb)"
| "capture_run R config (Captured now data # es) cb =
     and_then (capture_callback R config now True data cb) (\<lambda>(rep, cb).
     and_then (capture_run R config es cb) (\<lambda>(rd, rep', cb). Ok (rd, rep @ rep', cb)))"
| "capture_run R config (Drained n # es) cb =
     (case pop_slice R n (cb_ring cb) of (ys, r) \<Rightarrow>
      and_then (capture_run R config es (cb\<lparr>cb_ring := r\<rparr>)) (\<lambda>(rd, rep, cb). Ok (ys @ rd, rep, cb)))"

text \<open>The mono samples the device delivered.\<close>

definition mono_of :: "stream_config \<Rightarrow> fl list \<Rightarrow> fl list" where
  "mono_of config data = (if channels config = 1 then data else downmix (unat (channels config)) data)"

fun delivered_samples :: "stream_config \<Rightarrow> capture_event list \<Rightarrow> fl list" where
  "delivered_samples config [] = []"
| "delivered_samples config (Captured now data # es) = mono_of config data @ delivered_samples config es"
| "delivered_samples config (Drained n # es) = delivered_samples config es"

section \<open>Configurations\<close>

lemma candidate_channels: "c \<in> set (candidate_configs dd) \<Longrightarrow> channels c \<noteq> 0"
  by (auto simp: candidate_configs_def build_stream_config_def split: option.splits if_splits)

lemma try_configs_Ok:
  "try_configs d cs = Ok c \<Longrightarrow>
     \<exists>before after. cs = before @ c # after \<and> list_all (\<lambda>b. \<not> builds d b) before \<and> builds d c \<and> plays d c"
proof (induction cs)
  case (Cons b cs)
  show ?case
  proof (cases "builds d b")
    case True
    with Cons.prems have "b # cs = [] @ c # cs" "builds d c \<and> plays d c" by (simp_all split: if_splits)
    then show ?thesis by (metis list.pred_inject(1))
  next
    case False
    with Cons obtain before after where
      "cs = before @ c # after \<and> list_all (\<lambda>b. \<not> builds d b) before \<and> builds d c \<and> plays d c" by auto
    with False have "b # cs = (b # before) @ c # after" "list_all (\<lambda>b. \<not> builds d b) (b # before)"
      "builds d c \<and> plays d c" by simp_all
    then show ?thesis by blast
  qed
qed simp

section \<open>Up-mix and down-mix\<close>

lemma fill_frame_eq:
  "base + ch \<le> length data \<Longrightarrow>
     fill_frame ch base s data = take base data @ replicate ch s @ drop (base + ch) data"
proof (induction ch)
  case (Suc ch)
  then have "drop (base + ch) data = data ! (base + ch) # drop (base + Suc ch) data"
    by (simp add: Cons_nth_drop_Suc)
  with Suc show ?case
    by (simp add: list_update_append replicate_append_same flip: replicate_Suc)
qed simp

lemma upmix_frames_eq:
  assumes "n * ch \<le> length data"
  shows "upmix_frames ch n ys data =
    concat (map (\<lambda>i. replicate ch (if i < length ys then ys ! i else Fin 0)) [0..<n]) @ drop (n * ch) data"
  using assms
proof (induction n)
  case (Suc n)
  let ?out = "concat (map (\<lambda>i. replicate ch (if i < length ys then ys ! i else Fin 0)) [0..<n])"
  have l: "length ?out = n * ch" by (simp add: length_concat comp_def sum_list_triv)
  from Suc have IH: "upmix_frames ch n ys data = ?out @ drop (n * ch) data" by simp
  show ?case using Suc.prems l
    by (simp add: IH fill_frame_eq add.commute)
qed simp

lemma nth_concat_replicate:
  "i < n \<Longrightarrow> c < ch \<Longrightarrow> concat (map (\<lambda>i. replicate ch (f i)) [0..<n]) ! (i * ch + c) = f i"
proof (induction n)
  case (Suc n)
  have l: "length (concat (map (\<lambda>i. replicate ch (f i)) [0..<n])) = n * ch"
    by (simp add: length_concat comp_def sum_list_triv)
  show ?case
  proof (cases "i < n")
    case True
    then have "Suc i * ch \<le> n * ch" by (intro mult_le_mono1) simp
    then have "i * ch + c < n * ch" using Suc.prems(2) by simp
    with True Suc show ?thesis by (simp add: nth_append l)
  next
    case False
    with Suc.prems have "i = n" by simp
    with Suc.prems show ?thesis by (simp add: nth_append l)
  qed
qed simp

lemma representable_double: "representable fmt q \<Longrightarrow> representable fmt (q + q)"
proof -
  assume "representable fmt q"
  then obtain m e where me: "q = of_int m * 2 powi e" "\<bar>m\<bar> < 2 ^ fprec fmt" "fmin_exp fmt \<le> e"
    unfolding representable_def by blast
  have "q + q = of_int m * 2 powi (e + 1)" by (simp add: me(1) power_int_add)
  with me(2,3) show ?thesis unfolding representable_def by (intro exI [of _ m] exI [of _ "e + 1"]) simp
qed

lemma sample_f32_representable: "\<exists>q. sample_to_f32 s = Fin q \<and> representable F32 q \<and> \<bar>q\<bar> < 2 ^ 126"
proof -
  have "- 32768 \<le> sint s" "sint s \<le> 32767" using sint_i16 [of s] by auto
  then have "of_int (- 32768) \<le> (of_int (sint s) :: rat)" "(of_int (sint s) :: rat) \<le> of_int 32767"
    by (simp_all only: of_int_le_iff)
  then have "- 2 \<le> of_int (sint s) / (32767 :: rat)" "of_int (sint s) / (32767 :: rat) \<le> 2" by simp_all
  moreover have "representable F32 2" "representable F32 (- 2)"
    using representable_int [of 2 F32] representable_int [of "- 2" F32] by simp_all
  ultimately have "- 2 \<le> to_unit (sint s)" "to_unit (sint s) \<le> 2"
    using fround_between [of "- 2" "of_int (sint s) / 32767" 2 F32] by (auto simp: to_unit_def power_int_def)
  then have "\<bar>to_unit (sint s)\<bar> \<le> 2" by simp
  also have "(2 :: rat) < 2 ^ 126" by simp
  finally show ?thesis by (simp add: sample_to_f32_Fin to_unit_def round_fmt_representable)
qed

lemma downmix_stereo:
  assumes "representable F32 q" "\<bar>q\<bar> < 2 ^ 126"
  shows "downmix_frame 2 [Fin q, Fin q] = Fin q"
proof -
  have "fround F32 q = Fin q" "fround F32 (q + q) = Fin (q + q)"
    using assms representable_double by (auto intro!: fround_exact simp: power_int_def)
  moreover have "f_of_int F32 2 = Fin 2"
    using fround_exact [OF representable_int [of 2 F32]] by (simp add: f_of_int_def power_int_def)
  ultimately show ?thesis by (simp add: downmix_frame_def)
qed

section \<open>Ring buffers\<close>

lemma ring_okD:
  assumes "ring_ok R contents cap"
  shows "contents (ring_new R cap) = []"
    and "length (contents r) \<le> cap \<Longrightarrow> push_slice R xs r = (n, r') \<Longrightarrow>
      n = min (length xs) (cap - length (contents r)) \<and> contents r' = contents r @ take n xs"
    and "pop_slice R k r = (ys, r') \<Longrightarrow> ys = take k (contents r) \<and> contents r' = drop k (contents r)"
  using assms unfolding ring_ok_def by (fastforce split: prod.splits)+

lemma push_captured_conserves:
  assumes "ring_ok R contents cap" "length (contents (cb_ring cb)) \<le> cap" "push_captured R now xs cb = (rep, cb')"
  obtains n where "n \<le> length xs" "contents (cb_ring cb') = contents (cb_ring cb) @ take n xs"
    "length (contents (cb_ring cb')) \<le> cap"
    "sum_list rep + overflow_samples cb' + n = overflow_samples cb + length xs"
proof -
  obtain n r where p: "push_slice R xs (cb_ring cb) = (n, r)" by fastforce
  note n = ring_okD(2) [OF assms(1,2) p]
  then have "n \<le> length xs" "length (contents r) \<le> cap" using assms(2) by auto
  with n p assms(3) show ?thesis
    by (intro that [of n]) (auto simp: push_captured_def Let_def split: if_splits)
qed

lemma capture_callback_mono:
  assumes "channels config \<noteq> 0"
  shows "capture_callback R config now True data cb = Ok (push_captured R now (mono_of config data) cb)"
proof -
  have "unat (channels config) \<noteq> 0" using assms by (simp add: unat_eq_0)
  moreover have "unat (channels config) = 1 \<longleftrightarrow> channels config = 1" by (metis unat_1 word_unat_eq_iff)
  ultimately show ?thesis
    by (simp add: capture_callback_def capture_mono_cb_def capture_downmix_cb_def mono_of_def Let_def)
qed

lemma capture_run_conserves:
  assumes "ring_ok R contents cap" "channels config \<noteq> 0" "length (contents (cb_ring cb)) \<le> cap"
  shows "\<exists>rd rep cb'. capture_run R config es cb = Ok (rd, rep, cb') \<and>
    (\<exists>kept. subseq kept (delivered_samples config es) \<and> rd @ contents (cb_ring cb') = contents (cb_ring cb) @ kept \<and>
       length (delivered_samples config es) + overflow_samples cb = length kept + sum_list rep + overflow_samples cb')"
  using assms(3)
proof (induction es arbitrary: cb)
  case (Cons ev es)
  show ?case
  proof (cases ev)
    case (Captured now data)
    obtain rep cb1 where p: "push_captured R now (mono_of config data) cb = (rep, cb1)" by fastforce
    obtain n where n: "n \<le> length (mono_of config data)"
      "contents (cb_ring cb1) = contents (cb_ring cb) @ take n (mono_of config data)"
      "length (contents (cb_ring cb1)) \<le> cap"
      "sum_list rep + overflow_samples cb1 + n = overflow_samples cb + length (mono_of config data)"
      using push_captured_conserves [OF assms(1) Cons.prems p] by blast
    obtain rd rep' cb2 kept where r: "capture_run R config es cb1 = Ok (rd, rep', cb2)"
      "subseq kept (delivered_samples config es)" "rd @ contents (cb_ring cb2) = contents (cb_ring cb1) @ kept"
      "length (delivered_samples config es) + overflow_samples cb1 = length kept + sum_list rep' + overflow_samples cb2"
      using Cons.IH [OF n(3)] by blast
    have "subseq (take n (mono_of config data) @ kept) (delivered_samples config (ev # es))"
      using r(2) by (simp add: Captured list_emb_append_mono take_is_prefix prefix_imp_subseq)
    moreover have "capture_run R config (ev # es) cb = Ok (rd, rep @ rep', cb2)"
      using r(1) p by (simp add: Captured capture_callback_mono [OF assms(2)])
    ultimately show ?thesis using n r(3,4)
      by (intro exI [of _ rd] exI [of _ "rep @ rep'"] exI [of _ cb2] conjI exI [of _ "take n (mono_of config data) @ kept"])
        (simp_all add: Captured)
  next
    case (Drained k)
    obtain ys r where p: "pop_slice R k (cb_ring cb) = (ys, r)" by fastforce
    note d = ring_okD(3) [OF assms(1) p]
    with Cons.prems have "length (contents (cb_ring (cb\<lparr>cb_ring := r\<rparr>))) \<le> cap" by simp
    from Cons.IH [OF this] obtain rd rep cb2 kept where r: "capture_run R config es (cb\<lparr>cb_ring := r\<rparr>) = Ok (rd, rep, cb2)"
      "subseq kept (delivered_samples config es)" "rd @ contents (cb_ring cb2) = contents r @ kept"
      "length (delivered_samples config es) + overflow_samples cb = length kept + sum_list rep + overflow_samples cb2"
      by auto
    have "(ys @ rd) @ contents (cb_ring cb2) = contents (cb_ring cb) @ kept"
      using d r(3) by (metis append_assoc append_take_drop_id)
    with p r show ?thesis by (auto simp: Drained)
  qed
qed (simp add: exI [of _ "[]"])

text \<open>A ring buffer of capacity 9600 as a list.\<close>

definition list_ring :: "fl list ring_ops" where
  "list_ring = \<lparr>ring_new = (\<lambda>_. []),
     push_slice = (\<lambda>xs r. (min (length xs) (9600 - length r), r @ take (9600 - length r) xs)),
     pop_slice = (\<lambda>n r. (take n r, drop n r))\<rparr>"

lemma list_ring_ok: "ring_ok list_ring (\<lambda>r. r) 9600"
  by (simp add: ring_ok_def list_ring_def min_def)

section \<open>Properties\<close>

text \<open>C33. No captured sample is lost silently: in every interleaving of capture callbacks and reads by
  the session, starting from an empty ring buffer and on a device with any number of channels, what
  has been read followed by what waits in the buffer is a subsequence of the (down-mixed) samples
  delivered, in order, and the samples missing from it are exactly those reported as dropped plus
  those counted for the next report. No callback panics.\<close>

theorem capture_conserves_samples:
  assumes "ring_ok R contents RING_BUFFER_CAPACITY" "channels config \<noteq> 0"
  shows "case capture_run R config es
      \<lparr>cb_ring = create_audio_ring_buffer R, overflow_samples = 0, overflow_log_time = None\<rparr> of
      Ok (rd, rep, cb) \<Rightarrow>
        subseq (rd @ contents (cb_ring cb)) (delivered_samples config es) \<and>
        length (delivered_samples config es) =
          length rd + length (contents (cb_ring cb)) + sum_list rep + overflow_samples cb
    | _ \<Rightarrow> False"
proof -
  let ?cb = "\<lparr>cb_ring = create_audio_ring_buffer R, overflow_samples = 0, overflow_log_time = None\<rparr>"
  have e: "contents (cb_ring ?cb) = []"
    using ring_okD(1) [OF assms(1)] by (simp add: create_audio_ring_buffer_def)
  then have l: "length (contents (cb_ring ?cb)) \<le> RING_BUFFER_CAPACITY" by simp
  from capture_run_conserves [OF assms l, of es] obtain rd rep cb kept where
    "capture_run R config es ?cb = Ok (rd, rep, cb)" "subseq kept (delivered_samples config es)"
    "rd @ contents (cb_ring cb) = contents (cb_ring ?cb) @ kept"
    "length (delivered_samples config es) + overflow_samples ?cb = length kept + sum_list rep + overflow_samples cb"
    by blast
  note r = this
  have "kept = rd @ contents (cb_ring cb)" using r(3) unfolding e by simp
  with r(2,4) show ?thesis unfolding r(1) by simp
qed

theorem capture_conserves_samples_witness:
  "case capture_run list_ring (build_stream_config 1 BufferDefault) [Captured 0 [Fin 1, Fin 2], Drained 1, Captured 5 [Fin 3]]
      \<lparr>cb_ring = create_audio_ring_buffer list_ring, overflow_samples = 0, overflow_log_time = None\<rparr> of
      Ok (rd, rep, cb) \<Rightarrow> subseq (rd @ cb_ring cb) [Fin 1, Fin 2, Fin 3]
    | _ \<Rightarrow> False"
proof -
  let ?c = "build_stream_config 1 BufferDefault"
  have "channels ?c \<noteq> 0" "ring_ok list_ring (\<lambda>r. r) RING_BUFFER_CAPACITY"
    using list_ring_ok by (simp_all add: build_stream_config_def RING_BUFFER_CAPACITY_def)
  from capture_conserves_samples [OF this(2,1), of "[Captured 0 [Fin 1, Fin 2], Drained 1, Captured 5 [Fin 3]]"]
  show ?thesis by (simp add: mono_of_def build_stream_config_def split: outcome.splits prod.splits)
qed

text \<open>C34. Playout on a device with any number of channels: the callback always fills the whole frames
  of the device's buffer, every channel of frame \<open>i\<close> with the \<open>i\<close>-th waiting sample or with silence
  when fewer wait, and takes exactly the samples it played from the ring buffer.\<close>

theorem playout_plays_fifo:
  assumes "ring_ok R contents cap" "ch = unat (channels config)" "0 < ch"
  shows "case playout_callback R config True data r of
      Ok (out, r') \<Rightarrow> length out = length data \<and> contents r' = drop (length data div ch) (contents r) \<and>
        (\<forall>i < length data div ch. \<forall>c < ch.
           out ! (i * ch + c) = (if i < length (contents r) then contents r ! i else Fin 0))
    | _ \<Rightarrow> False"
proof (cases "ch = 1")
  case True
  obtain ys r' where p: "pop_slice R (length data) r = (ys, r')" by fastforce
  note d = ring_okD(3) [OF assms(1) p]
  then show ?thesis using True p
    by (auto simp: playout_callback_def playout_mono_cb_def nth_append simp flip: assms(2))
next
  case False
  let ?n = "length data div ch"
  obtain ys r' where p: "pop_slice R ?n r = (ys, r')" by fastforce
  note d = ring_okD(3) [OF assms(1) p]
  have le: "?n * ch \<le> length data" by simp
  let ?s = "\<lambda>i. if i < length ys then ys ! i else Fin 0"
  let ?out = "concat (map (\<lambda>i. replicate ch (?s i)) [0..<?n])"
  have l: "length ?out = ?n * ch" by (simp add: length_concat comp_def sum_list_triv)
  have "(?out @ drop (?n * ch) data) ! (i * ch + c) = (if i < length (contents r) then contents r ! i else Fin 0)"
    if "i < ?n" "c < ch" for i c
  proof -
    have "Suc i * ch \<le> ?n * ch" using that(1) by (intro mult_le_mono1) simp
    then have "i * ch + c < length ?out" using that(2) by (simp only: l) simp
    then have "(?out @ drop (?n * ch) data) ! (i * ch + c) = ?s i"
      using nth_concat_replicate [OF that, of ?s] by (simp only: nth_append) simp
    with d that(1) show ?thesis by simp
  qed
  moreover have "playout_callback R config True data r = Ok (?out @ drop (?n * ch) data, r')"
    using False assms(3) p upmix_frames_eq [OF le, of ys]
    by (simp add: playout_callback_def playout_upmix_cb_def flip: assms(2))
  ultimately show ?thesis using d l le by (simp only: outcome.case prod.case length_append length_drop) simp
qed

theorem playout_plays_fifo_witness:
  "case playout_callback list_ring (build_stream_config 2 BufferDefault) True (replicate 5 (Fin 9)) [Fin 1] of
      Ok (out, r') \<Rightarrow> length out = 5 \<and> out ! 1 = Fin 1 \<and> out ! 3 = Fin 0
    | _ \<Rightarrow> False"
proof -
  have "(2 :: nat) = unat (channels (build_stream_config 2 BufferDefault))" by (simp add: build_stream_config_def)
  from playout_plays_fifo [OF list_ring_ok this zero_less_numeral, of "replicate 5 (Fin 9)" "[Fin 1]"]
  obtain out r' where o: "playout_callback list_ring (build_stream_config 2 BufferDefault) True (replicate 5 (Fin 9)) [Fin 1] = Ok (out, r')"
    "length out = length (replicate 5 (Fin 9))"
    and n: "\<forall>i < length (replicate 5 (Fin 9)) div 2. \<forall>c < 2.
      out ! (i * 2 + c) = (if i < length [Fin 1] then [Fin 1] ! i else Fin 0)"
    unfolding outcome_case_pair by fast
  from o n [rule_format, of 0 1] n [rule_format, of 1 1] show ?thesis by simp
qed

text \<open>The configuration search: what \<^verbatim>\<open>start_capture\<close> (and in the same way \<^verbatim>\<open>start_playout\<close>) returns is the
  first candidate the chosen device can build a stream for; it is mono, stereo or has the device's
  own channel count, at 48 kHz, and it has at least one channel, so that neither callback can panic.\<close>

theorem stream_search_sound:
  assumes "start_capture H name = Ok config \<or> start_playout H name = Ok config"
  shows "(\<exists>(d :: device) before after. candidate_configs (default_config d) = before @ config # after \<and>
      list_all (\<lambda>b. \<not> builds d b) before \<and> builds d config \<and> plays d config \<and>
      channels config \<in> {1, 2} \<union> (case default_config d of None \<Rightarrow> {} | Some dd \<Rightarrow> {channels dd})) \<and>
    sample_rate config = 48000 \<and>
    capture_callback R config now run data cb \<noteq> Panic \<and> playout_callback R config run data r \<noteq> Panic"
proof -
  from assms obtain d where d: "try_configs d (candidate_configs (default_config d)) = Ok config"
    unfolding start_capture_def start_playout_def and_then_eq_Ok by blast
  from try_configs_Ok [OF this] obtain before after where c: "candidate_configs (default_config d) = before @ config # after"
    "list_all (\<lambda>b. \<not> builds d b) before" "builds d config" "plays d config" by blast
  then have m: "config \<in> set (candidate_configs (default_config d))" by simp
  then have ch: "channels config \<in> {1, 2} \<union> (case default_config d of None \<Rightarrow> {} | Some dd \<Rightarrow> {channels dd})"
    and sr: "sample_rate config = 48000"
    by (auto simp: candidate_configs_def build_stream_config_def SAMPLE_RATE_def split: option.splits if_splits)
  have "unat (channels config) \<noteq> 0" using candidate_channels [OF m] by (simp add: unat_eq_0)
  then have "capture_callback R config now run data cb \<noteq> Panic" "playout_callback R config run data r \<noteq> Panic"
    by (auto simp: capture_callback_def capture_downmix_cb_def playout_callback_def playout_upmix_cb_def Let_def
        split: prod.splits)
  with c ch sr show ?thesis
    by (intro conjI exI [of _ d] exI [of _ before] exI [of _ after]) simp_all
qed

theorem stream_search_sound_witness:
  "capture_callback list_ring (build_stream_config 2 BufferDefault) 0 True [Fin 1, Fin 1]
     \<lparr>cb_ring = [], overflow_samples = 0, overflow_log_time = None\<rparr> \<noteq> Panic"
proof -
  let ?d = "\<lparr>dev_name = None, default_config = Some (build_stream_config 2 BufferDefault),
    builds = (\<lambda>c. c = build_stream_config 2 BufferDefault), plays = (\<lambda>_. True)\<rparr>"
  have "start_capture \<lparr>input_devs = None, output_devs = None, default_input_device = Some ?d, default_output_device = None\<rparr> None =
      Ok (build_stream_config 2 BufferDefault)"
    by (simp add: start_capture_def pick_device_def candidate_configs_def build_stream_config_def)
  from stream_search_sound [OF disjI1 [OF this], of list_ring 0 True "[Fin 1, Fin 1]"
      "\<lparr>cb_ring = [], overflow_samples = 0, overflow_log_time = None\<rparr>" "[]"]
  show ?thesis by (elim conjE)
qed

text \<open>Playing on a stereo device and capturing from a stereo device are inverse to each other: the
  up-mixed output of decoded samples down-mixes, through an addition and a division in \<^verbatim>\<open>f32\<close>, to
  exactly those samples.\<close>

theorem stereo_loop_exact:
  assumes "ring_ok R contents cap" "contents r = i16_to_f32 pcm" "length data = 2 * length pcm"
  shows "case playout_upmix_cb R 2 True data r of
      Ok (out, r') \<Rightarrow> downmix 2 out = i16_to_f32 pcm \<and> contents r' = []
    | _ \<Rightarrow> False"
proof -
  obtain ys r' where p: "pop_slice R (length pcm) r = (ys, r')" by fastforce
  have lp: "length (i16_to_f32 pcm) = length pcm" by (simp add: i16_to_f32_def)
  have ys: "ys = i16_to_f32 pcm" "contents r' = []"
    using ring_okD(3) [OF assms(1) p] assms(2) lp by simp_all
  have "map (\<lambda>i. replicate 2 (if i < length ys then ys ! i else Fin 0)) [0..<length pcm] = map (replicate 2) ys"
    using lp ys(1) by (intro nth_equalityI) simp_all
  then have out: "upmix_frames 2 (length pcm) ys data = concat (map (replicate 2) ys) @ []"
    using upmix_frames_eq [of "length pcm" 2 data ys] assms(3) by simp
  have "chunks_exact 2 (concat (map (replicate 2) ys) @ []) = map (replicate 2) ys"
    by (rule chunks_exact_concat) auto
  moreover have "downmix_frame 2 (replicate 2 x) = x" if x: "x \<in> set ys" for x
  proof -
    obtain s where "x = sample_to_f32 s" using x ys(1) by (auto simp: i16_to_f32_def)
    then obtain q where q: "x = Fin q" "representable F32 q" "\<bar>q\<bar> < 2 ^ 126"
      using sample_f32_representable [of s] by blast
    then show ?thesis using downmix_stereo [of q] by (simp add: numeral_2_eq_2)
  qed
  ultimately have "downmix 2 (upmix_frames 2 (length pcm) ys data) = ys"
    unfolding out by (simp add: downmix_def comp_def map_idI)
  with p ys assms(3) show ?thesis by (simp add: playout_upmix_cb_def)
qed

theorem stereo_loop_exact_witness:
  "case playout_upmix_cb list_ring 2 True (replicate 4 (Fin 0)) (i16_to_f32 [1000, - 32768]) of
      Ok (out, r') \<Rightarrow> downmix 2 out = i16_to_f32 [1000, - 32768] | _ \<Rightarrow> False"
  using stereo_loop_exact [OF list_ring_ok refl, of "replicate 4 (Fin 0)" "[1000, - 32768]"]
  by (auto split: outcome.splits)

end
