(* ===== verification/Upnp.thy ===== *)
theory Upnp
  imports Net
begin

text \<open>
  \<^verbatim>\<open>vc-core/src/upnp.rs\<close>: a port mapping on the router, added when a host starts and removed when the
  value that holds it is dropped. The router (crate \<^verbatim>\<open>igd_next\<close>) is a parameter: whether it is found,
  its external address and which requests it grants. What the code does to it is the sequence of
  granted requests.
\<close>

definition LEASE_DURATION_SECS :: u32 where "LEASE_DURATION_SECS = 3600"
definition DESCRIPTION :: string where "DESCRIPTION = ''VoiceChat UDP''"

record gateway_ops =
  gateway_found :: bool
  get_external_ip :: "ip_addr option"
  add_port_ok :: "u16 \<Rightarrow> socket_addr \<Rightarrow> u32 \<Rightarrow> string \<Rightarrow> bool"
  remove_port_ok :: "u16 \<Rightarrow> bool"

datatype gateway_call = AddPort u16 socket_addr u32 string | RemovePort u16

record upnp_mapping =
  external_port :: u16

text \<open>\<^verbatim>\<open>UpnpMapping::setup\<close>; the state is the requests granted so far.\<close>

definition upnp_setup ::
  "gateway_ops \<Rightarrow> socket_addr \<Rightarrow> gateway_call list \<Rightarrow> (socket_addr \<times> upnp_mapping) outcome \<times> gateway_call list" where
  "upnp_setup G local_addr calls =
     (if \<not> gateway_found G then (Err UpnpDiscoveryFailed, calls)
      else attempt (ok_or UpnpExternalIpFailed (get_external_ip G)) calls (\<lambda>external_ip.
        if add_port_ok G (addr_port local_addr) local_addr LEASE_DURATION_SECS DESCRIPTION
        then (Ok (socket_addr_new external_ip (addr_port local_addr), \<lparr>external_port = addr_port local_addr\<rparr>),
              calls @ [AddPort (addr_port local_addr) local_addr LEASE_DURATION_SECS DESCRIPTION])
        else (Err UpnpAddPortFailed, calls)))"

text \<open>Dropping the mapping; a refused removal is only logged.\<close>

definition upnp_drop :: "gateway_ops \<Rightarrow> upnp_mapping \<Rightarrow> gateway_call list \<Rightarrow> gateway_call list" where
  "upnp_drop G mp calls =
     (if remove_port_ok G (external_port mp) then calls @ [RemovePort (external_port mp)] else calls)"

text \<open>The ports that stay mapped after a sequence of granted requests.\<close>

fun mapped_ports :: "gateway_call list \<Rightarrow> u16 set \<Rightarrow> u16 set" where
  "mapped_ports [] M = M"
| "mapped_ports (AddPort p _ _ _ # cs) M = mapped_ports cs (insert p M)"
| "mapped_ports (RemovePort p # cs) M = mapped_ports cs (M - {p})"

lemma mapped_ports_append: "mapped_ports (cs @ ds) M = mapped_ports ds (mapped_ports cs M)"
proof (induction cs arbitrary: M)
  case (Cons c cs)
  then show ?case by (cases c) simp_all
qed simp

lemma upnp_setup_cases:
  "(\<exists>e. upnp_setup G a calls = (Err e, calls)) \<or>
   (\<exists>ip. get_external_ip G = Some ip \<and> upnp_setup G a calls =
      (Ok (socket_addr_new ip (addr_port a), \<lparr>external_port = addr_port a\<rparr>),
       calls @ [AddPort (addr_port a) a LEASE_DURATION_SECS DESCRIPTION]))"
  by (cases "get_external_ip G") (auto simp: upnp_setup_def)

end
