(* ===== verification/Startup.thy ===== *)
theory Startup
  imports Run_Loop Audio Upnp
begin

text \<open>
  A session from its creation to its end: \<^verbatim>\<open>SessionConfig\<close>, \<^verbatim>\<open>Session::new\<close>, the start of \<^verbatim>\<open>Session::run\<close> with
  every early return in its order, the turns of its loop until it is stopped, and the port mapping
  that is released however it ends.
\<close>

section \<open>Configuration and session\<close>

record session_config =
  bind_addr :: socket_addr
  passphrase :: bytes
  cfg_is_host :: bool
  host_addr :: "socket_addr option"
  input_device :: "string option"
  output_device :: "string option"
  cfg_noise_suppression :: bool
  cfg_input_mode :: input_mode
  cfg_vad_config :: vad_config
  cfg_upnp :: bool

record session =
  the_config :: session_config
  running :: bool
  shared :: shared_state

definition session_shared_new :: "bool \<Rightarrow> input_mode \<Rightarrow> shared_state" where
  "session_shared_new ns_enabled im =
     \<lparr>sh_noise_suppression = ns_enabled, sh_ptt_active = False, sh_input_mode = im,
      sh_is_transmitting = False, sh_peer_info = [], sh_external_addr = None\<rparr>"

definition session_new :: "session_config \<Rightarrow> session" where
  "session_new cfg =
     \<lparr>the_config = cfg, running = False,
      shared = session_shared_new (cfg_noise_suppression cfg) (cfg_input_mode cfg)\<rparr>"

definition session_stop :: "session \<Rightarrow> session" where
  "session_stop ss = ss\<lparr>running := False\<rparr>"

section \<open>The start of a run\<close>

text \<open>What a run finds around it: the environment of the handlers, the random bytes for the session id
  and the ephemeral secret, the router and the sound devices; the operating system is part of the
  environment.\<close>

record platform =
  base_env :: env
  session_random :: bytes
  secret_random :: bytes
  gateway :: gateway_ops
  sound :: audio_host

definition DNS_ADDR :: socket_addr where
  "DNS_ADDR = SocketV4 (Ipv4Addr 8 8 8 8) 53"

text \<open>The address to be mapped: the one bound, or the address of the default route when all are.\<close>

definition map_address :: "env \<Rightarrow> socket_addr \<Rightarrow> socket_addr" where
  "map_address E local_addr =
     (if is_unspecified (addr_ip local_addr)
      then socket_addr_new
        (case resolve_local_ip E DNS_ADDR of Some ip \<Rightarrow> ip | None \<Rightarrow> addr_ip local_addr) (addr_port local_addr)
      else local_addr)"

text \<open>The port mapping of a host: the external address, the mapping and the router's requests.\<close>

definition setup_mapping ::
  "platform \<Rightarrow> session_config \<Rightarrow> socket_addr \<Rightarrow> socket_addr option \<times> upnp_mapping option \<times> gateway_call list" where
  "setup_mapping P cfg local_addr =
     (if cfg_is_host cfg \<and> cfg_upnp cfg then
        (case upnp_setup (gateway P) (map_address (base_env P) local_addr) [] of
           (Ok (ext_addr, mp), calls) \<Rightarrow> (Some ext_addr, Some mp, calls)
         | (_, calls) \<Rightarrow> (None, None, calls))
      else (None, None, []))"

text \<open>A joiner that knows a host's address sends it a JOIN.\<close>

definition join_host :: "env \<Rightarrow> session_config \<Rightarrow> node \<Rightarrow> unit outcome \<times> node" where
  "join_host E cfg nd =
     (if \<not> cfg_is_host cfg
      then (case host_addr cfg of
              Some h \<Rightarrow> send_join E (addr_port (bind_addr cfg)) h nd
            | None \<Rightarrow> (Ok (), nd))
      else (Ok (), nd))"

definition initial_node :: "session_config \<Rightarrow> bytes \<Rightarrow> bytes \<Rightarrow> node" where
  "initial_node cfg key random =
     (let sid = (if cfg_is_host cfg then random else replicate 8 0) in
      \<lparr>peer_mgr = (if cfg_is_host cfg then new_host sid else new_joiner),
       crypto_ctx = crypto_context_new key sid, outbox = []\<rparr>)"

definition initial_capture :: "session_config \<Rightarrow> encoder \<Rightarrow> capture" where
  "initial_capture cfg en =
     \<lparr>suppressor = set_enabled (cfg_noise_suppression cfg) noise_suppressor_new,
      detector = vad_new (cfg_vad_config cfg), gate = input_gate_new (cfg_input_mode cfg),
      encoder_of = en, capture_accum = []\<rparr>"

record start_world =
  sw_mapping :: "upnp_mapping option"
  sw_calls :: "gateway_call list"
  sw_external :: "socket_addr option"

text \<open>From the sound devices to the first turn.\<close>

definition open_session ::
  "platform \<Rightarrow> session_config \<Rightarrow> socket \<Rightarrow> shared_state \<Rightarrow> bytes \<Rightarrow> node \<Rightarrow>
     (env \<times> session_state \<times> stream_config \<times> stream_config) outcome" where
  "open_session P cfg sock sh key nd =
     and_then (start_capture (sound P) (input_device cfg)) (\<lambda>capture_stream.
     and_then (start_playout (sound P) (output_device cfg)) (\<lambda>playout_stream.
     and_then (encoder_new (opus_lib (base_env P))) (\<lambda>en.
     let cap = initial_capture cfg en;
         E = (base_env P)\<lparr>psk := key, key_pair := key_exchange_new (prims (base_env P)) (secret_random P)\<rparr>
     in case join_host E cfg nd of (r, nd) \<Rightarrow>
        and_then r (\<lambda>_.
        and_then (set_read_timeout (net_os E) (Some 1) sock) (\<lambda>_.
          Ok (E, \<lparr>the_node = nd, the_capture = cap,
              the_timers = \<lparr>last_playout = clock E, last_keepalive = clock E, last_adapt = clock E,
                last_ping = clock E, last_ui_update = clock E\<rparr>,
              the_shared = sh, played = [], panicked = False\<rparr>, capture_stream, playout_stream))))))"

text \<open>From the start of a run: the key, the socket, the port mapping, then the rest.\<close>

definition start_up ::
  "platform \<Rightarrow> session_config \<Rightarrow> shared_state \<Rightarrow>
     (env \<times> session_state \<times> stream_config \<times> stream_config) outcome \<times> start_world" where
  "start_up P cfg sh =
     (let w0 = \<lparr>sw_mapping = None, sw_calls = [], sw_external = None\<rparr> in
      attempt (derive_key_from_passphrase (prims (base_env P)) (passphrase cfg)) w0 (\<lambda>key.
      let nd = initial_node cfg key (session_random P) in
      attempt (udp_bind (net_os (base_env P)) (bind_addr cfg)) w0 (\<lambda>sock.
      attempt (ok_or IoFailed (local_address (base_env P))) w0 (\<lambda>local_addr.
        case setup_mapping P cfg local_addr of (ext, mp, calls) \<Rightarrow>
          (open_session P cfg sock (case ext of Some a \<Rightarrow> sh\<lparr>sh_external_addr := Some a\<rparr> | None \<Rightarrow> sh) key nd,
           \<lparr>sw_mapping = mp, sw_calls = calls, sw_external = ext\<rparr>)))))"

section \<open>The turns and the end\<close>

text \<open>What one turn of the loop meets: the running flag when its condition is read, the time, a
  datagram, captured samples, and what the user interface did to the controls since the last turn.
  The loop ends at the first turn that finds the flag down (or with the list), or by a panic.\<close>

record turn_input =
  in_running :: bool
  at_time :: instant
  in_recv :: recv_event
  in_samples :: "fl list"
  in_controls :: "shared_state \<Rightarrow> shared_state"

text \<open>What the socket hands to the handler: the datagram, cut to the receive buffer. An error, of whatever
  kind, is at most logged.\<close>

definition in_datagram :: "turn_input \<Rightarrow> (bytes \<times> socket_addr) option" where
  "in_datagram i = (case recv_from MAX_PACKET_LEN (in_recv i) of Inr x \<Rightarrow> Some x | Inl _ \<Rightarrow> None)"

fun run_turns :: "env \<Rightarrow> audio_env \<Rightarrow> turn_input list \<Rightarrow> session_state \<Rightarrow> session_state" where
  "run_turns E A [] s = s"
| "run_turns E A (i # is) s =
     (if \<not> in_running i then s
      else let s = loop_turn (E\<lparr>clock := at_time i\<rparr>) A (in_datagram i) (in_samples i)
                     (s\<lparr>the_shared := in_controls i (the_shared s)\<rparr>)
           in if panicked s then s else run_turns E A is s)"

definition release :: "platform \<Rightarrow> start_world \<Rightarrow> gateway_call list" where
  "release P w =
     (case sw_mapping w of Some mp \<Rightarrow> upnp_drop (gateway P) mp (sw_calls w) | None \<Rightarrow> sw_calls w)"

text \<open>The result, the last state, and the requests the router has granted when the run is over.\<close>

definition session_run ::
  "platform \<Rightarrow> audio_env \<Rightarrow> turn_input list \<Rightarrow> session \<Rightarrow> unit outcome \<times> session_state option \<times> gateway_call list" where
  "session_run P A inputs ss =
     (case start_up P (the_config ss) (shared ss) of
        (Ok (E, s, _, _), w) \<Rightarrow>
          let s' = run_turns E A inputs s
          in (if panicked s' then Panic else Ok (), Some s', release P w)
      | (Err e, w) \<Rightarrow> (Err e, None, release P w)
      | (Panic, w) \<Rightarrow> (Panic, None, release P w))"

section \<open>Lemmas\<close>

lemma setup_mapping_cases:
  "setup_mapping P cfg a = (None, None, []) \<or>
   (\<exists>ext b. setup_mapping P cfg a =
      (Some ext, Some \<lparr>external_port = addr_port b\<rparr>, [AddPort (addr_port b) b LEASE_DURATION_SECS DESCRIPTION]))"
  using upnp_setup_cases [of "gateway P" "map_address (base_env P) a" "[]"]
  by (auto simp: setup_mapping_def)

definition world_ok :: "start_world \<Rightarrow> bool" where
  "world_ok w \<longleftrightarrow> sw_calls w = [] \<and> sw_mapping w = None \<or>
     (\<exists>b. sw_mapping w = Some \<lparr>external_port = addr_port b\<rparr> \<and>
        sw_calls w = [AddPort (addr_port b) b LEASE_DURATION_SECS DESCRIPTION])"

lemma start_up_cases:
  "(\<exists>e. start_up P cfg sh = (Err e, \<lparr>sw_mapping = None, sw_calls = [], sw_external = None\<rparr>) \<and>
      \<not> ((\<exists>key. derive_key_from_passphrase (prims (base_env P)) (passphrase cfg) = Ok key) \<and>
         (\<exists>sock. udp_bind (net_os (base_env P)) (bind_addr cfg) = Ok sock) \<and> (\<exists>a. local_address (base_env P) = Some a))) \<or>
   (\<exists>key sock a ext mp calls. derive_key_from_passphrase (prims (base_env P)) (passphrase cfg) = Ok key \<and>
      udp_bind (net_os (base_env P)) (bind_addr cfg) = Ok sock \<and> local_address (base_env P) = Some a \<and> setup_mapping P cfg a = (ext, mp, calls) \<and>
      start_up P cfg sh =
        (open_session P cfg sock (case ext of Some a \<Rightarrow> sh\<lparr>sh_external_addr := Some a\<rparr> | None \<Rightarrow> sh) key
           (initial_node cfg key (session_random P)),
         \<lparr>sw_mapping = mp, sw_calls = calls, sw_external = ext\<rparr>))"
proof -
  obtain ok where d: "derive_key_from_passphrase (prims (base_env P)) (passphrase cfg) = ok_or Argon2Failed ok"
    by (simp add: derive_key_from_passphrase_def)
  show ?thesis
  proof (cases rule: udp_bind_cases [of "net_os (base_env P)" "bind_addr cfg"])
    case (1 sock)
    show ?thesis
    proof (cases "ok = None \<or> local_address (base_env P) = None")
      case True
      then show ?thesis by (cases ok) (auto simp: start_up_def Let_def d 1)
    next
      case False
      then obtain key a where "ok = Some key" "local_address (base_env P) = Some a" by auto
      then show ?thesis by (cases "setup_mapping P cfg a") (simp add: start_up_def Let_def d 1)
    qed
  next
    case 2
    then show ?thesis by (cases ok) (simp_all add: start_up_def Let_def d)
  qed
qed

lemma open_session_Ok:
  assumes "open_session P cfg sock sh key nd = Ok (E, s, cs, ps)"
  shows "E = (base_env P)\<lparr>psk := key, key_pair := key_exchange_new (prims (base_env P)) (secret_random P)\<rparr>"
    and "join_host E cfg nd = (Ok (), the_node s)" "\<not> panicked s"
proof -
  let ?E = "(base_env P)\<lparr>psk := key, key_pair := key_exchange_new (prims (base_env P)) (secret_random P)\<rparr>"
  obtain r nd' where j: "join_host ?E cfg nd = (r, nd')" by fastforce
  from assms show E: "E = ?E" and "\<not> panicked s"
    by (auto simp: open_session_def Let_def and_then_eq_Ok j split: if_splits)
  from assms show "join_host E cfg nd = (Ok (), the_node s)"
    unfolding E j by (auto simp: open_session_def Let_def and_then_eq_Ok j split: if_splits)
qed

lemma start_up_world: "world_ok (snd (start_up P cfg sh))"
proof -
  have "world_ok \<lparr>sw_mapping = mp, sw_calls = calls, sw_external = ext\<rparr>"
    if "setup_mapping P cfg a = (ext, mp, calls)" for a ext mp calls
    using setup_mapping_cases [of P cfg a] that by (auto simp: world_ok_def)
  moreover have "world_ok \<lparr>sw_mapping = None, sw_calls = [], sw_external = None\<rparr>" by (simp add: world_ok_def)
  ultimately show ?thesis using start_up_cases [of P cfg sh] by auto
qed

lemma release_world: "world_ok w \<Longrightarrow> (\<And>p. remove_port_ok (gateway P) p) \<Longrightarrow> mapped_ports (release P w) {} = {}"
  by (auto simp: world_ok_def release_def upnp_drop_def)

lemma join_host_reach:
  assumes "psk E = key" "reach (session_start key) (session_step key) (s\<lparr>the_node := nd\<rparr>)" "join_host E cfg nd = (r, nd')"
  shows "reach (session_start key) (session_step key) (s\<lparr>the_node := nd'\<rparr>)"
proof -
  consider "nd' = nd" | h where "nd' = snd (send_join E (addr_port (bind_addr cfg)) h nd)"
    using assms(3) by (auto simp: join_host_def split: if_splits option.splits) (metis snd_conv)
  then show ?thesis
  proof cases
    case 1
    with assms(2) show ?thesis by simp
  next
    case (2 h)
    from reach_step [OF assms(2) step_join [OF assms(1)], of "addr_port (bind_addr cfg)" h]
    show ?thesis by (simp add: 2)
  qed
qed

lemma initial_node_start:
  "length random = 8 \<Longrightarrow> session_start key (s\<lparr>the_node := initial_node cfg key random\<rparr>)"
  by (auto simp: session_start_def initial_node_def Let_def intro: exI [of _ "replicate 8 0"])

lemma start_up_Ok:
  assumes "start_up P cfg sh = (Ok (E, s, cs, ps), w)" "length (session_random P) = 8"
  obtains key where "derive_key_from_passphrase (prims (base_env P)) (passphrase cfg) = Ok key" "psk E = key"
    "ping_iter E = ping_iter (base_env P)" "reach (session_start key) (session_step key) s" "\<not> panicked s"
proof -
  from assms(1) start_up_cases [of P cfg sh] obtain key sock sh' where
    key: "derive_key_from_passphrase (prims (base_env P)) (passphrase cfg) = Ok key"
    and o: "open_session P cfg sock sh' key (initial_node cfg key (session_random P)) = Ok (E, s, cs, ps)" by auto
  note E = open_session_Ok(1) [OF o] and j = open_session_Ok(2) [OF o] and s = open_session_Ok(3) [OF o]
  have "reach (session_start key) (session_step key) (s\<lparr>the_node := initial_node cfg key (session_random P)\<rparr>)"
    by (intro reach_start initial_node_start assms(2))
  from join_host_reach [OF _ this j] E s have "reach (session_start key) (session_step key) s" by simp
  with key E s show ?thesis by (intro that [of key]) simp_all
qed

lemma turn_reach:
  assumes "iterates (ping_iter E)" "psk E = key" "reach (session_start key) (session_step key) s"
  shows "reach (session_start key) (session_step key)
    (loop_turn (E\<lparr>clock := t\<rparr>) A received popped (s\<lparr>the_shared := f (the_shared s)\<rparr>))"
  by (rule reach_step [OF reach_step [OF assms(3) step_controls] step_turn]) (simp_all add: assms)

lemma run_turns_reach:
  assumes "iterates (ping_iter E)" "psk E = key" "reach (session_start key) (session_step key) s"
  shows "reach (session_start key) (session_step key) (run_turns E A inputs s)"
  using assms(3)
proof (induction inputs arbitrary: s)
  case (Cons i rest)
  then show ?case using turn_reach [OF assms(1,2)] by (simp add: Let_def)
qed simp

lemma loop_turn_panicked:
  "\<not> panicked s \<Longrightarrow> panicked (loop_turn E A received popped s) \<longleftrightarrow>
     (\<exists>d src. received = Some (d, src) \<and> fatal_packet E d)"
proof -
  assume s: "\<not> panicked s"
  have "panicked (receive_part E received (sync_controls s)) \<longleftrightarrow> (\<exists>d src. received = Some (d, src) \<and> fatal_packet E d)"
  proof (cases received)
    case (Some ds)
    obtain d src where ds: "ds = (d, src)" by fastforce
    show ?thesis using handle_incoming_Panic [of E d src "the_node s"]
      by (auto simp: Some ds receive_part_def sync_controls_def Let_def split: prod.splits)
  qed (use s in \<open>simp add: receive_part_def sync_controls_def Let_def\<close>)
  moreover have "panicked (capture_part E A popped u) = panicked u" "panicked (playout_part E u) = panicked u"
    "panicked (keepalive_part E u) = panicked u" "panicked (ping_part E u) = panicked u"
    "panicked (adapt_part E u) = panicked u" "panicked (ui_part E u) = panicked u" for u
    by (simp_all add: capture_part_def playout_part_def keepalive_part_def ping_part_def adapt_part_def ui_part_def Let_def
        split: prod.splits)
  ultimately show ?thesis by (auto simp: loop_turn_def Let_def)
qed

lemma run_turns_running: "run_turns E A (takeWhile in_running inputs) s = run_turns E A inputs s"
  by (induction inputs arbitrary: s) (simp_all add: Let_def)

lemma run_turns_panicked:
  "\<not> panicked s \<Longrightarrow> panicked (run_turns E A inputs s) \<longleftrightarrow>
     (\<exists>i \<in> set (takeWhile in_running inputs). \<exists>d src. in_datagram i = Some (d, src) \<and> fatal_packet E d)"
proof (induction inputs arbitrary: s)
  case (Cons i rest)
  let ?t = "loop_turn (E\<lparr>clock := at_time i\<rparr>) A (in_datagram i) (in_samples i) (s\<lparr>the_shared := in_controls i (the_shared s)\<rparr>)"
  have "panicked ?t \<longleftrightarrow> (\<exists>d src. in_datagram i = Some (d, src) \<and> fatal_packet E d)"
    using Cons.prems loop_turn_panicked [of "s\<lparr>the_shared := in_controls i (the_shared s)\<rparr>"] by simp
  with Cons show ?case by (auto simp: Let_def)
qed simp

section \<open>A concrete platform\<close>

definition demo_device :: device where
  "demo_device = \<lparr>dev_name = Some ''mic'', default_config = None, builds = (\<lambda>_. True), plays = (\<lambda>_. True)\<rparr>"

definition demo_platform :: platform where
  "demo_platform = \<lparr>base_env = demo_env, session_random = replicate 8 7, secret_random = [3],
     gateway = \<lparr>gateway_found = True, get_external_ip = Some (IpV4 (Ipv4Addr 1 2 3 4)), add_port_ok = (\<lambda>_ _ _ _. True),
       remove_port_ok = (\<lambda>_. True)\<rparr>,
     sound = \<lparr>input_devs = Some [demo_device], output_devs = None, default_input_device = Some demo_device,
       default_output_device = Some demo_device\<rparr>\<rparr>"

definition demo_config :: session_config where
  "demo_config = \<lparr>bind_addr = demo_addr 5000, passphrase = [1, 2], cfg_is_host = True, host_addr = None,
     input_device = Some ''mic'', output_device = None, cfg_noise_suppression = False, cfg_input_mode = AlwaysOn,
     cfg_vad_config = vad_config_default, cfg_upnp = True\<rparr>"

lemma demo_starts: "\<exists>E s cs ps w. start_up demo_platform demo_config sh = (Ok (E, s, cs, ps), w)"
proof -
  have "\<exists>key. derive_key_from_passphrase demo_prims x = Ok key" for x
    by (simp add: derive_key_from_passphrase_def demo_prims_def)
  moreover have "start_capture (sound demo_platform) (Some ''mic'') = Ok (build_stream_config 1 (BufferFixed 96))"
    "start_playout (sound demo_platform) None = Ok (build_stream_config 1 (BufferFixed 96))"
    by (simp_all add: start_capture_def start_playout_def demo_platform_def demo_device_def pick_device_def
        candidate_configs_def DESIRED_BUFFER_SAMPLES_def)
  moreover have "\<exists>en. encoder_new demo_opus = Ok en" by (simp add: encoder_new_def demo_opus_def)
  moreover have "join_host E demo_config nd = (Ok (), nd)" for E nd by (simp add: join_host_def demo_config_def)
  ultimately have "\<exists>E s cs ps. open_session demo_platform demo_config sock sh' key nd = Ok (E, s, cs, ps)" for sock sh' key nd
    by (fastforce simp: open_session_def demo_config_def demo_platform_def demo_env_def Let_def
        set_read_timeout_def sys_call_def demo_os_def)
  moreover have "\<exists>sock. udp_bind demo_os x = Ok sock" for x by (simp add: udp_bind_def sys_call_def demo_os_def Let_def)
  ultimately show ?thesis
    using start_up_cases [of demo_platform demo_config sh] \<open>\<And>x. \<exists>key. derive_key_from_passphrase demo_prims x = Ok key\<close>
    by (auto simp: demo_platform_def demo_env_def)
qed

text \<open>What a run that got past its start ends in.\<close>

lemma run_reaches:
  assumes "session_run P A inputs ss = (r, Some s, calls)" "length (session_random P) = 8" "iterates (ping_iter (base_env P))"
  shows "\<exists>key. derive_key_from_passphrase (prims (base_env P)) (passphrase (the_config ss)) = Ok key \<and>
    reach (session_start key) (session_step key) s"
proof -
  from assms(1) obtain E s0 cs ps w where st: "start_up P (the_config ss) (shared ss) = (Ok (E, s0, cs, ps), w)"
    and s: "s = run_turns E A inputs s0"
    by (auto simp: session_run_def Let_def split: prod.splits outcome.splits)
  from start_up_Ok [OF st assms(2)] obtain key where key: "derive_key_from_passphrase (prims (base_env P)) (passphrase (the_config ss)) = Ok key"
    "psk E = key" "ping_iter E = ping_iter (base_env P)" "reach (session_start key) (session_step key) s0" by blast
  then have "reach (session_start key) (session_step key) s"
    unfolding s using assms(3) by (intro run_turns_reach) simp_all
  with key(1) show ?thesis by blast
qed

section \<open>Properties\<close>

text \<open>C23. Every run of a session is one of the histories the session invariant speaks of: whatever the
  platform, the configuration, the datagrams, the samples and the user do, a run that got past its
  start ends in a state reachable from a fresh host or joiner under the key derived from the
  passphrase, and so with at most four peers and with its context under that key.\<close>

theorem session_run_reachable:
  assumes "session_run P A inputs ss = (r, Some s, calls)" "length (session_random P) = 8" "iterates (ping_iter (base_env P))"
  shows "\<exists>key. derive_key_from_passphrase (prims (base_env P)) (passphrase (the_config ss)) = Ok key \<and>
    reach (session_start key) (session_step key) s \<and>
    length (peers (peer_mgr (the_node s))) \<le> 4 \<and> cipher_key (crypto_ctx (the_node s)) = key"
proof -
  from run_reaches [OF assms] obtain key where key: "derive_key_from_passphrase (prims (base_env P)) (passphrase (the_config ss)) = Ok key"
    "reach (session_start key) (session_step key) s" by blast
  from session_sys.reach_inv [OF this(2)] have "length (peers (peer_mgr (the_node s))) \<le> 4 \<and> cipher_key (crypto_ctx (the_node s)) = key"
    by (simp add: node_inv_def pm_inv_def table_ok_def)
  with key show ?thesis by blast
qed

theorem session_run_reachable_witness:
  "\<exists>r s calls. session_run demo_platform demo_audio_env
       [\<lparr>in_running = True, at_time = 5000000, in_recv = Arrives [2, 0, 0] (demo_addr 9), in_samples = [], in_controls = (\<lambda>sh. sh)\<rparr>]
       (session_new demo_config) = (r, Some s, calls) \<and> length (peers (peer_mgr (the_node s))) \<le> 4"
proof -
  let ?in = "[\<lparr>in_running = True, at_time = 5000000, in_recv = Arrives [2, 0, 0] (demo_addr 9), in_samples = [], in_controls = (\<lambda>sh. sh)\<rparr>]"
  obtain r s calls where run: "session_run demo_platform demo_audio_env ?in (session_new demo_config) = (r, Some s, calls)"
    using demo_starts [of "shared (session_new demo_config)"] by (auto simp: session_run_def session_new_def Let_def)
  have "length (session_random demo_platform) = 8" "iterates (ping_iter (base_env demo_platform))"
    by (simp_all add: demo_platform_def demo_env_def iterates_rev)
  from session_run_reachable [OF run this] run show ?thesis by blast
qed

text \<open>C24. How a run ends, once it has started: it takes exactly the turns whose condition finds the running
  flag up, and nothing after the flag goes down has any effect; it returns normally unless one of
  those turns receives a PEER_LIST under the pre-shared key on which the parser panics, and then it
  dies. So whoever lowers the flag ends the session within one turn, and no other input can.\<close>

theorem session_run_ends:
  assumes "start_up P (the_config ss) (shared ss) = (Ok (E, s, cs, ps), w)"
  shows "session_run P A inputs ss = session_run P A (takeWhile in_running inputs) ss \<and>
    fst (session_run P A inputs ss) =
      (if \<exists>i \<in> set (takeWhile in_running inputs). \<exists>d src. in_datagram i = Some (d, src) \<and> fatal_packet E d
       then Panic else Ok ())"
proof
  show "session_run P A inputs ss = session_run P A (takeWhile in_running inputs) ss"
    using assms by (simp add: session_run_def run_turns_running)
  obtain sock sh key where "open_session P (the_config ss) sock sh key (initial_node (the_config ss) key (session_random P)) = Ok (E, s, cs, ps)"
    using assms start_up_cases [of P "the_config ss" "shared ss"] by auto
  from run_turns_panicked [OF open_session_Ok(3) [OF this]] assms
  show "fst (session_run P A inputs ss) =
      (if \<exists>i \<in> set (takeWhile in_running inputs). \<exists>d src. in_datagram i = Some (d, src) \<and> fatal_packet E d
       then Panic else Ok ())"
    by (simp add: session_run_def Let_def)
qed

theorem session_run_ends_witness:
  "fst (session_run demo_platform demo_audio_env
     [\<lparr>in_running = True, at_time = 5000000, in_recv = Arrives [2, 0, 0] (demo_addr 9), in_samples = [], in_controls = (\<lambda>sh. sh)\<rparr>,
      \<lparr>in_running = False, at_time = 6000000, in_recv = Fails TimedOut, in_samples = [], in_controls = (\<lambda>sh. sh)\<rparr>]
     (session_new demo_config)) = Ok ()"
proof -
  obtain E s cs ps w where st: "start_up demo_platform (the_config (session_new demo_config)) (shared (session_new demo_config)) = (Ok (E, s, cs, ps), w)"
    using demo_starts [of "shared (session_new demo_config)"] by (auto simp: session_new_def)
  have "\<not> fatal_packet E [2, 0, 0]"
    using header_length by (auto simp: fatal_packet_def HEADER_LEN_def dest!: arg_cong [of "[2, 0, 0]" _ length])
  then show ?thesis using session_run_ends [OF st] by (simp add: in_datagram_def MAX_PACKET_LEN_def)
qed

text \<open>C38. The port mapping never outlives the session: whether the run ends normally, fails at any step
  of its start or dies in a panic, every port it mapped on a router that grants removals is
  unmapped again when it is over.\<close>

theorem port_mapping_released:
  assumes "\<forall>p. remove_port_ok (gateway P) p"
  shows "mapped_ports (snd (snd (session_run P A inputs ss))) {} = {}"
proof -
  have "snd (snd (session_run P A inputs ss)) = release P (snd (start_up P (the_config ss) (shared ss)))"
    by (auto simp: session_run_def Let_def split: prod.splits outcome.splits)
  then show ?thesis using release_world [OF start_up_world] assms by simp
qed

theorem port_mapping_released_witness:
  "mapped_ports (snd (snd (session_run (demo_platform\<lparr>base_env := demo_env\<lparr>net_os := demo_os\<lparr>grants := (\<lambda>s c. c \<noteq> SetReadTimeout (Some 1))\<rparr>\<rparr>\<rparr>) demo_audio_env [] (session_new demo_config)))) {} = {}"
  by (rule port_mapping_released) (simp add: demo_platform_def)

text \<open>When a run starts: exactly when the key can be derived, the socket bound and its address read,
  both sound streams started, the encoder made, the JOIN of a joiner sent and the timeout set. The
  router plays no role: no failure of the port forwarding stops a session.\<close>

theorem start_up_ok_iff:
  "is_ok (fst (start_up P cfg sh)) \<longleftrightarrow>
     (\<exists>key. derive_key_from_passphrase (prims (base_env P)) (passphrase cfg) = Ok key \<and>
        is_ok (fst (join_host ((base_env P)\<lparr>psk := key, key_pair := key_exchange_new (prims (base_env P)) (secret_random P)\<rparr>)
           cfg (initial_node cfg key (session_random P))))) \<and>
     (\<exists>sock. udp_bind (net_os (base_env P)) (bind_addr cfg) = Ok sock \<and> grants (net_os (base_env P)) sock (SetReadTimeout (Some 1))) \<and>
     (\<exists>a. local_address (base_env P) = Some a) \<and>
     is_ok (start_capture (sound P) (input_device cfg)) \<and> is_ok (start_playout (sound P) (output_device cfg)) \<and>
     opus_encoder_init (opus_lib (base_env P))"
proof -
  have ok: "is_ok x \<longleftrightarrow> (\<exists>y. x = Ok y)" for x :: "'a outcome" by (cases x) auto
  have o: "is_ok (open_session P cfg sock sh' key nd) \<longleftrightarrow>
      is_ok (start_capture (sound P) (input_device cfg)) \<and> is_ok (start_playout (sound P) (output_device cfg)) \<and>
      opus_encoder_init (opus_lib (base_env P)) \<and> grants (net_os (base_env P)) sock (SetReadTimeout (Some 1)) \<and>
      is_ok (fst (join_host ((base_env P)\<lparr>psk := key, key_pair := key_exchange_new (prims (base_env P)) (secret_random P)\<rparr>) cfg nd))"
    for sock sh' key nd
    by (cases "join_host ((base_env P)\<lparr>psk := key, key_pair := key_exchange_new (prims (base_env P)) (secret_random P)\<rparr>) cfg nd")
      (auto simp: ok and_then_eq_Ok open_session_def Let_def encoder_new_def set_read_timeout_def sys_call_Ok)
  from start_up_cases [of P cfg sh] show ?thesis
    by (elim disjE exE conjE) (auto simp: o)
qed

end
