(* ===== verification/Outbox.thy ===== *)
theory Outbox
  imports Startup
begin

text \<open>
  What every datagram of a session obeys, proved once: the locale \<open>outbox_law\<close> names the few ways in
  which the session changes its node (fixed control packets, packets under a reserved counter, audio
  under a peer's own context, changes of peers, the reset by a PEER_LIST), and from a law that each of
  them keeps follows that every handler, every timer and every turn of the loop keeps it.
\<close>

section \<open>The ways a node changes\<close>

text \<open>Control packets are sealed under a fresh context with counter 0, the others under a reserved
  counter.\<close>

definition greeting_types :: "u8 list" where
  "greeting_types = [PKT_JOIN, PKT_PEER_LIST, PKT_HELLO, PKT_HELLO_ACK]"

text \<open>What is answered with a greeting, and with which.\<close>

definition answers :: "(u8 \<times> u8) list" where
  "answers = [(PKT_JOIN, PKT_PEER_LIST), (PKT_PEER_LIST, PKT_HELLO), (PKT_HELLO, PKT_HELLO_ACK)]"

lemma answers_greet: "(cause, ty) \<in> set answers \<Longrightarrow> ty \<in> set greeting_types"
  by (auto simp: answers_def greeting_types_def)

definition control_types :: "u8 list" where
  "control_types = PKT_KEY_EXCHANGE # greeting_types"

definition counted_types :: "u8 list" where
  "counted_types = [PKT_AUDIO, PKT_KEEPALIVE, PKT_PING, PKT_PONG]"

text \<open>The replay filter of a peer for packets under the node's own context and under the peer's.\<close>

definition filter_of :: "bool \<Rightarrow> remote_peer \<Rightarrow> replay_filter" where
  "filter_of own p = (if own then peer_replay_filter p else rp_replay_filter p)"

definition set_filter :: "bool \<Rightarrow> replay_filter \<Rightarrow> remote_peer \<Rightarrow> remote_peer" where
  "set_filter own flt p = (if own then p\<lparr>peer_replay_filter := flt\<rparr> else p\<lparr>rp_replay_filter := flt\<rparr>)"

lemma filter_of_set [simp]: "filter_of own (set_filter own' flt p) = (if own = own' then flt else filter_of own p)"
  by (simp add: filter_of_def set_filter_def)

lemma set_filter_frame [simp]:
  "addr (set_filter own flt p) = addr p" "kx_received (set_filter own flt p) = kx_received p"
  "kx_sent (set_filter own flt p) = kx_sent p" "peer_crypto (set_filter own flt p) = peer_crypto p"
  by (simp_all add: set_filter_def)

text \<open>Changes of a peer that leave its address, the exchange of keys and the replay filters alone.\<close>

definition peer_frame :: "(remote_peer \<Rightarrow> remote_peer) \<Rightarrow> bool" where
  "peer_frame f \<longleftrightarrow> (\<forall>p. addr (f p) = addr p \<and> kx_received (f p) = kx_received p \<and> kx_sent (f p) = kx_sent p \<and>
     (\<forall>own. filter_of own (f p) = filter_of own p))"

lemma peer_frame_simple [simp]:
  "peer_frame (\<lambda>p. touch now (p\<lparr>state := s\<rparr>))" "peer_frame (touch now)" "peer_frame (\<lambda>p. p\<lparr>state := s\<rparr>)"
  "peer_frame (\<lambda>p. p\<lparr>rp_latency := lt\<rparr>)"
  "peer_frame (\<lambda>p. (touch now p)\<lparr>rp_latency := g p\<rparr>)" "peer_frame (\<lambda>p. p\<lparr>rp_jitter := j p\<rparr>)"
  by (simp_all add: peer_frame_def touch_def filter_of_def)

lemma peer_frame_playout [simp]: "peer_frame (\<lambda>p. snd (playout_peer opus p))"
  by (auto simp: peer_frame_def playout_peer_def filter_of_def split: prod.splits option.splits)

text \<open>Replacing a peer by a changed copy is such a change.\<close>

lemma upd_node_peer_const:
  assumes "get_peer pid (peer_mgr nd) = Some p"
  shows "upd_node_peer pid (\<lambda>_. q) nd = upd_node_peer pid (\<lambda>x. if x = p then q else x) nd"
proof -
  have "AList.map_entry pid (\<lambda>_. q) ps = AList.map_entry pid (\<lambda>x. if x = p then q else x) ps" if "map_of ps pid = Some p" for ps
    using that by (induction ps) auto
  with assms show ?thesis by (simp add: upd_node_peer_def upd_peer_def get_peer_def)
qed

lemma upd_node_peer_again: "upd_node_peer pid f (upd_node_peer pid g nd) = upd_node_peer pid (\<lambda>p. f (g p)) nd"
proof -
  have "AList.map_entry pid f (AList.map_entry pid g ps) = AList.map_entry pid (\<lambda>p. f (g p)) ps" for ps
    by (induction ps) auto
  then show ?thesis by (simp add: upd_node_peer_def upd_peer_def)
qed

text \<open>Where the peers of a table come from when one is added.\<close>

lemma add_peer_set:
  assumes "(k, p) \<in> set (peers (snd (add_peer opus now pid a pm)))"
  shows "(k, p) \<in> set (peers pm) \<or> remote_peer_new opus now pid a = Ok p \<or>
    (\<exists>q. (k, q) \<in> set (peers pm) \<and> p = q\<lparr>addr := a\<rparr>)"
proof -
  have "(k, p) \<in> set (AList.update pid q (peers pm)) \<Longrightarrow> (k, p) \<in> set (peers pm) \<or> p = q" for q
    using set_update_subset [of pid q "peers pm"] by auto
  with assms set_map_entry_cases [of k p pid "\<lambda>p. p\<lparr>addr := a\<rparr>" "peers pm"] show ?thesis
    by (cases "remote_peer_new opus now pid a") (auto simp: add_peer_def upd_peer_def split: if_splits option.splits)
qed

lemma outbox_frame [simp]:
  "outbox (upd_node_peer pid f nd) = outbox nd" "outbox (snd (node_add_peer E pid a nd)) = outbox nd"
  by (simp_all add: upd_node_peer_def node_add_peer_def case_prod_beta)

lemma check_timeouts_map:
  "check_timeouts now pm =
     pm\<lparr>peers := map (\<lambda>(k, p). (k, (\<lambda>p. if state p = Connected \<and> is_timed_out now p then p\<lparr>state := Disconnected\<rparr> else p) p)) (peers pm)\<rparr>"
  by (simp add: check_timeouts_def)

section \<open>Laws\<close>

text \<open>\<open>Q\<close> is the law, \<open>good\<close> what it asks of the environment, \<open>addr_ok\<close> of the addresses a node learns,
  \<open>small\<close> of the payloads, and \<open>allowed\<close> are the types of packets that may arrive.\<close>

locale outbox_law =
  fixes Q :: "node \<Rightarrow> bool" and good :: "env \<Rightarrow> bool" and addr_ok :: "socket_addr \<Rightarrow> bool"
    and small :: "bytes \<Rightarrow> bool" and allowed :: "u8 \<Rightarrow> bool"
  assumes peer_change: "Q nd \<Longrightarrow> peer_frame f \<Longrightarrow> Q (upd_node_peer pid f nd)"
    and peers_change: "Q nd \<Longrightarrow> peer_frame f \<Longrightarrow>
      Q (nd\<lparr>peer_mgr := (peer_mgr nd)\<lparr>peers := map (\<lambda>(k, p). (k, f p)) (peers (peer_mgr nd))\<rparr>\<rparr>)"
    and add_change: "good E \<Longrightarrow> Q nd \<Longrightarrow> addr_ok a \<Longrightarrow> Q (snd (node_add_peer E pid a nd))"
    and id_allocated: "Q nd \<Longrightarrow> allocate_peer_id (peer_mgr nd) = (ra, pm) \<Longrightarrow> Q (nd\<lparr>peer_mgr := pm\<rparr>)"
    and greeting_sent: "good E \<Longrightarrow> Q nd \<Longrightarrow> allowed cause \<Longrightarrow> (cause, ty) \<in> set answers \<Longrightarrow> small m \<Longrightarrow>
      seal E ctx ty lid 0 0 m = Ok w \<Longrightarrow> Q (snd (send_to E w a nd))"
    and key_sent: "good E \<Longrightarrow> Q nd \<Longrightarrow> get_peer pid (peer_mgr nd) = Some p \<Longrightarrow> \<not> kx_sent p \<Longrightarrow> small m \<Longrightarrow>
      seal E ctx PKT_KEY_EXCHANGE lid 0 0 m = Ok w \<Longrightarrow>
      Q (upd_node_peer pid (\<lambda>p. p\<lparr>kx_sent := True\<rparr>) (snd (send_to E w a nd)))"
    and counter_reserved: "Q nd \<Longrightarrow> next_counter (crypto_ctx nd) = (r, ctx) \<Longrightarrow> Q (nd\<lparr>crypto_ctx := ctx\<rparr>)"
    and counted_sent: "good E \<Longrightarrow> Q nd \<Longrightarrow> next_counter (crypto_ctx nd) = (Ok c, ctx) \<Longrightarrow> ty \<in> set counted_types \<Longrightarrow>
      ty = PKT_AUDIO \<or> sn = 0 \<Longrightarrow> small m \<Longrightarrow> seal E ctx ty lid sn c m = Ok w \<Longrightarrow> Q (snd (send_to E w a (nd\<lparr>crypto_ctx := ctx\<rparr>)))"
    and peer_counter_reserved: "Q nd \<Longrightarrow> get_peer pid (peer_mgr nd) = Some p \<Longrightarrow> kx_received p \<Longrightarrow>
      Q (upd_node_peer pid (\<lambda>_. p\<lparr>peer_crypto := ctx'\<rparr>) nd)"
    and peer_sent: "good E \<Longrightarrow> Q nd \<Longrightarrow> get_peer pid (peer_mgr nd) = Some p \<Longrightarrow> kx_received p \<Longrightarrow> small m \<Longrightarrow>
      seal E ctx PKT_AUDIO lid sn c m = Ok w \<Longrightarrow> Q (snd (send_to E w a nd))"
    and key_received: "allowed PKT_KEY_EXCHANGE \<Longrightarrow> Q nd \<Longrightarrow>
      Q (upd_node_peer pid (\<lambda>p. p\<lparr>peer_crypto := ctx', kx_received := True\<rparr>) nd)"
    and session_reset: "allowed PKT_PEER_LIST \<Longrightarrow> Q nd \<Longrightarrow>
      Q (nd\<lparr>peer_mgr := set_identity my_id sid (peer_mgr nd), crypto_ctx := crypto_context_new key sid\<rparr>)"
    and small_payloads: "small []" "small (ping_to_bytes (pg :: ping_payload))" "small (join_to_bytes (j :: join_payload))"
      "good E \<Longrightarrow> small (kx_to_bytes \<lparr>public_key = public_key_bytes (key_pair E)\<rparr>)"
      "good E \<Longrightarrow> opus_encode_frame (opus_lib E) en pcm = (Ok d, en') \<Longrightarrow> small d"
    and small_peer_list: "good E \<Longrightarrow> Q nd \<Longrightarrow> node_inv key nd \<Longrightarrow> addr_ok host \<Longrightarrow>
      small (peer_list_to_bytes (build_peer_list (peer_iter E) host (peer_mgr nd)))"
    and listed_addrs: "peer_list_from_bytes b = Ok pl \<Longrightarrow> e \<in> set (pl_peers pl) \<Longrightarrow> addr_ok (snd e)"
    and own_addrs: "good E \<Longrightarrow> local_address E = Some la \<Longrightarrow> addr_ok la"
      "good E \<Longrightarrow> resolve_local_ip E src = Some ip \<Longrightarrow> addr_ok (socket_addr_new ip pt)"
    and good_clock: "good (E\<lparr>clock := t\<rparr>) = good E"
    and audio_checked: "Q nd \<Longrightarrow> get_peer pid (peer_mgr nd) = Some p \<Longrightarrow> check_and_accept (filter_of own p) c = (fresh, flt) \<Longrightarrow>
      Q (upd_node_peer pid (\<lambda>_. set_filter own flt p) nd)"
begin

lemma attempt_law: "Q s \<Longrightarrow> (\<And>x. r = Ok x \<Longrightarrow> Q (snd (k x))) \<Longrightarrow> Q (snd (attempt r s k))"
  by (cases r) auto

lemma attempt_st_law:
  "Q (snd rs) \<Longrightarrow> (\<And>x. fst rs = Ok x \<Longrightarrow> Q (snd (k x (snd rs)))) \<Longrightarrow> Q (snd (attempt_st rs k))"
  by (cases "(rs, k)" rule: attempt_st.cases) auto

lemma foldl_law: "Q nd \<Longrightarrow> (\<And>nd x. Q nd \<Longrightarrow> Q (f nd x)) \<Longrightarrow> Q (foldl f nd xs)"
  by (induction xs arbitrary: nd) auto

lemma put_peer:
  assumes "Q nd" "get_peer pid (peer_mgr nd) = Some p" "addr q = addr p" "kx_received q = kx_received p" "kx_sent q = kx_sent p"
    and "\<And>own. filter_of own q = filter_of own p"
  shows "Q (upd_node_peer pid (\<lambda>_. q) nd)"
  unfolding upd_node_peer_const [OF assms(2)] using assms by (intro peer_change) (simp_all add: peer_frame_def)

lemma touch_law: "Q nd \<Longrightarrow> Q (touch_by_addr E src nd)"
  by (auto simp: touch_by_addr_def intro: peer_change split: option.splits)

lemma send_sealed_law: "Q nd \<Longrightarrow> (\<And>w. r = Ok w \<Longrightarrow> Q (snd (send_to E w a nd))) \<Longrightarrow> Q (send_sealed E r a nd)"
  by (cases r) (simp_all add: send_sealed_def)

lemma counted_law:
  assumes "good E" "Q nd" "ty \<in> set counted_types" "ty = PKT_AUDIO \<or> sn = 0" "small m" "next_counter (crypto_ctx nd) = (Ok c, ctx)"
  shows "Q (send_sealed E (seal E ctx ty lid sn c m) a (nd\<lparr>crypto_ctx := ctx\<rparr>))"
  by (rule send_sealed_law [OF counter_reserved [OF assms(2,6)] counted_sent [OF assms(1,2,6,3,4,5)]])

subsection \<open>The handlers\<close>

lemma audio_law:
  assumes "Q nd"
  shows "Q (snd (handle_audio E hb ct h nd))"
proof (cases "open_audio E hb ct h nd")
  case (Ok x)
  obtain pt used where x: "x = (pt, used)" by fastforce
  show ?thesis
  proof (cases "get_peer (peer_id h) (peer_mgr nd)")
    case None
    with Ok x assms show ?thesis by (simp add: handle_audio_def)
  next
    case (Some p)
    obtain fresh flt where chk: "check_and_accept (filter_of used p) (counter h) = (fresh, flt)" by fastforce
    let ?p = "set_filter used flt p" and ?nd = "upd_node_peer (peer_id h) (\<lambda>_. set_filter used flt p) nd"
    have nd: "Q ?nd" "get_peer (peer_id h) (peer_mgr ?nd) = Some ?p"
      using audio_checked [OF assms Some chk] Some by (simp_all add: get_upd_node_peer)
    have put: "Q (upd_node_peer (peer_id h) (\<lambda>_. q) nd)"
      if "addr q = addr p" "kx_received q = kx_received p" "kx_sent q = kx_sent p" "\<And>own. filter_of own q = filter_of own ?p" for q
      using put_peer [OF nd, of q] that by (simp add: upd_node_peer_again)
    show ?thesis unfolding handle_audio_def Let_def Ok x attempt.simps prod.case Some option.case
      using chk by (auto simp: touch_def filter_of_def set_filter_def intro!: attempt_law put split: prod.split)
  qed
qed (use assms in \<open>simp_all add: handle_audio_def\<close>)

lemma join_law:
  assumes "good E" "Q nd" "node_inv key nd" "addr_ok src" "allowed PKT_JOIN"
  shows "Q (snd (handle_join E hb ct h src nd))"
proof -
  have alloc: "Q (nd\<lparr>peer_mgr := pm\<rparr>)" "node_inv key (nd\<lparr>peer_mgr := pm\<rparr>)"
    if "allocate_peer_id (peer_mgr nd) = (r, pm)" for r pm
    using that id_allocated [OF assms(2) that] allocate_node_inv [OF assms(3) that]
    by (auto simp: allocate_peer_id_def split: if_splits)
  have rest: "Q (snd (attempt (ok_or IoFailed (local_address E)) n (\<lambda>local_addr.
        attempt (if is_unspecified (addr_ip local_addr)
                 then and_then (ok_or NoLocalIp (resolve_local_ip E src))
                        (\<lambda>ip. Ok (socket_addr_new ip (addr_port local_addr)))
                 else Ok local_addr) n (\<lambda>host_addr.
        attempt (seal E (crypto_context_new (psk E) ZERO_SESSION) PKT_PEER_LIST (local_id (peer_mgr n)) 0 0
          (peer_list_to_bytes (build_peer_list (peer_iter E) host_addr (peer_mgr n)))) n (\<lambda>w. send_to E w src n)))))"
    if "Q n" "node_inv key n" for n
    using that own_addrs [OF assms(1)] small_peer_list [OF assms(1) that]
    by (intro attempt_law greeting_sent [OF assms(1) _ assms(5)])
      (auto simp: ok_or_eq_Ok and_then_eq_Ok answers_def split: if_splits)
  show ?thesis
    unfolding handle_join_def Let_def
    using assms alloc
    by (auto intro!: attempt_law attempt_st_law rest peer_change add_change node_inv_intros split: prod.splits)
qed

lemma greet_law:
  assumes "good E" "addr_ok src" "allowed PKT_PEER_LIST" "Q nd" "\<forall>e \<in> set es. addr_ok (snd e)"
  shows "Q (snd (greet_peers E my sid sender src es nd))"
  using assms(4,5)
proof (induction es arbitrary: nd)
  case (Cons e es)
  obtain pid a where e: "e = (pid, a)" by fastforce
  show ?case
  proof (cases "pid = my")
    case True
    with Cons show ?thesis by (simp add: e)
  next
    case False
    define b where "b = (if pid = sender then src else a)"
    have "addr_ok b" using Cons.prems assms(2) by (simp add: b_def e)
    then show ?thesis
      using Cons.prems False
      by (auto simp: e Let_def answers_def small_payloads simp flip: b_def
          intro!: attempt_law attempt_st_law add_change [OF assms(1)] peer_change Cons.IH
            greeting_sent [OF assms(1) _ assms(3), where ty = PKT_HELLO])
  qed
qed simp

lemma key_exchange_sent:
  "good E \<Longrightarrow> Q nd \<Longrightarrow> get_peer pid (peer_mgr nd) = Some p \<Longrightarrow> \<not> kx_sent p \<Longrightarrow> Q (send_key_exchange E lid sid pid dst nd)"
  by (auto simp: send_key_exchange_def small_payloads split: outcome.splits intro!: key_sent)

lemma incoming_law:
  assumes "good E" "Q nd" "node_inv key nd" "addr_ok src"
    and "\<And>h ct. data = header_to_bytes h @ ct \<Longrightarrow> allowed (pkt_type h)"
  shows "Q (snd (handle_incoming E data src nd))"
proof (cases data rule: wire_cases)
  case 1
  then show ?thesis using assms(2) by (simp add: handle_incoming_short)
next
  case (2 h ct)
  note ok = assms(5) [OF 2]
  have "Q (snd (handle_peer_list E hb ct h src nd))" if "allowed PKT_PEER_LIST" for hb ct h
    unfolding handle_peer_list_def Let_def
    using assms(1,2,4) that by (auto intro!: attempt_law greet_law session_reset listed_addrs)
  moreover have "Q (snd (handle_hello E hb ct h src nd))" if "allowed PKT_HELLO" for hb ct h
    unfolding handle_hello_def Let_def
    using assms by (auto simp: answers_def small_payloads
        intro!: attempt_law attempt_st_law peer_change add_change greeting_sent [OF _ _ that, where ty = PKT_HELLO_ACK])
  moreover have "Q (snd (handle_hello_ack E hb ct h nd))" for hb ct h
    unfolding handle_hello_ack_def using assms(2) by (auto intro!: attempt_law peer_change)
  moreover have "Q (snd (handle_keepalive E src nd))"
    unfolding handle_keepalive_def using assms(2) by (auto intro!: touch_law)
  moreover have "Q (snd (handle_ping E hb ct h src nd))" for hb ct h
  proof -
    have "Q (snd (case next_counter (crypto_ctx nd) of
        (Ok c, ctx) \<Rightarrow> (Ok (), touch_by_addr E src
          (send_sealed E (seal E ctx PKT_PONG lid 0 c (ping_to_bytes pg)) src (nd\<lparr>crypto_ctx := ctx\<rparr>)))
      | (_, ctx) \<Rightarrow> (Ok (), nd\<lparr>crypto_ctx := ctx\<rparr>)))" for lid and pg :: ping_payload
      using counter_reserved [OF assms(2)] counted_law [OF assms(1,2), of PKT_PONG]
      by (auto simp: counted_types_def small_payloads intro!: touch_law split: prod.splits outcome.splits)
    then show ?thesis
      unfolding handle_ping_def Let_def send_sealed_def using assms(2) by (auto intro!: attempt_law)
  qed
  moreover have "Q (snd (handle_pong E hb ct h nd))" for hb ct h
    unfolding handle_pong_def using assms(2) by (auto intro!: attempt_law peer_change)
  moreover have "Q (snd (handle_key_exchange E hb ct h src nd))" if "allowed PKT_KEY_EXCHANGE" for hb ct h
    unfolding handle_key_exchange_def Let_def
    using assms(1,2) that
    by (auto intro!: attempt_law key_exchange_sent key_received split: option.splits)
  ultimately show ?thesis
    using ok audio_law [OF assms(2)] join_law [OF assms(1-4)] assms(2) unfolding 2 handle_incoming_wire Let_def by auto
qed

subsection \<open>The loop\<close>

lemma send_audio_to_law:
  assumes "good E" "Q nd" "small d"
  shows "Q (send_audio_to E d lid dst nd)"
proof -
  obtain pid a where dst: "dst = (pid, a)" by fastforce
  show ?thesis
  proof (cases "get_peer pid (peer_mgr nd)")
    case (Some p)
    let ?p = "p\<lparr>send_seq := send_seq p + 1\<rparr>" and ?nd = "upd_node_peer pid (\<lambda>_. p\<lparr>send_seq := send_seq p + 1\<rparr>) nd"
    have nd: "Q ?nd" by (rule put_peer [OF assms(2) Some]) (simp_all add: filter_of_def)
    have g: "get_peer pid (peer_mgr ?nd) = Some ?p" using Some by (simp add: get_upd_node_peer)
    have pc: "Q (upd_node_peer pid (\<lambda>_. ?p\<lparr>peer_crypto := c\<rparr>) ?nd)" if "kx_received p" for c
      using that by (intro peer_counter_reserved [OF nd g]) simp
    have "Q (send_sealed E (seal E ctx PKT_AUDIO lid sn c d) a (upd_node_peer pid (\<lambda>_. ?p\<lparr>peer_crypto := c'\<rparr>) ?nd))"
      if "kx_received p" for ctx sn c c'
    proof (rule send_sealed_law [OF pc [OF that]])
      have g': "get_peer pid (peer_mgr (upd_node_peer pid (\<lambda>_. ?p\<lparr>peer_crypto := c'\<rparr>) ?nd)) = Some (?p\<lparr>peer_crypto := c'\<rparr>)"
        using Some by (simp add: get_upd_node_peer)
      show "Q (snd (send_to E w a (upd_node_peer pid (\<lambda>_. ?p\<lparr>peer_crypto := c'\<rparr>) ?nd)))"
        if "seal E ctx PKT_AUDIO lid sn c d = Ok w" for w
        using \<open>kx_received p\<close> by (intro peer_sent [OF assms(1) pc [OF \<open>kx_received p\<close>] g' _ assms(3) that]) simp
    qed
    then show ?thesis
      using nd pc Some counter_reserved [OF nd] counted_law [OF assms(1) nd _ _ assms(3), of PKT_AUDIO]
      by (auto simp: dst send_audio_to_def next_seq_def Let_def counted_types_def split: prod.splits outcome.splits option.splits)
  qed (use assms in \<open>auto simp: dst send_audio_to_def\<close>)
qed

lemma transmit_law:
  assumes "good E" "Q (snd st)"
  shows "Q (snd (transmit_chunk E A v chunk st))"
proof -
  have "Q (send_audio E d nd)" if "opus_encode_frame (opus_lib E) en pcm = (Ok d, en')" "Q nd" for en pcm d en' nd
    using that assms(1) unfolding send_audio_def Let_def by (intro foldl_law send_audio_to_law small_payloads)
  with assms(2) show ?thesis
    by (auto simp: transmit_chunk_def Let_def split: prod.splits outcome.splits)
qed

lemma capture_law:
  assumes "good E" "Q (snd st)"
  shows "Q (snd (capture_step E A popped st))"
proof -
  have fold: "Q (snd s) \<Longrightarrow> (\<And>c s. Q (snd s) \<Longrightarrow> Q (snd (f c s))) \<Longrightarrow> Q (snd (foldl (\<lambda>s c. f c s) s cs))"
    for f :: "fl list \<Rightarrow> capture \<times> node \<Rightarrow> capture \<times> node" and s cs
    by (induction cs arbitrary: s) auto
  have chunks: "Q (snd s) \<Longrightarrow> Q (snd (transmit_chunks E A v xs s))" for v xs s
    unfolding transmit_loop.loop_fold by (rule fold) (auto intro: transmit_law [OF assms(1)])
  have frame: "Q (snd s) \<Longrightarrow> Q (snd (capture_frame E A c s))" for c s
    by (auto simp: capture_frame_def Let_def intro!: chunks split: prod.splits option.splits)
  have "Q (snd (foldl (\<lambda>s c. capture_frame E A c s) st cs))" for cs
    using assms(2) frame by (rule fold)
  then show ?thesis
    unfolding capture_step_def capture_loop.loop_fold by (simp split: prod.splits) (metis snd_conv)
qed

lemma timers_law:
  assumes "good E" "Q nd"
  shows "Q (snd (playout_step E nd))" "Q (keepalive_step E nd)" "Q (ping_step E nd)" "Q (adapt_step t nd)"
proof -
  show "Q (snd (playout_step E nd))"
    using peers_change [OF assms(2) peer_frame_playout] by (simp add: playout_step_def Let_def)
  have "Q n \<Longrightarrow> Q (keepalive_to E lid dst n)" for lid dst n
    using assms(1) by (auto simp: keepalive_to_def counted_types_def small_payloads counter_reserved
        intro!: counted_law split: prod.splits outcome.splits)
  then have "Q (foldl (\<lambda>nd dst. keepalive_to E lid dst nd) nd xs)" for lid xs
    using assms(2) by (intro foldl_law)
  moreover have "Q n \<Longrightarrow> Q (n\<lparr>peer_mgr := check_timeouts (clock E) (peer_mgr n)\<rparr>)" for n
    unfolding check_timeouts_map by (rule peers_change) (auto simp: peer_frame_def filter_of_def)
  ultimately show "Q (keepalive_step E nd)" by (simp add: keepalive_step_def Let_def)
  have "Q (ping_to E lid dst n)" if "Q n" for n lid dst
  proof -
    have "Q (upd_node_peer pid (\<lambda>p. p\<lparr>rp_latency := lt\<rparr>) n)" for pid lt using that by (rule peer_change) simp
    from counter_reserved [OF this] counted_law [OF assms(1) this, of PKT_PING] that show ?thesis
      by (auto simp: ping_to_def Let_def counted_types_def small_payloads split: prod.splits option.splits outcome.splits)
  qed
  moreover have "Q n \<Longrightarrow> Q (key_exchange_to E lid dst n)" for n lid dst
    using assms(1) by (auto simp: key_exchange_to_def intro!: key_exchange_sent split: prod.splits option.splits)
  ultimately show "Q (ping_step E nd)"
    unfolding ping_step_def Let_def using assms(2) by (intro foldl_law)
  show "Q (adapt_step t nd)"
    unfolding adapt_step_def using assms(2) by (rule peers_change) simp
qed

text \<open>A turn keeps the law when what it receives does.\<close>

lemma turn_after_receive:
  assumes "good E" "Q (the_node (receive_part E received (sync_controls s)))"
  shows "Q (the_node (loop_turn E A received popped s))"
proof -
  have cap: "Q (the_node (capture_part E A popped u))" if "Q (the_node u)" for u
    using that capture_law [OF assms(1), of "(the_capture u, the_node u)" A popped]
    by (auto simp: capture_part_def split: prod.splits)
  have play: "Q (the_node (playout_part E u))" if "Q (the_node u)" for u
    using that timers_law(1) [OF assms(1), of "the_node u"] by (auto simp: playout_part_def split: prod.splits)
  have keep: "Q (the_node (keepalive_part E u))" if "Q (the_node u)" for u
    using that by (simp add: keepalive_part_def timers_law(2) [OF assms(1)])
  have ping: "Q (the_node (ping_part E u))" if "Q (the_node u)" for u
    using that by (simp add: ping_part_def timers_law(3) [OF assms(1)])
  have adapt: "Q (the_node (adapt_part E u))" if "Q (the_node u)" for u
    using that by (simp add: adapt_part_def Let_def timers_law(4) [OF assms(1)])
  have ui: "the_node (ui_part E u) = the_node u" for u by (simp add: ui_part_def)
  show ?thesis using assms(2) by (simp add: loop_turn_def Let_def ui cap play keep ping adapt)
qed

lemma turn_law:
  assumes "good E" "Q (the_node s)" "node_inv key (the_node s)"
    and "\<And>d src. received = Some (d, src) \<Longrightarrow> addr_ok src"
    and "\<And>h ct src. received = Some (header_to_bytes h @ ct, src) \<Longrightarrow> allowed (pkt_type h)"
  shows "Q (the_node (loop_turn E A received popped s))"
proof (rule turn_after_receive [OF assms(1)])
  have sync: "the_node (sync_controls s) = the_node s" by (simp add: sync_controls_def Let_def)
  show "Q (the_node (receive_part E received (sync_controls s)))"
  proof (cases received)
    case (Some ds)
    obtain d src where ds: "ds = (d, src)" by fastforce
    have "Q (snd (handle_incoming E d src (the_node s)))"
      using assms by (intro incoming_law [OF assms(1-3)]) (auto simp: Some ds)
    then show ?thesis by (auto simp: Some ds receive_part_def sync split: prod.splits)
  qed (simp add: receive_part_def sync assms(2))
qed

lemma turns_law:
  assumes "good E" "psk E = key" "iterates (ping_iter E)" "Q (the_node s)" "reach (session_start key) (session_step key) s"
    and "\<And>i d src. i \<in> set inputs \<Longrightarrow> in_datagram i = Some (d, src) \<Longrightarrow> addr_ok src"
    and "\<And>i h ct src. i \<in> set inputs \<Longrightarrow> in_datagram i = Some (header_to_bytes h @ ct, src) \<Longrightarrow> allowed (pkt_type h)"
  shows "Q (the_node (run_turns E A inputs s))"
  using assms(4-7)
proof (induction inputs arbitrary: s)
  case (Cons i rest)
  let ?t = "loop_turn (E\<lparr>clock := at_time i\<rparr>) A (in_datagram i) (in_samples i) (s\<lparr>the_shared := in_controls i (the_shared s)\<rparr>)"
  have inv: "node_inv key (the_node s)" using session_sys.reach_inv [OF Cons.prems(2)] by simp
  have "Q (the_node ?t)"
  proof (rule turn_law [where key = key])
    show "addr_ok src" if "in_datagram i = Some (d, src)" for d src using Cons.prems(3) [of i d src] that by simp
    show "allowed (pkt_type h)" if "in_datagram i = Some (header_to_bytes h @ ct, src)" for h ct src
      using Cons.prems(4) [of i h ct src] that by simp
  qed (use Cons.prems assms(1) inv in \<open>simp_all add: good_clock\<close>)
  moreover have "reach (session_start key) (session_step key) ?t" by (rule turn_reach [OF assms(3,2) Cons.prems(2)])
  ultimately have "Q (the_node (run_turns E A rest ?t))"
    by (rule Cons.IH) (use Cons.prems(3,4) in \<open>meson list.set_intros(2)\<close>)+
  with \<open>Q (the_node ?t)\<close> Cons.prems(1) show ?case by (simp add: Let_def)
qed simp

end

text \<open>A law that the JOIN of the first lines keeps too holds of a whole run.\<close>

locale outbox_run = outbox_law +
  assumes join_sent: "good E \<Longrightarrow> Q nd \<Longrightarrow> small m \<Longrightarrow> seal E ctx PKT_JOIN lid 0 0 m = Ok w \<Longrightarrow> Q (snd (send_to E w a nd))"
begin

text \<open>A law that asks nothing of the environment is kept by every step of a session.\<close>

lemma step_law:
  assumes "\<And>E. good E" "\<And>a. addr_ok a" "\<And>ty. allowed ty" and "session_step key s t" "node_inv key (the_node s)" "Q (the_node s)"
  shows "Q (the_node t)"
  using assms(4)
proof cases
  case (step_join E port host)
  then show ?thesis using assms(1,6) by (auto simp: send_join_def small_payloads intro!: attempt_law join_sent)
next
  case (step_turn E A received popped)
  then show ?thesis using assms(1-3,5,6) turn_law by blast
qed (use assms(6) in simp)

lemma steps_law:
  assumes "\<And>E. good E" "\<And>a. addr_ok a" "\<And>ty. allowed ty" and "(session_step key)\<^sup>*\<^sup>* s t" "node_inv key (the_node s)" "Q (the_node s)"
  shows "Q (the_node t)"
  using assms(4)
proof (induction rule: rtranclp_induct)
  case (step t u)
  then show ?case using step_law [OF assms(1-3) step(2)] session_sys.steps_inv [OF step(1) assms(5)] by blast
qed (rule assms(6))

lemma run_law:
  assumes "session_run P A inputs ss = (r, Some s, calls)" "length (session_random P) = 8" "iterates (ping_iter (base_env P))"
    and "\<And>key. good ((base_env P)\<lparr>psk := key, key_pair := key_exchange_new (prims (base_env P)) (secret_random P)\<rparr>)"
    and "\<And>key. Q (initial_node (the_config ss) key (session_random P))"
    and "\<And>i d src. i \<in> set inputs \<Longrightarrow> in_datagram i = Some (d, src) \<Longrightarrow> addr_ok src"
    and "\<And>i h ct src. i \<in> set inputs \<Longrightarrow> in_datagram i = Some (header_to_bytes h @ ct, src) \<Longrightarrow> allowed (pkt_type h)"
  shows "Q (the_node s)"
proof -
  from assms(1) obtain E s0 cs ps w where st: "start_up P (the_config ss) (shared ss) = (Ok (E, s0, cs, ps), w)"
    and s: "s = run_turns E A inputs s0"
    by (auto simp: session_run_def Let_def split: prod.splits outcome.splits)
  from start_up_Ok [OF st assms(2)] obtain key where key: "psk E = key" "ping_iter E = ping_iter (base_env P)"
    "reach (session_start key) (session_step key) s0" by blast
  from st start_up_cases [of P "the_config ss" "shared ss"] obtain key' sock sh' where
    o: "open_session P (the_config ss) sock sh' key' (initial_node (the_config ss) key' (session_random P)) = Ok (E, s0, cs, ps)" by auto
  have E: "good E" using assms(4) open_session_Ok(1) [OF o] by simp
  have "Q (snd (join_host E (the_config ss) (initial_node (the_config ss) key' (session_random P))))"
    using assms(5) by (auto simp: join_host_def send_join_def small_payloads intro!: attempt_law join_sent [OF E] split: option.splits)
  then have "Q (the_node s0)" using open_session_Ok(2) [OF o] by simp
  from turns_law [OF E key(1) _ this key(3), of inputs A] assms(3,6,7) key(2) show ?thesis by (simp add: s)
qed

end

end
