(* ===== verification/Replay.thy ===== *)
theory Replay
  imports Handshake Outbox
begin

text \<open>
  What protects against replay and what does not. The replay filters of the peers never forget an
  accepted audio packet, whatever the session goes through; the control packets lack such a filter:
  they are sealed with fixed nonces and their handlers keep no record
  of what they have seen. The nonce of a JOIN and of its answer, and what a second delivery of a
  PEER_LIST or a KEY_EXCHANGE does to the send counters.
\<close>

section \<open>Filters do not forget\<close>

text \<open>The filters of each peer stand for accepted sets of counters, which hold the counters of \<open>M\<close>: those
  accepted under the peer's own context (\<open>True\<close>) or under the node's (\<open>False\<close>).\<close>

definition filters_hold :: "(bool \<times> u8 \<times> u32) set \<Rightarrow> u8 \<Rightarrow> remote_peer \<Rightarrow> bool" where
  "filters_hold M k p \<longleftrightarrow> (\<forall>own. \<exists>S. filter_rep (filter_of own p) S \<and> (\<forall>c. (own, k, c) \<in> M \<longrightarrow> c \<in> S))"

definition remembers :: "(bool \<times> u8 \<times> u32) set \<Rightarrow> node \<Rightarrow> bool" where
  "remembers M nd \<longleftrightarrow> (\<forall>(k, p) \<in> set (peers (peer_mgr nd)). filters_hold M k p) \<and>
     (\<forall>(own, k, c) \<in> M. k \<in> fst ` set (peers (peer_mgr nd)))"

lemma remembers_same: "remembers M nd \<Longrightarrow> peers (peer_mgr nd') = peers (peer_mgr nd) \<Longrightarrow> remembers M nd'"
  by (simp add: remembers_def)

lemma remembers_upd:
  assumes "remembers M nd" "\<And>p. (pid, p) \<in> set (peers (peer_mgr nd)) \<Longrightarrow> filters_hold M pid p \<Longrightarrow> filters_hold M pid (f p)"
  shows "remembers M (upd_node_peer pid f nd)"
proof -
  let ?ps = "peers (peer_mgr nd)"
  have "filters_hold M k q" if "(k, q) \<in> set (AList.map_entry pid f ?ps)" for k q
    using set_map_entry_cases [OF that] assms by (auto simp: remembers_def)
  then show ?thesis using assms(1) by (auto simp: remembers_def upd_node_peer_def upd_peer_def dom_map_entry)
qed

lemma filters_hold_frame: "filters_hold M k p \<Longrightarrow> (\<And>own. filter_of own q = filter_of own p) \<Longrightarrow> filters_hold M k q"
  by (simp add: filters_hold_def)

lemma filters_hold_new:
  assumes "remote_peer_new opus now k a = Ok p" "\<forall>(own, k', c) \<in> M. k' \<noteq> k"
  shows "filters_hold M k p"
proof -
  have "filter_of own p = replay_filter_new" for own
    using assms(1) by (auto simp: remote_peer_new_def and_then_eq_Ok filter_of_def)
  then show ?thesis using assms(2) filter_rep_new by (auto simp: filters_hold_def)
qed

lemma filters_hold_checked:
  assumes "filters_hold M k p" "check_and_accept (filter_of own p) c = (fresh, flt)"
  shows "filters_hold M k (set_filter own flt p) \<and> (fresh \<longrightarrow> filters_hold (insert (own, k, c) M) k (set_filter own flt p))"
proof -
  obtain S where S: "filter_rep (filter_of own p) S" "\<forall>c. (own, k, c) \<in> M \<longrightarrow> c \<in> S" using assms(1) by (auto simp: filters_hold_def)
  from window.check_stands_for [OF S(1) assms(2)] S(2) assms(1) show ?thesis
    by (auto simp: filters_hold_def split: if_splits)
qed

lemma remembers_add:
  assumes "remembers M nd"
  shows "remembers M (snd (node_add_peer E pid a nd))"
proof (cases "get_peer pid (peer_mgr nd)")
  case None
  then have new: "pid \<notin> fst ` set (peers (peer_mgr nd))" by (simp add: get_peer_def map_of_eq_None_iff)
  have "pid \<notin> fst ` set ps \<Longrightarrow> AList.update pid p ps = ps @ [(pid, p)]" for p and ps :: "(u8 \<times> remote_peer) list"
    by (induction ps) auto
  with new have upd: "AList.update pid p (peers (peer_mgr nd)) = peers (peer_mgr nd) @ [(pid, p)]" for p by blast
  have "\<forall>(own, k, c) \<in> M. k \<noteq> pid" using assms new by (auto simp: remembers_def)
  with filters_hold_new [of "opus_lib E" "clock E" pid a] None assms show ?thesis
    by (auto simp: node_add_peer_def add_peer_def remembers_def upd split: attempt_split)
next
  case (Some p)
  have upd: "remembers M (upd_node_peer pid (\<lambda>p. p\<lparr>addr := a\<rparr>) nd)"
    by (rule remembers_upd [OF assms]) (rule filters_hold_frame, assumption, simp add: filter_of_def)
  have "peers (peer_mgr (snd (node_add_peer E pid a nd))) = peers (peer_mgr nd) \<or>
      peers (peer_mgr (snd (node_add_peer E pid a nd))) = peers (peer_mgr (upd_node_peer pid (\<lambda>p. p\<lparr>addr := a\<rparr>) nd))"
    using Some by (simp add: node_add_peer_def add_peer_def upd_node_peer_def upd_peer_def)
  then show ?thesis
    using remembers_same [OF assms, of "snd (node_add_peer E pid a nd)"] remembers_same [OF upd, of "snd (node_add_peer E pid a nd)"]
    by argo
qed

interpretation memory_law: outbox_run "remembers M" "\<lambda>_. True" "\<lambda>_. True" "\<lambda>_. True" "\<lambda>_. True" for M
proof (unfold_locales, goal_cases)
  case (1 nd f pid)
  then show ?case by (intro remembers_upd) (simp_all add: filters_hold_def peer_frame_def)
next
  case (2 nd f)
  have "filters_hold M k (f p) = filters_hold M k p" for k p using 2(2) by (simp add: filters_hold_def peer_frame_def)
  moreover have "fst ` set (map (\<lambda>(k, p). (k, f p)) ps) = fst ` set ps" for ps :: "(u8 \<times> remote_peer) list"
    by (induction ps) auto
  moreover have "(\<forall>(k, p) \<in> set (map (\<lambda>(k, p). (k, f p)) ps). filters_hold M k p) \<longleftrightarrow>
      (\<forall>(k, p) \<in> set ps. filters_hold M k (f p))" for ps by auto
  ultimately show ?case using 2(1) by (simp add: remembers_def del: set_map)
next
  case (3 E nd a pid)
  then show ?case by (intro remembers_add)
next
  case (6 E nd pid p m ctx lid w a)
  have "remembers M (snd (send_to E w a nd))" using 6(2) by (rule remembers_same) (simp add: send_to_def)
  then show ?case by (rule remembers_upd) (rule filters_hold_frame, assumption, simp add: filter_of_def)
next
  case (9 nd pid p ctx')
  show ?case unfolding upd_node_peer_const [OF 9(2)]
    by (rule remembers_upd [OF 9(1)]) (rule filters_hold_frame, assumption, simp add: filter_of_def)
next
  case (11 nd pid ctx')
  show ?case by (rule remembers_upd [OF 11(2)]) (rule filters_hold_frame, assumption, simp add: filter_of_def)
next
  case (23 nd pid p own c fresh flt)
  then show ?case unfolding upd_node_peer_const [OF 23(2)]
    by (intro remembers_upd) (auto dest: filters_hold_checked)
qed (auto simp: set_identity_def send_to_def allocate_peer_id_def elim!: remembers_same split: if_splits)

lemma session_remembers_none: "reach (session_start key) (session_step key) s \<Longrightarrow> remembers {} (the_node s)"
proof (induction rule: reach.induct)
  case (reach_start s)
  then show ?case by (auto simp: session_start_def remembers_def new_host_def new_joiner_def)
next
  case (reach_step s t)
  then show ?case using session_sys.reach_inv memory_law.step_law by blast
qed

text \<open>An accepted packet is remembered, and a remembered one is refused.\<close>

lemma accepted_remembered:
  assumes "remembers M nd" "handle_audio E hb ct h nd = (Ok (), nd1)" "get_peer (peer_id h) (peer_mgr nd) = Some p"
    and "open_audio E hb ct h nd = Ok (pt, own)" "node_inv key nd"
  shows "remembers {(own, peer_id h, counter h)} nd1"
proof -
  from handle_audio_Ok [OF assms(2,3)] obtain pt' used flt de pcm where o: "open_audio E hb ct h nd = Ok (pt', used)"
    and f: "check_and_accept (if used then peer_replay_filter p else rp_replay_filter p) (counter h) = (True, flt)"
    and n: "nd1 = upd_node_peer (peer_id h) (\<lambda>_. (if used then p\<lparr>last_seen := clock E, peer_replay_filter := flt\<rparr> else p\<lparr>last_seen := clock E, rp_replay_filter := flt\<rparr>)
       \<lparr>rp_decoder := de, rp_jitter := jb_push (rp_jitter p) (seq_num h) pcm\<rparr>) nd" by metis
  from o assms(4) have used: "used = own" by simp
  have f: "check_and_accept (filter_of own p) (counter h) = (True, flt)" using f by (simp add: used filter_of_def)
  have nd1: "nd1 = upd_node_peer (peer_id h) (\<lambda>_. (set_filter own flt (p\<lparr>last_seen := clock E\<rparr>))
       \<lparr>rp_decoder := de, rp_jitter := jb_push (rp_jitter p) (seq_num h) pcm\<rparr>) nd" using n by (simp add: used set_filter_def)
  let ?M = "{(own, peer_id h, counter h)}" and ?ps = "peers (peer_mgr nd)"
  let ?q = "(set_filter own flt (p\<lparr>last_seen := clock E\<rparr>))\<lparr>rp_decoder := de, rp_jitter := jb_push (rp_jitter p) (seq_num h) pcm\<rparr>"
  have ps: "peers (peer_mgr nd1) = AList.map_entry (peer_id h) (\<lambda>_. ?q) ?ps" by (simp add: nd1 upd_node_peer_def upd_peer_def)
  have p: "map_of ?ps (peer_id h) = Some p" using assms(3) by (simp add: get_peer_def)
  have none: "filters_hold {} k r" if "(k, r) \<in> set ?ps" for k r
    using assms(1) that by (fastforce simp: remembers_def filters_hold_def)
  have "filters_hold ?M (peer_id h) (set_filter own flt p)"
    using filters_hold_checked [OF none [OF map_of_SomeD [OF p]] f] by simp
  then have q: "filters_hold ?M (peer_id h) ?q"
    by (rule filters_hold_frame) (simp add: filter_of_def set_filter_def)
  have "filters_hold ?M k r" if "(k, r) \<in> set (peers (peer_mgr nd1))" for k r
  proof (cases "k = peer_id h")
    case True
    have "distinct (map fst (peers (peer_mgr nd1)))" using assms(5) by (simp add: ps node_inv_def pm_inv_def table_ok_def)
    from map_of_is_SomeI [OF this that] True p have "r = ?q" by (simp add: ps map_of_map_entry)
    with q True show ?thesis by simp
  next
    case False
    then have "(k, r) \<in> set ?ps" using that set_map_entry_cases [of k r "peer_id h" "\<lambda>_. ?q" ?ps] by (auto simp: ps)
    from none [OF this] False show ?thesis by (simp add: filters_hold_def)
  qed
  moreover have "peer_id h \<in> fst ` set (peers (peer_mgr nd1))" using map_of_SomeD [OF p] by (force simp: ps dom_map_entry)
  ultimately show ?thesis by (auto simp: remembers_def)
qed

lemma remembered_refused:
  assumes "remembers {(own, peer_id h, counter h)} nd" "open_audio E hb ct h nd = Ok (pt, own)"
  shows "handle_audio E hb ct h nd = (Err (ReplayDetected (peer_id h)), upd_node_peer (peer_id h) (touch (clock E)) nd)"
proof -
  obtain p where p: "get_peer (peer_id h) (peer_mgr nd) = Some p"
    using assms(1) by (cases "get_peer (peer_id h) (peer_mgr nd)") (auto simp: remembers_def get_peer_def map_of_eq_None_iff)
  then have "filters_hold {(own, peer_id h, counter h)} (peer_id h) p"
    using assms(1) by (auto simp: remembers_def get_peer_def dest!: map_of_SomeD)
  then obtain S where S: "filter_rep (filter_of own p) S" "counter h \<in> S" by (auto simp: filters_hold_def)
  have "check_and_accept (filter_of own p) (counter h) = (False, filter_of own p)"
    using window.check_rejects [OF S(1)] window.admit_fresh S(2) by blast
  with handle_audio_replay [OF assms(2) p] show ?thesis by (simp add: filter_of_def)
qed

text \<open>The keys and sessions under which a node opens a peer's audio.\<close>

definition audio_keys :: "u8 \<Rightarrow> node \<Rightarrow> (bytes \<times> bytes) \<times> (bytes \<times> bytes) option" where
  "audio_keys pid nd =
     ((cipher_key (crypto_ctx nd), ctx_session_id (crypto_ctx nd)),
      map_option (\<lambda>c. (cipher_key c, ctx_session_id c))
        (Option.bind (get_peer pid (peer_mgr nd)) (\<lambda>p. if kx_received p then peer_crypto p else None)))"

lemma open_audio_keys:
  assumes "prims E' = prims E" "audio_keys (peer_id h) nd' = audio_keys (peer_id h) nd"
  shows "open_audio E' hb ct h nd' = open_audio E hb ct h nd"
proof -
  have eq: "open_packet E' c' hb ct h = open_packet E c hb ct h"
    if "(cipher_key c', ctx_session_id c') = (cipher_key c, ctx_session_id c)" for c c'
    using that assms(1) by (simp add: open_packet_def decrypt_def)
  let ?b = "\<lambda>nd. Option.bind (get_peer (peer_id h) (peer_mgr nd)) (\<lambda>p. if kx_received p then peer_crypto p else None)"
  have "open_packet E' (crypto_ctx nd') hb ct h = open_packet E (crypto_ctx nd) hb ct h"
    using assms(2) by (intro eq) (simp add: audio_keys_def)
  moreover have "map_option (\<lambda>c. (cipher_key c, ctx_session_id c)) (?b nd') = map_option (\<lambda>c. (cipher_key c, ctx_session_id c)) (?b nd)"
    using assms(2) by (simp add: audio_keys_def)
  moreover have "open_packet E' c' hb ct h = open_packet E c hb ct h" if "?b nd' = Some c'" "?b nd = Some c" for c c'
    using assms(2) that by (intro eq) (simp add: audio_keys_def)
  ultimately show ?thesis by (cases "?b nd'"; cases "?b nd") (auto simp: open_audio_def Let_def)
qed

section \<open>Frames\<close>

lemma greet_peers_frame:
  "crypto_ctx (snd (greet_peers E my sid sender src es nd)) = crypto_ctx nd \<and>
   local_id (peer_mgr (snd (greet_peers E my sid sender src es nd))) = local_id (peer_mgr nd) \<and>
   session_id (peer_mgr (snd (greet_peers E my sid sender src es nd))) = session_id (peer_mgr nd)"
proof (induction es arbitrary: nd)
  case (Cons e es)
  obtain pid a where e: "e = (pid, a)" by fastforce
  have add: "crypto_ctx nd1 = crypto_ctx nd \<and> local_id (peer_mgr nd1) = local_id (peer_mgr nd) \<and>
      session_id (peer_mgr nd1) = session_id (peer_mgr nd)" if "node_add_peer E pid b nd = (r, nd1)" for b r nd1
    using that add_peer_frame [of "opus_lib E" "clock E" pid b "peer_mgr nd"]
    by (auto simp: node_add_peer_def split: prod.splits)
  have snt: "crypto_ctx nd2 = crypto_ctx nd1 \<and> peer_mgr nd2 = peer_mgr nd1" if "send_to E w b nd1 = (r, nd2)" for w b r nd1 nd2
    using that by (auto simp: send_to_def split: if_splits)
  have upd: "crypto_ctx (upd_node_peer pid f nd2) = crypto_ctx nd2 \<and>
      local_id (peer_mgr (upd_node_peer pid f nd2)) = local_id (peer_mgr nd2) \<and>
      session_id (peer_mgr (upd_node_peer pid f nd2)) = session_id (peer_mgr nd2)" for f nd2
    by (simp add: upd_node_peer_def upd_peer_def)
  show ?case
  proof (cases "pid = my")
    case True
    with Cons show ?thesis by (simp add: e)
  next
    case False
    let ?b = "if pid = sender then src else a"
    obtain r1 nd1 where a1: "node_add_peer E pid ?b nd = (r1, nd1)" by fastforce
    show ?thesis
    proof (cases "\<exists>w. r1 = Ok () \<and> seal E (crypto_context_new (psk E) sid) PKT_HELLO my 0 0 [] = Ok w")
      case True
      then obtain w where w: "r1 = Ok ()" "seal E (crypto_context_new (psk E) sid) PKT_HELLO my 0 0 [] = Ok w" by blast
      obtain r2 nd2 where s2: "send_to E w ?b nd1 = (r2, nd2)" by fastforce
      show ?thesis
        using False a1 w s2 add [OF a1] snt [OF s2] upd Cons.IH [of "upd_node_peer pid (\<lambda>p. p\<lparr>state := HelloSent\<rparr>) nd2"]
        by (cases r2) (simp_all add: e Let_def)
    next
      case notsent: False
      with False a1 add [OF a1] show ?thesis
        by (cases r1; cases "seal E (crypto_context_new (psk E) sid) PKT_HELLO my 0 0 []") (auto simp: e Let_def)
    qed
  qed
qed simp

lemma peer_list_effect:
  assumes "open_packet E (crypto_context_new (psk E) ZERO_SESSION) hb ct h = Ok pt" "peer_list_from_bytes pt = Ok pl"
    and "max_id (map fst (pl_peers pl)) = Some my"
  shows "crypto_ctx (snd (handle_peer_list E hb ct h src nd)) = crypto_context_new (psk E) (pl_session_id pl)"
    and "local_id (peer_mgr (snd (handle_peer_list E hb ct h src nd))) = my"
    and "session_id (peer_mgr (snd (handle_peer_list E hb ct h src nd))) = pl_session_id pl"
  using assms greet_peers_frame by (simp_all add: handle_peer_list_def Let_def set_identity_def)

lemma peer_list_Ok:
  assumes "handle_peer_list E hb ct h src nd = (Ok (), nd1)"
  obtains pt pl my where "open_packet E (crypto_context_new (psk E) ZERO_SESSION) hb ct h = Ok pt"
    "peer_list_from_bytes pt = Ok pl" "max_id (map fst (pl_peers pl)) = Some my"
  using assms by (auto simp: handle_peer_list_def attempt_eq_Ok ok_or_eq_Ok intro: that)

lemma key_exchange_effect:
  assumes "open_packet E (crypto_context_new (psk E) (session_id (peer_mgr nd))) hb ct h = Ok pt" "kx_from_bytes pt = Ok kx"
    and "derive_peer_key (prims E) (key_pair E) (public_key kx) (session_id (peer_mgr nd)) (local_id (peer_mgr nd)) (peer_id h) = Ok dk"
    and "get_peer (peer_id h) (peer_mgr nd) = Some p"
  shows "map_option peer_crypto (get_peer (peer_id h) (peer_mgr (snd (handle_key_exchange E hb ct h src nd)))) =
    Some (Some (crypto_context_new dk (session_id (peer_mgr nd))))"
proof -
  have "map_option peer_crypto (get_peer pid (peer_mgr (send_key_exchange E lid sid pid dst nd'))) =
      map_option peer_crypto (get_peer pid (peer_mgr nd'))" for pid lid sid dst nd'
    by (auto simp: send_key_exchange_def get_upd_node_peer send_to_def option.map_comp comp_def split: outcome.splits)
  with assms show ?thesis
    by (simp add: handle_key_exchange_def Let_def get_upd_node_peer del: map_option_eq_Some)
qed

lemma key_exchange_Ok:
  assumes "handle_key_exchange E hb ct h src nd = (Ok (), nd1)"
  obtains pt kx dk where "open_packet E (crypto_context_new (psk E) (session_id (peer_mgr nd))) hb ct h = Ok pt"
    "kx_from_bytes pt = Ok kx"
    "derive_peer_key (prims E) (key_pair E) (public_key kx) (session_id (peer_mgr nd)) (local_id (peer_mgr nd)) (peer_id h) = Ok dk"
  using assms by (auto simp: handle_key_exchange_def Let_def attempt_eq_Ok intro: that)

section \<open>Properties\<close>

text \<open>Joining reuses a nonce: the JOIN of a joiner and the PEER_LIST with which the host answers it are
  sealed under the same key and the same nonce (session id, sender id, sequence number and counter
  are zero in both), although their contents differ.\<close>

theorem join_answer_reuses_nonce:
  assumes "env_ok EJ" "env_ok EH" "prims EJ = prims EH" "psk EJ = key" "psk EH = key"
    and "local_address EH = Some hA" "\<not> is_unspecified (addr_ip hA)" "iterates (peer_iter EH)" "length sid = 8"
  shows "\<exists>w1 w2 n h1 h2 m1 m2 c1 c2.
    outbox (snd (send_join EJ port aH (fresh_joiner key))) = [(w1, aH)] \<and> w1 = h1 @ c1 \<and>
    outbox (snd (handle_incoming EH w1 aJ (fresh_host key sid))) = [(w2, aJ)] \<and> w2 = h2 @ c2 \<and>
    aead_encrypt (prims EH) key n h1 m1 = Some c1 \<and> aead_encrypt (prims EH) key n h2 m2 = Some c2 \<and> m1 \<noteq> m2"
proof -
  let ?j = "join_to_bytes \<lparr>listen_port = port\<rparr>" and ?n = "build_nonce ZERO_SESSION 0 Send 0 0"
  let ?h1 = "header_to_bytes (packet_header_new PKT_JOIN 0 0 0)" and ?h2 = "header_to_bytes (packet_header_new PKT_PEER_LIST 0 0 0)"
  have enc: "encrypt P (crypto_context_new key ZERO_SESSION) hb m 0 0 0 = Ok c \<Longrightarrow> aead_encrypt P key ?n hb m = Some c" for P hb m c
    by (simp add: encrypt_def crypto_context_new_def ok_or_eq_Ok)
  obtain c1 where c1: "seal EJ (crypto_context_new key ZERO_SESSION) PKT_JOIN 0 0 0 ?j = Ok (?h1 @ c1)"
    "encrypt (prims EJ) (crypto_context_new key ZERO_SESSION) ?h1 ?j 0 0 0 = Ok c1" using env_ok_seal [OF assms(1)] by metis
  have s1: "outbox (snd (send_join EJ port aH (fresh_joiner key))) = [(?h1 @ c1, aH)]"
    using assms(1,4) c1(1) by (simp add: send_join_def) (simp add: fresh_joiner_def)
  obtain p c2 where c2: "encrypt (prims EH) (crypto_context_new key ZERO_SESSION) ?h2
       (peer_list_to_bytes \<lparr>pl_session_id = sid, pl_peers = [(0, hA), (1, aJ)]\<rparr>) 0 0 0 = Ok c2"
    and r2: "handle_incoming EH (?h1 @ c1) aJ (fresh_host key sid) =
       (Ok (), (fresh_host key sid)\<lparr>peer_mgr := (new_host sid)\<lparr>peers := [(1, p)], addr_to_id := [aJ \<mapsto> 1], next_peer_id := 2\<rparr>,
          outbox := [(?h2 @ c2, aJ)]\<rparr>)"
    using host_answers_join [OF assms(2,5,6,7,8) c1(2) [unfolded assms(3)], of aJ sid] by blast
  then have s2: "outbox (snd (handle_incoming EH (?h1 @ c1) aJ (fresh_host key sid))) = [(?h2 @ c2, aJ)]" by simp
  have "length ?j = 2" "9 \<le> length (peer_list_to_bytes \<lparr>pl_session_id = sid, pl_peers = [(0, hA), (1, aJ)]\<rparr>)"
    using assms(9) by (simp_all add: join_to_bytes_def peer_list_to_bytes_def u16_to_be_bytes_def)
  then have "?j \<noteq> peer_list_to_bytes \<lparr>pl_session_id = sid, pl_peers = [(0, hA), (1, aJ)]\<rparr>" by auto
  with s1 s2 enc [OF c1(2)] enc [OF c2] assms(3) show ?thesis by (metis (no_types))
qed

theorem join_answer_reuses_nonce_witness:
  "\<exists>n h1 h2 m1 m2 c1 c2. m1 \<noteq> m2 \<and>
     aead_encrypt demo_prims (replicate 32 5) n h1 m1 = Some c1 \<and> aead_encrypt demo_prims (replicate 32 5) n h2 m2 = Some c2 \<and>
     outbox (snd (send_join demo_env 5001 (demo_addr 5000) (fresh_joiner (replicate 32 5)))) = [(h1 @ c1, demo_addr 5000)] \<and>
     outbox (snd (handle_incoming demo_env (h1 @ c1) (demo_addr 5001) (fresh_host (replicate 32 5) (replicate 8 7)))) =
       [(h2 @ c2, demo_addr 5001)]"
proof -
  have "prims demo_env = demo_prims" "psk demo_env = replicate 32 5" "local_address demo_env = Some (demo_addr 5000)"
    "\<not> is_unspecified (addr_ip (demo_addr 5000))" "iterates (peer_iter demo_env)"
    by (simp_all add: demo_env_def demo_addr_def iterates_rev)
  with join_answer_reuses_nonce [OF demo_env_ok demo_env_ok refl, of "replicate 32 5" "demo_addr 5000" "replicate 8 7" 5001
      "demo_addr 5000" "demo_addr 5001"]
  show ?thesis by fastforce
qed

text \<open>C1. A replayed audio packet is refused for as long as the session lives. Once a turn of a session has
  accepted an audio datagram from a known peer, then after any further turns, JOINs and changes of
  controls, whatever they receive and send, the same datagram from any address, at any time, is
  reported as a replay and changes nothing but that peer's last-seen time, provided it opens as it did
  the first time: under the node's own context, or under the peer's. It does so while the keys and
  sessions of these contexts are what they were. If it opens under neither, it is an error and changes
  nothing at all. (Each context has a filter of its own; a datagram that opens under the other one than
  before is judged by the other filter.)\<close>

theorem audio_replay_refused:
  assumes "reach (session_start key) (session_step key) s" "psk E = key" "iterates (ping_iter E)"
    and "pkt_type h = PKT_AUDIO" "get_peer (peer_id h) (peer_mgr (the_node s)) = Some p"
    and "open_audio E (header_to_bytes h) ct h (the_node s) = Ok (pt, own)"
    and "fst (handle_incoming E (header_to_bytes h @ ct) src (the_node s)) = Ok ()"
    and "(session_step key)\<^sup>*\<^sup>* (loop_turn E A (Some (header_to_bytes h @ ct, src)) popped s) s'"
  shows "let refused = (handle_incoming E' (header_to_bytes h @ ct) src' (the_node s') =
        (Err (ReplayDetected (peer_id h)), upd_node_peer (peer_id h) (touch (clock E')) (the_node s'))) in
    (\<forall>pt'. open_audio E' (header_to_bytes h) ct h (the_node s') = Ok (pt', own) \<longrightarrow> refused) \<and>
    (prims E' = prims E \<and> audio_keys (peer_id h) (the_node s') = audio_keys (peer_id h) (the_node s) \<longrightarrow> refused) \<and>
    ((\<nexists>x. open_audio E' (header_to_bytes h) ct h (the_node s') = Ok x) \<longrightarrow>
      (\<exists>e. handle_incoming E' (header_to_bytes h @ ct) src' (the_node s') = (Err e, the_node s')))"
proof -
  let ?hb = "header_to_bytes h" and ?M = "{(own, peer_id h, counter h)}"
  let ?t = "loop_turn E A (Some (?hb @ ct, src)) popped s"
  have inc: "handle_incoming X (?hb @ ct) a n = handle_audio X ?hb ct h n" for X a n
    using assms(4) by (simp add: handle_incoming_wire Let_def)
  have inv: "node_inv key (the_node s)" by (rule session_sys.reach_inv [OF assms(1)])
  obtain nd1 where nd1: "handle_audio E ?hb ct h (the_node s) = (Ok (), nd1)"
    using assms(7) inc by (metis prod.collapse)
  have "remembers ?M nd1"
    by (rule accepted_remembered [OF session_remembers_none [OF assms(1)] nd1 assms(5,6) inv])
  moreover have "the_node (receive_part E (Some (?hb @ ct, src)) (sync_controls s)) = nd1"
    using nd1 inc by (simp add: receive_part_def sync_controls_def Let_def)
  ultimately have turn: "remembers ?M (the_node ?t)" by (intro memory_law.turn_after_receive) simp_all
  have "session_step key s ?t" using assms(2,3) by (rule step_turn)
  then have "node_inv key (the_node ?t)" by (rule session_sys.step_inv [OF inv])
  then have late: "remembers ?M (the_node s')"
    by (intro memory_law.steps_law [OF _ _ _ assms(8) _ turn]) simp_all
  have "\<exists>e. handle_audio E' ?hb ct h (the_node s') = (Err e, the_node s')"
    if "\<nexists>x. open_audio E' ?hb ct h (the_node s') = Ok x"
    using that open_audio_not_Panic [of E' ?hb ct h "the_node s'"]
    by (cases "open_audio E' ?hb ct h (the_node s')") (simp_all add: handle_audio_def)
  then show ?thesis
    using remembered_refused [OF late] open_audio_keys [of E' E h "the_node s'" "the_node s" ?hb ct] assms(6)
    by (auto simp: inc Let_def)
qed

text \<open>Two packets of a peer are accepted in two turns; then the first one comes again.\<close>

lemma demo_packet_accepted:
  assumes "get_peer 1 (peer_mgr nd) = Some p" "\<not> uses_peer_key p" "crypto_ctx nd = crypto_context_new (replicate 32 5) (replicate 8 7)"
    and "check_and_accept (rp_replay_filter p) c = (True, flt)"
  obtains h ct nd' where "pkt_type h = PKT_AUDIO" "peer_id h = 1" "counter h = c"
    "handle_incoming (demo_env\<lparr>clock := 0\<rparr>) (header_to_bytes h @ ct) src nd = (Ok (), nd')"
    "\<exists>pt. open_audio (demo_env\<lparr>clock := 0\<rparr>) (header_to_bytes h) ct h nd = Ok (pt, False)" "crypto_ctx nd' = crypto_ctx nd"
    "\<exists>q. get_peer 1 (peer_mgr nd') = Some q \<and> \<not> uses_peer_key q \<and> rp_replay_filter q = flt"
proof -
  let ?E = "demo_env\<lparr>clock := 0\<rparr>" and ?h = "packet_header_new PKT_AUDIO 1 9 c"
  have ok: "env_ok ?E" using demo_env_ok by (simp add: env_ok_def)
  obtain ct where w: "seal ?E (crypto_ctx nd) PKT_AUDIO 1 9 c [4, 5] = Ok (header_to_bytes ?h @ ct)"
    "encrypt (prims ?E) (crypto_ctx nd) (header_to_bytes ?h) [4, 5] 1 9 c = Ok ct" using env_ok_seal [OF ok] by metis
  have ctx: "audio_context nd p = crypto_ctx nd" using assms(2) by (auto simp: audio_context_def uses_peer_key_def split: option.splits)
  obtain de where de: "opus_decode_packet (opus_lib ?E) (rp_decoder p) [4, 5] = (Ok [4, 5], de)"
    by (simp add: opus_decode_packet_def demo_env_def demo_opus_def FRAME_SAMPLES_def)
  have "aead_ok (prims ?E)" by (simp add: demo_env_def demo_aead_ok)
  from sealed_audio_accepted [OF this w(1) refl assms(1), of flt "[4, 5]" de src] assms(2,4) de
  have acc: "handle_incoming ?E (header_to_bytes ?h @ ct) src nd = (Ok (), upd_node_peer 1 (\<lambda>_.
      (p\<lparr>last_seen := clock ?E, rp_replay_filter := flt\<rparr>)\<lparr>rp_decoder := de, rp_jitter := jb_push (rp_jitter p) 9 [4, 5]\<rparr>) nd)"
    by (simp add: ctx)
  have "open_packet ?E (audio_context nd p) (header_to_bytes ?h) ct ?h = Ok [4, 5]"
    unfolding ctx by (rule env_ok_open [where E' = ?E]) (use ok w(2) in \<open>simp_all add: packet_header_new_def\<close>)
  then have "open_audio ?E (header_to_bytes ?h) ct ?h nd = Ok ([4, 5], uses_peer_key p)"
    using assms(1) by (intro open_audio_sealed) (simp_all add: packet_header_new_def)
  with that [of ?h ct, OF _ _ _ acc] assms(1,2) show ?thesis
    by (simp add: packet_header_new_def get_upd_node_peer uses_peer_key_def)
qed

theorem audio_replay_refused_witness:
  "\<exists>s w w'. reach (session_start (replicate 32 5)) (session_step (replicate 32 5)) s \<and>
     (let E = demo_env\<lparr>clock := 0\<rparr>; s1 = loop_turn E demo_audio_env (Some (w, demo_addr 5001)) [] s;
          s2 = loop_turn E demo_audio_env (Some (w', demo_addr 5001)) [] s1 in
      fst (handle_incoming E w (demo_addr 5001) (the_node s)) = Ok () \<and>
      fst (handle_incoming E w' (demo_addr 5001) (the_node s1)) = Ok () \<and>
      fst (handle_incoming E w (demo_addr 6) (the_node s2)) = Err (ReplayDetected 1))"
proof -
  let ?E = "demo_env\<lparr>clock := 0\<rparr>" and ?key = "replicate 32 5 :: bytes" and ?a = "demo_addr 5001"
  obtain s p where r: "reach (session_start ?key) (session_step ?key) s"
    and p: "get_peer 1 (peer_mgr (the_node s)) = Some p" "untouched p"
    and ctx: "crypto_ctx (the_node s) = crypto_context_new ?key (replicate 8 7)"
    and q: "the_timers s = timers_zero" "capture_accum (the_capture s) = []" by (rule demo_joined)
  obtain f1 f2 where f: "check_and_accept replay_filter_new 7 = (True, f1)" "check_and_accept f1 8 = (True, f2)"
    by (simp add: check_and_accept_def replay_filter_new_def Let_def)
  have u: "\<not> uses_peer_key p" "check_and_accept (rp_replay_filter p) 7 = (True, f1)"
    using p(2) f(1) by (simp_all add: untouched_def uses_peer_key_def)
  obtain h ct nd1 where h: "pkt_type h = PKT_AUDIO" "peer_id h = 1"
    and i1: "handle_incoming ?E (header_to_bytes h @ ct) ?a (the_node s) = (Ok (), nd1)" "crypto_ctx nd1 = crypto_ctx (the_node s)"
    and o: "\<exists>pt. open_audio ?E (header_to_bytes h) ct h (the_node s) = Ok (pt, False)"
    and q1: "\<exists>q. get_peer 1 (peer_mgr nd1) = Some q \<and> \<not> uses_peer_key q \<and> rp_replay_filter q = f1"
    by (rule demo_packet_accepted [OF p(1) u(1) ctx u(2), of ?a]) blast
  let ?s1 = "loop_turn ?E demo_audio_env (Some (header_to_bytes h @ ct, ?a)) [] s"
  from turn_at_zero [OF q _ i1(1), of demo_audio_env] have s1: "the_node ?s1 = nd1" "the_timers ?s1 = timers_zero"
    "capture_accum (the_capture ?s1) = []" by simp_all
  from q1 obtain q where qq: "get_peer 1 (peer_mgr nd1) = Some q" "\<not> uses_peer_key q" "rp_replay_filter q = f1" by blast
  have c1: "crypto_ctx nd1 = crypto_context_new ?key (replicate 8 7)" using i1(2) ctx by simp
  have a2: "check_and_accept (rp_replay_filter q) 8 = (True, f2)" using qq(3) f(2) by simp
  obtain h' ct' nd2 where i2: "handle_incoming ?E (header_to_bytes h' @ ct') ?a nd1 = (Ok (), nd2)" "crypto_ctx nd2 = crypto_ctx nd1"
    and q2: "\<exists>q. get_peer 1 (peer_mgr nd2) = Some q \<and> \<not> uses_peer_key q \<and> rp_replay_filter q = f2"
    by (rule demo_packet_accepted [OF qq(1,2) c1 a2, of ?a]) blast
  let ?s2 = "loop_turn ?E demo_audio_env (Some (header_to_bytes h' @ ct', ?a)) [] ?s1"
  have s2: "the_node ?s2 = nd2" using turn_at_zero [OF s1(2,3) _ i2(1) [folded s1(1)], of demo_audio_env] by simp
  have none: "(if kx_received r then peer_crypto r else None) = None" if "\<not> uses_peer_key r" for r
    using that by (auto simp: uses_peer_key_def)
  have keys: "audio_keys (peer_id h) (the_node ?s2) = audio_keys (peer_id h) (the_node s)"
    using q2 p(1) u(1) i1(2) i2(2) none by (auto simp: audio_keys_def s2 h(2))
  have it: "psk ?E = ?key" "iterates (ping_iter ?E)" by (simp_all add: demo_env_def iterates_rev)
  have "(session_step ?key)\<^sup>*\<^sup>* ?s1 ?s2" by (intro r_into_rtranclp step_turn it)
  moreover obtain pt where "open_audio ?E (header_to_bytes h) ct h (the_node s) = Ok (pt, False)" using o by blast
  moreover have "fst (handle_incoming ?E (header_to_bytes h @ ct) ?a (the_node s)) = Ok ()" "get_peer (peer_id h) (peer_mgr (the_node s)) = Some p"
    using i1(1) p(1) h(2) by simp_all
  ultimately have "handle_incoming ?E (header_to_bytes h @ ct) (demo_addr 6) (the_node ?s2) =
      (Err (ReplayDetected (peer_id h)), upd_node_peer (peer_id h) (touch (clock ?E)) (the_node ?s2))"
    using audio_replay_refused [OF r it h(1), of p ct pt False ?a demo_audio_env "[]" ?s2 ?E "demo_addr 6"] keys by (simp add: Let_def)
  then show ?thesis using r i1(1) i2(1) h(2)
    by (intro exI [of _ s] exI [of _ "header_to_bytes h @ ct"] exI [of _ "header_to_bytes h' @ ct'"]) (simp add: Let_def s1(1))
qed

text \<open>C31. A PEER_LIST can be replayed: once a node has acted on one, the same datagram, from any address, at
  any later time and at any node with the same key, the host included, again sets the node's id and
  session and gives it a new PSK context with the send counter at zero, whatever counter it had
  reached: the nonces of everything it seals next have been used before.\<close>

theorem peer_list_replay_resets_counter:
  assumes "pkt_type h = PKT_PEER_LIST" "handle_incoming E (header_to_bytes h @ ct) src nd = (Ok (), nd1)"
    and "prims E' = prims E" "psk E' = psk E"
  shows "crypto_ctx (snd (handle_incoming E' (header_to_bytes h @ ct) src' nd2)) = crypto_ctx nd1 \<and>
    send_counter (crypto_ctx nd1) = 0 \<and>
    local_id (peer_mgr (snd (handle_incoming E' (header_to_bytes h @ ct) src' nd2))) = local_id (peer_mgr nd1) \<and>
    session_id (peer_mgr (snd (handle_incoming E' (header_to_bytes h @ ct) src' nd2))) = session_id (peer_mgr nd1)"
proof -
  let ?hb = "header_to_bytes h"
  have inc: "handle_incoming X (?hb @ ct) a n = handle_peer_list X ?hb ct h a n" for X a n
    using assms(1) by (simp add: handle_incoming_wire Let_def) (simp add: pkt_defs)
  from assms(2) inc have "handle_peer_list E ?hb ct h src nd = (Ok (), nd1)" by simp
  with peer_list_Ok obtain pt pl my where e: "open_packet E (crypto_context_new (psk E) ZERO_SESSION) ?hb ct h = Ok pt"
    "peer_list_from_bytes pt = Ok pl" "max_id (map fst (pl_peers pl)) = Some my" by metis
  have e': "open_packet E' (crypto_context_new (psk E') ZERO_SESSION) ?hb ct h = Ok pt"
    using e(1) assms(3,4) by (simp add: open_packet_def)
  show ?thesis
    using peer_list_effect [OF e, of src nd] peer_list_effect [OF e' e(2,3), of src' nd2] assms(2,4)
    by (simp add: inc crypto_context_new_def)
qed

theorem peer_list_replay_resets_counter_witness:
  "\<exists>wire nd nd1. handle_incoming demo_env wire (demo_addr 5000) nd = (Ok (), nd1) \<and>
     send_counter (crypto_ctx (snd (handle_incoming demo_env wire (demo_addr 66)
       (nd1\<lparr>crypto_ctx := (crypto_ctx nd1)\<lparr>send_counter := 1000\<rparr>\<rparr>)))) = 0"
proof -
  let ?pl = "\<lparr>pl_session_id = replicate 8 7, pl_peers = [(0, demo_addr 5000), (1, demo_addr 5001)]\<rparr>"
  let ?h = "packet_header_new PKT_PEER_LIST 0 0 0"
  obtain c where c: "encrypt (prims demo_env) (crypto_context_new (replicate 32 5) ZERO_SESSION) (header_to_bytes ?h)
      (peer_list_to_bytes ?pl) 0 0 0 = Ok c"
    using env_ok_seal [OF demo_env_ok, of "crypto_context_new (replicate 32 5) ZERO_SESSION" PKT_PEER_LIST 0 0 0] by metis
  have "psk demo_env = replicate 32 5" "wire_addr (demo_addr 5000)" "wire_addr (demo_addr 5001)" "length (replicate 8 (7 :: u8)) = 8"
    by (simp_all add: demo_env_def demo_addr_def)
  then obtain nd1 where nd1: "handle_incoming demo_env (header_to_bytes ?h @ c) (demo_addr 5000) ((fresh_joiner (replicate 32 5))\<lparr>outbox := []\<rparr>) = (Ok (), nd1)"
    using joiner_greets_host [OF demo_env_ok _ refl _ _ _ c refl, of "demo_addr 5000" "[]"] by metis
  have "pkt_type ?h = PKT_PEER_LIST" by (simp add: packet_header_new_def)
  from peer_list_replay_resets_counter [OF this nd1 refl refl, of "demo_addr 66"
      "nd1\<lparr>crypto_ctx := (crypto_ctx nd1)\<lparr>send_counter := 1000\<rparr>\<rparr>"] nd1
  show ?thesis by metis
qed

text \<open>C30. A KEY_EXCHANGE can be replayed: once a node has acted on one, the same datagram at any later time
  in the same session puts the peer's context back to the derived key with the send counter at
  zero, whatever counter it had reached, so the nonces of the audio sent next have been used before
  under the same key.\<close>

theorem key_exchange_replay_resets_counter:
  assumes "pkt_type h = PKT_KEY_EXCHANGE" "handle_incoming E (header_to_bytes h @ ct) src nd = (Ok (), nd1)"
    and "get_peer (peer_id h) (peer_mgr nd) = Some p" "get_peer (peer_id h) (peer_mgr nd2) = Some q"
    and "prims E' = prims E" "psk E' = psk E" "key_pair E' = key_pair E"
    and "session_id (peer_mgr nd2) = session_id (peer_mgr nd)" "local_id (peer_mgr nd2) = local_id (peer_mgr nd)"
  shows "\<exists>ctx. send_counter ctx = 0 \<and>
    map_option peer_crypto (get_peer (peer_id h) (peer_mgr nd1)) = Some (Some ctx) \<and>
    map_option peer_crypto (get_peer (peer_id h) (peer_mgr (snd (handle_incoming E' (header_to_bytes h @ ct) src' nd2)))) =
      Some (Some ctx)"
proof -
  let ?hb = "header_to_bytes h"
  have inc: "handle_incoming X (?hb @ ct) a n = handle_key_exchange X ?hb ct h a n" for X a n
    using assms(1) by (simp add: handle_incoming_wire Let_def) (simp add: pkt_defs)
  from assms(2) inc have k: "handle_key_exchange E ?hb ct h src nd = (Ok (), nd1)" by simp
  with key_exchange_Ok obtain pt kx dk where e: "open_packet E (crypto_context_new (psk E) (session_id (peer_mgr nd))) ?hb ct h = Ok pt"
    "kx_from_bytes pt = Ok kx"
    "derive_peer_key (prims E) (key_pair E) (public_key kx) (session_id (peer_mgr nd)) (local_id (peer_mgr nd)) (peer_id h) = Ok dk"
    by metis
  have e': "open_packet E' (crypto_context_new (psk E') (session_id (peer_mgr nd2))) ?hb ct h = Ok pt"
    "derive_peer_key (prims E') (key_pair E') (public_key kx) (session_id (peer_mgr nd2)) (local_id (peer_mgr nd2)) (peer_id h) = Ok dk"
    using e assms(5-9) by (simp_all add: open_packet_def)
  have "map_option peer_crypto (get_peer (peer_id h) (peer_mgr nd1)) = Some (Some (crypto_context_new dk (session_id (peer_mgr nd))))"
    using key_exchange_effect [OF e assms(3), of src] k by simp
  moreover have "map_option peer_crypto (get_peer (peer_id h) (peer_mgr (snd (handle_incoming E' (?hb @ ct) src' nd2)))) =
      Some (Some (crypto_context_new dk (session_id (peer_mgr nd))))"
    using key_exchange_effect [OF e'(1) e(2) e'(2) assms(4), of src'] assms(8) by (simp add: inc)
  ultimately show ?thesis by (intro exI [of _ "crypto_context_new dk (session_id (peer_mgr nd))"]) (simp add: crypto_context_new_def)
qed

theorem key_exchange_replay_resets_counter_witness:
  "\<exists>wire nd1 ctx. handle_incoming demo_env wire (demo_addr 5001) demo_node = (Ok (), nd1) \<and>
     map_option peer_crypto (get_peer 1 (peer_mgr nd1)) = Some (Some ctx) \<and>
     map_option peer_crypto (get_peer 1 (peer_mgr (snd (handle_incoming demo_env wire (demo_addr 66)
       (upd_node_peer 1 (\<lambda>p. p\<lparr>peer_crypto := Some (ctx\<lparr>send_counter := 1000\<rparr>)\<rparr>) nd1))))) = Some (Some ctx)"
proof -
  let ?pub = "x25519_public demo_prims [5]" and ?h = "packet_header_new PKT_KEY_EXCHANGE 1 0 0"
  have d: "psk demo_env = replicate 32 5" "prims demo_env = demo_prims" "session_id (peer_mgr demo_node) = replicate 8 7"
    "local_id (peer_mgr demo_node) = 0" "get_peer 1 (peer_mgr demo_node) = Some demo_peer" "length ?pub = 32"
    by (simp_all add: demo_env_def demo_node_def new_host_def get_peer_def demo_prims_def)
  have "x25519_dh demo_prims [3] ?pub = replicate 32 15" by (simp add: demo_prims_def hd_append)
  moreover have "\<not> list_all (\<lambda>b. b = 0) (replicate 32 (15 :: u8))" by (simp add: list_all_iff)
  moreover have "\<exists>k. hkdf_sha256 demo_prims s i f l = Some k" for s i f l by (simp add: demo_prims_def)
  ultimately obtain dk where dk: "derive_peer_key demo_prims (key_pair demo_env) ?pub (replicate 8 7) 0 1 = Ok dk"
    by (auto simp: derive_peer_key_def demo_env_def key_exchange_new_def Let_def ok_or_eq_Ok split: prod.splits) metis
  obtain c where c: "encrypt (prims demo_env) (crypto_context_new (replicate 32 5) (replicate 8 7)) (header_to_bytes ?h) ?pub 1 0 0 = Ok c"
    using env_ok_seal [OF demo_env_ok, of "crypto_context_new (replicate 32 5) (replicate 8 7)" PKT_KEY_EXCHANGE 1 0 0] by metis
  obtain nd1 where nd1: "handle_incoming demo_env (header_to_bytes ?h @ c) (demo_addr 5001) demo_node = (Ok (), nd1)"
    using key_exchange_received [OF demo_env_ok refl d(1) d(6), of demo_node 1 c dk _ "demo_addr 5001"] c dk d by simp
  have h: "pkt_type ?h = PKT_KEY_EXCHANGE" "peer_id ?h = 1" by (simp_all add: packet_header_new_def)
  have g: "get_peer (peer_id ?h) (peer_mgr demo_node) = Some demo_peer" using d(5) by (simp only: h(2))
  from key_exchange_replay_resets_counter [OF h(1) nd1 g g refl refl refl refl refl, of "demo_addr 66"] obtain ctx where
    ctx: "map_option peer_crypto (get_peer 1 (peer_mgr nd1)) = Some (Some ctx)" unfolding h(2) by blast
  then obtain q where q: "get_peer 1 (peer_mgr nd1) = Some q" by auto
  let ?nd2 = "upd_node_peer 1 (\<lambda>p. p\<lparr>peer_crypto := Some (ctx\<lparr>send_counter := 1000\<rparr>)\<rparr>) nd1"
  have "session_id (peer_mgr nd1) = session_id (peer_mgr demo_node)" "local_id (peer_mgr nd1) = local_id (peer_mgr demo_node)"
    using nd1 key_exchange_received [OF demo_env_ok refl d(1) d(6), of demo_node 1 c dk _ "demo_addr 5001"] c dk d
    by (auto simp: upd_node_peer_def upd_peer_def send_key_exchange_def send_to_def split: outcome.splits)
  then have s: "session_id (peer_mgr ?nd2) = session_id (peer_mgr demo_node)" "local_id (peer_mgr ?nd2) = local_id (peer_mgr demo_node)"
    by (simp_all add: upd_node_peer_def upd_peer_def)
  have "\<exists>q2. get_peer (peer_id ?h) (peer_mgr ?nd2) = Some q2" using q by (simp add: h(2) get_upd_node_peer)
  then obtain q2 where "get_peer (peer_id ?h) (peer_mgr ?nd2) = Some q2" by blast
  from key_exchange_replay_resets_counter [OF h(1) nd1 g this refl refl refl s, of "demo_addr 66"] ctx nd1
  show ?thesis by (auto simp: h(2))
qed

end
