(* ===== verification/Nonces.thy ===== *)
theory Nonces
  imports Outbox Handshake
begin

text \<open>
  Which nonces a session uses. As long as no PEER_LIST and no KEY_EXCHANGE arrives, everything it seals
  under a reserved counter has a nonce of its own; but the control packets, always with counter 0,
  share theirs with the first packet under a reserved counter.
\<close>

section \<open>Counted packets\<close>

definition datagram_header :: "bytes \<Rightarrow> packet_header option" where
  "datagram_header w = (case header_from_bytes w of Ok h \<Rightarrow> Some h | _ \<Rightarrow> None)"

definition is_counted :: "packet_header \<Rightarrow> bool" where
  "is_counted h \<longleftrightarrow> pkt_type h \<in> set counted_types"

definition counted_headers :: "(bytes \<times> socket_addr) list \<Rightarrow> packet_header list" where
  "counted_headers sent = filter is_counted (List.map_filter (\<lambda>wa. datagram_header (fst wa)) sent)"

text \<open>The nonce that a header stands for in a session.\<close>

definition header_nonce :: "bytes \<Rightarrow> packet_header \<Rightarrow> bytes" where
  "header_nonce sid h = build_nonce sid (peer_id h) Send (seq_num h) (counter h)"

lemma datagram_header_wire [simp]: "datagram_header (header_to_bytes h @ ct) = Some h"
  by (simp add: datagram_header_def header_from_to)

lemma counted_headers_append [simp]: "counted_headers (xs @ ys) = counted_headers xs @ counted_headers ys"
  by (induction xs) (auto simp: counted_headers_def List.map_filter_simps split: option.splits)

lemma counted_headers_single:
  "counted_headers [(header_to_bytes h @ ct, a)] = (if is_counted h then [h] else [])"
  by (simp add: counted_headers_def List.map_filter_simps)

lemma counted_headers_Nil [simp]: "counted_headers [] = []"
  by (simp add: counted_headers_def List.map_filter_simps)

section \<open>The law\<close>

text \<open>Datagrams sent under the counters from \<open>c0\<close> up to \<open>c1\<close>: in increasing order, and each that has a
  reserved counter sealed under the key with the nonce of its header.\<close>

definition counters_fresh :: "crypto_prims \<Rightarrow> bytes \<Rightarrow> bytes \<Rightarrow> u32 \<Rightarrow> u32 \<Rightarrow> (bytes \<times> socket_addr) list \<Rightarrow> bool" where
  "counters_fresh pr key sid c0 c1 new \<longleftrightarrow> sorted_wrt (<) (map counter (counted_headers new)) \<and>
     (\<forall>h \<in> set (counted_headers new). c0 \<le> counter h \<and> counter h < c1) \<and>
     (\<forall>wa \<in> set new. \<forall>h ct. fst wa = header_to_bytes h @ ct \<longrightarrow> is_counted h \<longrightarrow>
        (\<exists>m. aead_encrypt pr key (header_nonce sid h) (header_to_bytes h) m = Some ct))"

text \<open>The session's context, no peer with a key of its own, and what was sent since the outbox was \<open>ob\<close>.\<close>

definition psk_phase :: "crypto_prims \<Rightarrow> bytes \<Rightarrow> bytes \<Rightarrow> u32 \<Rightarrow> (bytes \<times> socket_addr) list \<Rightarrow> node \<Rightarrow> bool" where
  "psk_phase pr key sid c0 ob nd \<longleftrightarrow>
     cipher_key (crypto_ctx nd) = key \<and> ctx_session_id (crypto_ctx nd) = sid \<and> c0 \<le> send_counter (crypto_ctx nd) \<and>
     (\<forall>kp \<in> set (peers (peer_mgr nd)). \<not> kx_received (snd kp)) \<and>
     (\<exists>new. outbox nd = ob @ new \<and> counters_fresh pr key sid c0 (send_counter (crypto_ctx nd)) new)"

lemma counters_fresh_mono: "counters_fresh pr key sid c0 c1 new \<Longrightarrow> c1 \<le> c2 \<Longrightarrow> counters_fresh pr key sid c0 c2 new"
  by (auto simp: counters_fresh_def)

lemma header_prefix_inj: "header_to_bytes h @ x = header_to_bytes h' @ x' \<longleftrightarrow> h = h' \<and> x = x'"
  using header_wire.framing [of h x h' x'] by auto

lemma counters_fresh_control:
  assumes "counters_fresh pr key sid c0 c1 new" "\<not> is_counted h"
  shows "counters_fresh pr key sid c0 c1 (new @ [(header_to_bytes h @ ct, a)])"
  using assms by (auto simp: counters_fresh_def counted_headers_single header_prefix_inj)

lemma counters_fresh_counted:
  assumes "counters_fresh pr key sid c0 (counter h) new" "c0 \<le> counter h" "counter h < c2"
    and "aead_encrypt pr key (header_nonce sid h) (header_to_bytes h) m = Some ct"
  shows "counters_fresh pr key sid c0 c2 (new @ [(header_to_bytes h @ ct, a)])"
  using assms unfolding counters_fresh_def counted_headers_append counted_headers_single
  by (auto simp: sorted_wrt_append header_prefix_inj)

lemma counter_step:
  assumes "next_counter ctx = (r, ctx')"
  shows "send_counter ctx \<le> send_counter ctx'" "r = Ok c \<Longrightarrow> c = send_counter ctx \<and> c < send_counter ctx'"
proof -
  have less: "(x :: u32) < x + 1" if "unat x + 1 < 2 ^ 32" for x
    using that by (simp add: word_less_nat_alt unat_word_ariths)
  then show "r = Ok c \<Longrightarrow> c = send_counter ctx \<and> c < send_counter ctx'"
    using assms by (auto simp: next_counter_Ok)
  show "send_counter ctx \<le> send_counter ctx'"
    using assms less [of "send_counter ctx"]
    by (auto simp: next_counter_def Let_def checked_add_def split: option.splits if_splits)
qed

lemma psk_phase_reserved:
  assumes "psk_phase pr key sid c0 ob nd" "next_counter (crypto_ctx nd) = (r, ctx)"
  shows "psk_phase pr key sid c0 ob (nd\<lparr>crypto_ctx := ctx\<rparr>)"
  using assms(1) counter_step(1) [OF assms(2)] next_counter_frame [OF assms(2)]
  by (auto simp: psk_phase_def intro: order_trans counters_fresh_mono)

lemma psk_phase_control:
  assumes "psk_phase pr key sid c0 ob nd" "ty \<in> set control_types" "seal E ctx ty lid sn c m = Ok w"
  shows "psk_phase pr key sid c0 ob (snd (send_to E w a nd))"
proof -
  let ?h = "packet_header_new ty lid sn c"
  obtain ct where w: "w = header_to_bytes ?h @ ct" using assms(3) by (auto simp: seal_Ok)
  have "\<not> is_counted ?h"
    using assms(2) by (auto simp: is_counted_def packet_header_new_def counted_types_def control_types_def greeting_types_def pkt_defs)
  with assms(1) show ?thesis
    by (auto simp: psk_phase_def send_to_def w intro!: counters_fresh_control)
qed

lemma psk_phase_counted:
  assumes "psk_phase pr key sid c0 ob nd" "next_counter (crypto_ctx nd) = (Ok c, ctx)" "ty \<in> set counted_types"
    and "prims E = pr" "seal E ctx ty lid sn c m = Ok w"
  shows "psk_phase pr key sid c0 ob (snd (send_to E w a (nd\<lparr>crypto_ctx := ctx\<rparr>)))"
proof -
  let ?h = "packet_header_new ty lid sn c"
  note nx = counter_step [OF assms(2)] next_counter_frame [OF assms(2)]
  have c: "c = send_counter (crypto_ctx nd)" "c < send_counter ctx" using nx(2) by auto
  obtain ct where w: "w = header_to_bytes ?h @ ct" "encrypt pr ctx (header_to_bytes ?h) m lid sn c = Ok ct"
    using assms(4,5) by (auto simp: seal_Ok)
  have key: "cipher_key ctx = key" "ctx_session_id ctx = sid" using assms(1) nx(3) by (auto simp: psk_phase_def)
  have ct: "aead_encrypt pr key (header_nonce sid ?h) (header_to_bytes ?h) m = Some ct"
    using w(2) key by (simp add: encrypt_def ok_or_eq_Ok header_nonce_def packet_header_new_def)
  obtain new where new: "outbox nd = ob @ new" "counters_fresh pr key sid c0 c new" "c0 \<le> c"
    using assms(1) unfolding psk_phase_def c(1) by blast
  then have "counters_fresh pr key sid c0 (send_counter ctx) (new @ [(w, a)])"
    unfolding w(1) using c(2) ct by (intro counters_fresh_counted) (simp_all add: packet_header_new_def)
  then have "psk_phase pr key sid c0 ob (nd\<lparr>crypto_ctx := ctx, outbox := outbox nd @ [(w, a)]\<rparr>)"
    using assms(1) new(1,3) key c(2) by (auto simp: psk_phase_def)
  then show ?thesis using psk_phase_reserved [OF assms(1,2)] by (simp add: send_to_def)
qed

lemma psk_phase_peers:
  assumes "psk_phase pr key sid c0 ob nd" "outbox nd' = outbox nd" "crypto_ctx nd' = crypto_ctx nd"
    and "\<forall>kp \<in> set (peers (peer_mgr nd')). \<not> kx_received (snd kp)"
  shows "psk_phase pr key sid c0 ob nd'"
  using assms by (simp add: psk_phase_def)

lemma psk_phase_add:
  assumes "psk_phase pr key sid c0 ob nd"
  shows "psk_phase pr key sid c0 ob (snd (node_add_peer E pid a nd))"
proof (rule psk_phase_peers [OF assms])
  have "\<forall>kp \<in> set (peers (peer_mgr nd)). \<not> kx_received (snd kp)" using assms by (simp add: psk_phase_def)
  then show "\<forall>kp \<in> set (peers (peer_mgr (snd (node_add_peer E pid a nd)))). \<not> kx_received (snd kp)"
    using add_peer_set [of _ _ "opus_lib E" "clock E" pid a "peer_mgr nd"] remote_peer_new_Ok
    by (fastforce simp: node_add_peer_def case_prod_beta)
qed (auto simp: node_add_peer_def split: prod.splits)

interpretation psk_law: outbox_law "psk_phase pr key sid c0 ob" "\<lambda>E. prims E = pr" "\<lambda>_. True" "\<lambda>_. True"
    "\<lambda>ty. ty \<noteq> PKT_PEER_LIST \<and> ty \<noteq> PKT_KEY_EXCHANGE" for pr key sid c0 ob
proof (unfold_locales, goal_cases)
  case (1 nd f pid)
  then show ?case
    using set_map_entry_cases [of _ _ pid f "peers (peer_mgr nd)"]
    by (intro psk_phase_peers [OF 1(1)]) (fastforce simp: peer_frame_def psk_phase_def upd_node_peer_def upd_peer_def)+
next
  case (2 nd f)
  then show ?case by (intro psk_phase_peers [OF 2(1)]) (auto simp: peer_frame_def psk_phase_def)
next
  case (3 E nd a pid)
  then show ?case by (intro psk_phase_add)
next
  case (4 nd r pm)
  then show ?case by (intro psk_phase_peers [OF 4(1)]) (auto simp: psk_phase_def allocate_peer_id_def split: if_splits)
next
  case (5 E nd cause ty m ctx lid w a)
  then show ?case by (intro psk_phase_control) (auto simp: control_types_def dest: answers_greet)
next
  case (6 E nd pid p m ctx lid w a)
  have s: "psk_phase pr key sid c0 ob (snd (send_to E w a nd))"
    by (rule psk_phase_control [OF 6(2) _ 6(6)]) (simp add: control_types_def)
  then have "\<forall>kp \<in> set (peers (peer_mgr (snd (send_to E w a nd)))). \<not> kx_received (snd kp)" by (simp add: psk_phase_def)
  then show ?case
    using set_map_entry_cases [of _ _ pid "\<lambda>p. p\<lparr>kx_sent := True\<rparr>" "peers (peer_mgr (snd (send_to E w a nd)))"]
    by (intro psk_phase_peers [OF s]) (fastforce simp: upd_node_peer_def upd_peer_def)+
next
  case (7 nd r ctx)
  then show ?case by (rule psk_phase_reserved)
next
  case (8 E nd c ctx ty sn m lid w a)
  then show ?case by (intro psk_phase_counted)
next
  case (9 nd pid p ctx')
  then show ?case by (auto simp: psk_phase_def get_peer_def dest!: map_of_SomeD)
next
  case (10 E nd pid p m ctx lid sn c w a)
  then show ?case by (auto simp: psk_phase_def get_peer_def dest!: map_of_SomeD)
next
  case (23 nd pid p own c fresh flt)
  then have "\<not> kx_received p" by (auto simp: psk_phase_def get_peer_def dest!: map_of_SomeD)
  with 23(1) show ?case
    using set_map_entry_cases [of _ _ pid "\<lambda>_. set_filter own flt p" "peers (peer_mgr nd)"]
    by (intro psk_phase_peers [OF 23(1)]) (fastforce simp: psk_phase_def upd_node_peer_def upd_peer_def)+
qed auto

section \<open>Properties\<close>

text \<open>C10. No nonce is used twice while the pre-shared key is in use: from any state of a session in which no
  peer has handed over a key of its own, through any number of turns in which no PEER_LIST and no
  KEY_EXCHANGE arrives, every audio, KEEPALIVE, PING and PONG packet sent is sealed under the
  pre-shared key with the nonce of its header, and all these nonces are different, whatever else
  arrives, is captured or is told by the user.\<close>

theorem psk_nonces_unique:
  assumes "reach (session_start key) (session_step key) s" "psk E = key" "iterates (ping_iter E)"
    and "\<forall>kp \<in> set (peers (peer_mgr (the_node s))). \<not> kx_received (snd kp)"
    and "\<forall>i \<in> set inputs. \<forall>h ct src. in_datagram i = Some (header_to_bytes h @ ct, src) \<longrightarrow>
           pkt_type h \<noteq> PKT_PEER_LIST \<and> pkt_type h \<noteq> PKT_KEY_EXCHANGE"
  shows "\<exists>new. outbox (the_node (run_turns E A inputs s)) = outbox (the_node s) @ new \<and>
    (\<forall>(w, a) \<in> set new. \<forall>h ct. w = header_to_bytes h @ ct \<longrightarrow> is_counted h \<longrightarrow>
       (\<exists>m. aead_encrypt (prims E) key (header_nonce (session_id (peer_mgr (the_node s))) h) (header_to_bytes h) m = Some ct)) \<and>
    distinct (map (header_nonce (session_id (peer_mgr (the_node s)))) (counted_headers new))"
proof -
  let ?nd = "the_node s" and ?sid = "session_id (peer_mgr (the_node s))"
  have inv: "node_inv key ?nd" using session_sys.reach_inv [OF assms(1)] by simp
  then have sid: "length ?sid = 8" by (simp add: node_inv_def)
  have "psk_phase (prims E) key ?sid (send_counter (crypto_ctx ?nd)) (outbox ?nd) ?nd"
    using inv assms(4) by (simp add: psk_phase_def node_inv_def counters_fresh_def)
  from psk_law.turns_law [OF refl assms(2,3) this assms(1), of inputs A] assms(5)
  obtain c0 c1 new where new: "outbox (the_node (run_turns E A inputs s)) = outbox ?nd @ new"
    "counters_fresh (prims E) key ?sid c0 c1 new" unfolding psk_phase_def by blast
  have "distinct (map counter (counted_headers new))"
    using new(2) strict_sorted_iff [of "map counter (counted_headers new)"] by (simp add: counters_fresh_def)
  then have "distinct (map (header_nonce ?sid) (counted_headers new))"
    using build_nonce_eq_iff [OF sid sid] by (auto simp: distinct_map inj_on_def header_nonce_def)
  with new show ?thesis by (auto simp: counters_fresh_def)
qed

text \<open>A host with a connected peer, to which it sends in a turn three seconds later.\<close>

theorem psk_nonces_unique_witness:
  "\<exists>s p new. get_peer 1 (peer_mgr (the_node s)) = Some p \<and> state p = Connected \<and>
     outbox (the_node (run_turns demo_env demo_audio_env
       [\<lparr>in_running = True, at_time = 3000000000, in_recv = Arrives (replicate 30 2) (demo_addr 7), in_samples = [], in_controls = (\<lambda>sh. sh)\<rparr>]
       s)) = outbox (the_node s) @ new \<and> distinct (map (header_nonce (replicate 8 7)) (counted_headers new))"
proof -
  let ?in = "[\<lparr>in_running = True, at_time = 3000000000, in_recv = Arrives (replicate 30 2) (demo_addr 7), in_samples = [], in_controls = (\<lambda>sh. sh)\<rparr>]"
  obtain s p where r: "reach (session_start (replicate 32 5)) (session_step (replicate 32 5)) s"
    and p: "get_peer 1 (peer_mgr (the_node s)) = Some p" "state p = Connected" "untouched p" "peers (peer_mgr (the_node s)) = [(1, p)]"
    and sid: "session_id (peer_mgr (the_node s)) = replicate 8 7" by (rule demo_joined)
  have "pkt_type h = 2" if "replicate 30 2 = header_to_bytes h @ ct" for h ct
    using arg_cong [OF that, of hd] by (simp add: header_to_bytes_def)
  then have "\<forall>i \<in> set ?in. \<forall>h ct src. in_datagram i = Some (header_to_bytes h @ ct, src) \<longrightarrow>
      pkt_type h \<noteq> PKT_PEER_LIST \<and> pkt_type h \<noteq> PKT_KEY_EXCHANGE"
    by (auto simp: pkt_defs in_datagram_def MAX_PACKET_LEN_def)
  moreover have "psk demo_env = replicate 32 5" "iterates (ping_iter demo_env)"
    "\<forall>kp \<in> set (peers (peer_mgr (the_node s))). \<not> kx_received (snd kp)"
    using p(3,4) by (simp_all add: demo_env_def iterates_rev untouched_def)
  ultimately obtain new where "outbox (the_node (run_turns demo_env demo_audio_env ?in s)) = outbox (the_node s) @ new"
    "distinct (map (header_nonce (replicate 8 7)) (counted_headers new))"
    using psk_nonces_unique [OF r, of demo_env ?in demo_audio_env] sid by auto
  with p(1,2) show ?thesis by blast
qed

text \<open>C32. The first packet of a session shares its nonce with a control packet: when a peer has just
  connected and neither side has sent a key, the audio packet sent to it under counter 0 and the
  KEY_EXCHANGE sent after it are sealed under the same key and the same nonce, with different headers
  and, unless the encoded voice happens to be the 32 bytes of the public key, with different
  contents: one plaintext is the voice, the other the public key.\<close>

theorem key_exchange_reuses_nonce:
  assumes "env_ok E" "node_inv (psk E) nd" "send_counter (crypto_ctx nd) = 0"
    and "get_peer pid (peer_mgr nd) = Some p" "send_seq p = 0" "\<not> kx_sent p" "\<not> kx_received p"
    and "opus_data \<noteq> kx_public (key_pair E)"
  shows "\<exists>n h1 h2 m1 m2 c1 c2. outbox (key_exchange_to E (local_id (peer_mgr nd)) (pid, a)
        (send_audio_to E opus_data (local_id (peer_mgr nd)) (pid, a) nd)) = outbox nd @ [(h1 @ c1, a), (h2 @ c2, a)] \<and>
    aead_encrypt (prims E) (psk E) n h1 m1 = Some c1 \<and> aead_encrypt (prims E) (psk E) n h2 m2 = Some c2 \<and>
    h1 \<noteq> h2 \<and> m1 \<noteq> m2 \<and> m1 = opus_data \<and> m2 = kx_public (key_pair E)"
proof -
  let ?lid = "local_id (peer_mgr nd)" and ?sid = "session_id (peer_mgr nd)"
  let ?h1 = "header_to_bytes (packet_header_new PKT_AUDIO ?lid 0 0)" and ?h2 = "header_to_bytes (packet_header_new PKT_KEY_EXCHANGE ?lid 0 0)"
  let ?ctx = "(crypto_ctx nd)\<lparr>send_counter := 1\<rparr>" and ?n = "build_nonce ?sid ?lid Send 0 0"
  have key: "cipher_key (crypto_ctx nd) = psk E" "ctx_session_id (crypto_ctx nd) = ?sid" using assms(2) by (simp_all add: node_inv_def)
  have enc: "encrypt (prims E) ctx hb m ?lid 0 0 = Ok c \<Longrightarrow> aead_encrypt (prims E) (psk E) ?n hb m = Some c"
    if "cipher_key ctx = psk E" "ctx_session_id ctx = ?sid" for ctx hb m c
    using that by (simp add: encrypt_def ok_or_eq_Ok)
  have nx: "next_counter (crypto_ctx nd) = (Ok 0, ?ctx)" using assms(3) by (simp add: next_counter_Ok)
  obtain c1 where c1: "seal E ?ctx PKT_AUDIO ?lid 0 0 opus_data = Ok (?h1 @ c1)"
    "encrypt (prims E) ?ctx ?h1 opus_data ?lid 0 0 = Ok c1" using env_ok_seal [OF assms(1)] by metis
  obtain c2 where c2: "seal E (crypto_context_new (psk E) ?sid) PKT_KEY_EXCHANGE ?lid 0 0 (kx_public (key_pair E)) = Ok (?h2 @ c2)"
    "encrypt (prims E) (crypto_context_new (psk E) ?sid) ?h2 (kx_public (key_pair E)) ?lid 0 0 = Ok c2"
    using env_ok_seal [OF assms(1)] by metis
  let ?p = "p\<lparr>send_seq := 1\<rparr>"
  let ?nd1 = "(upd_node_peer pid (\<lambda>_. ?p) nd)\<lparr>crypto_ctx := ?ctx, outbox := outbox nd @ [(?h1 @ c1, a)]\<rparr>"
  have s1: "send_audio_to E opus_data ?lid (pid, a) nd = ?nd1"
    using assms c1(1) nx by (simp add: send_audio_to_def next_seq_def Let_def send_sealed_def)
  have "get_peer pid (peer_mgr ?nd1) = Some ?p" "session_id (peer_mgr ?nd1) = ?sid"
    using get_upd_node_peer [of pid pid "\<lambda>_. ?p" nd] assms(4) by (simp_all add: upd_node_peer_def)
  then have ob: "outbox (key_exchange_to E ?lid (pid, a) ?nd1) = outbox nd @ [(?h1 @ c1, a), (?h2 @ c2, a)]"
    using assms(1,6) c2(1)
    by (simp add: key_exchange_to_def send_key_exchange_def kx_to_bytes_def public_key_bytes_def)
  have e1: "aead_encrypt (prims E) (psk E) ?n ?h1 opus_data = Some c1" by (rule enc [OF _ _ c1(2)]) (simp_all add: key)
  have e2: "aead_encrypt (prims E) (psk E) ?n ?h2 (kx_public (key_pair E)) = Some c2"
    by (rule enc [OF _ _ c2(2)]) (simp_all add: crypto_context_new_def)
  have "?h1 \<noteq> ?h2" by (simp add: header_to_bytes_def packet_header_new_def pkt_defs)
  with e1 e2 assms(8) ob show ?thesis unfolding s1 by blast
qed

theorem key_exchange_reuses_nonce_witness:
  "\<exists>n h1 h2 m c1 c2. outbox (key_exchange_to demo_env 0 (1, demo_addr 5001)
        (send_audio_to demo_env [4, 5] 0 (1, demo_addr 5001) demo_node)) = [(h1 @ c1, demo_addr 5001), (h2 @ c2, demo_addr 5001)] \<and>
    aead_encrypt demo_prims (replicate 32 5) n h1 [4, 5] = Some c1 \<and>
    aead_encrypt demo_prims (replicate 32 5) n h2 m = Some c2 \<and> h1 \<noteq> h2 \<and> m \<noteq> [4, 5]"
proof -
  have "send_counter (crypto_ctx demo_node) = 0" "get_peer 1 (peer_mgr demo_node) = Some demo_peer" "send_seq demo_peer = 0"
    "\<not> kx_sent demo_peer" "\<not> kx_received demo_peer"
    by (simp_all add: demo_node_def get_peer_def demo_peer_def crypto_context_new_def)
  moreover have "[4, 5] \<noteq> kx_public (key_pair demo_env)"
    by (simp add: demo_env_def key_exchange_new_def demo_prims_def numeral_eq_Suc)
  ultimately have "\<exists>n h1 h2 m1 m2 c1 c2. outbox (key_exchange_to demo_env (local_id (peer_mgr demo_node)) (1, demo_addr 5001)
        (send_audio_to demo_env [4, 5] (local_id (peer_mgr demo_node)) (1, demo_addr 5001) demo_node)) =
        outbox demo_node @ [(h1 @ c1, demo_addr 5001), (h2 @ c2, demo_addr 5001)] \<and>
      aead_encrypt (prims demo_env) (psk demo_env) n h1 m1 = Some c1 \<and> aead_encrypt (prims demo_env) (psk demo_env) n h2 m2 = Some c2 \<and>
      h1 \<noteq> h2 \<and> m1 \<noteq> m2 \<and> m1 = [4, 5] \<and> m2 = kx_public (key_pair demo_env)"
    by (intro key_exchange_reuses_nonce demo_env_ok demo_node_inv)
  moreover have "local_id (peer_mgr demo_node) = 0" "outbox demo_node = []" "prims demo_env = demo_prims" "psk demo_env = replicate 32 5"
    by (simp_all add: demo_node_def demo_env_def new_host_def)
  ultimately show ?thesis by (metis append_Nil)
qed

end
