(* ===== verification/Sizes.thy ===== *)
theory Sizes
  imports Outbox
begin

text \<open>
  The form and the size of the datagrams: every packet a session sends has a header of one of the nine
  types with the sequence number and the counter that its type allows, and fits the 1200-byte buffer its
  receiver reads into. The bound for a PEER_LIST rests on the capacity of the table, the one for audio
  on the encoder's output buffer, the rest on the fixed payload formats.
\<close>

section \<open>The law\<close>

fun ip16 :: "ip_addr \<Rightarrow> bool" where
  "ip16 (IpV4 _) = True"
| "ip16 (IpV6 b) = (length b = 16)"

definition addr16 :: "socket_addr \<Rightarrow> bool" where
  "addr16 a \<longleftrightarrow> ip16 (addr_ip a)"

text \<open>What a session relies on: ciphertexts are the tag longer, encoder outputs fit their buffer, public
  keys have 32 bytes, and addresses of the operating system are IPv4 or 16-byte IPv6 ones.\<close>

definition size_env :: "env \<Rightarrow> bool" where
  "size_env E \<longleftrightarrow> aead_ok (prims E) \<and> opus_ok (opus_lib E) \<and> length (kx_public (key_pair E)) = 32 \<and>
     iterates (peer_iter E) \<and> iterates (ping_iter E) \<and>
     (\<forall>a. local_address E = Some a \<longrightarrow> addr16 a) \<and> (\<forall>a ip. resolve_local_ip E a = Some ip \<longrightarrow> ip16 ip)"

text \<open>A datagram a receiver can read: a header of a known type, followed by at least a tag. Control packets
  carry sequence number and counter 0, and only audio has a sequence number.\<close>

definition datagram_ok :: "bytes \<Rightarrow> bool" where
  "datagram_ok w \<longleftrightarrow>
     (case and_then (parse_wire_packet w) (\<lambda>(hb, ct). and_then (header_from_bytes hb) (\<lambda>h. Ok (h, ct))) of
        Ok (h, ct) \<Rightarrow> length ct \<ge> AUTH_TAG_LEN \<and>
          (if pkt_type h \<in> set control_types then seq_num h = 0 \<and> counter h = 0
           else pkt_type h \<in> set counted_types \<and> (pkt_type h = PKT_AUDIO \<or> seq_num h = 0))
      | _ \<Rightarrow> False)"

definition lean :: "node \<Rightarrow> bool" where
  "lean nd \<longleftrightarrow> (\<forall>wa \<in> set (outbox nd). length (fst wa) \<le> MAX_PACKET_LEN \<and> datagram_ok (fst wa)) \<and>
     (\<forall>kp \<in> set (peers (peer_mgr nd)). addr16 (addr (snd kp)))"

lemma datagram_ok_sealed:
  assumes "aead_ok (prims E)" "seal E ctx ty pid sn ctr m = Ok w"
    and "ty \<in> set control_types \<and> sn = 0 \<and> ctr = 0 \<or> ty \<in> set counted_types \<and> (ty = PKT_AUDIO \<or> sn = 0)"
  shows "datagram_ok w" "length w = 24 + length m"
proof -
  let ?h = "packet_header_new ty pid sn ctr"
  obtain ct where ct: "w = header_to_bytes ?h @ ct" "length ct = length m + 16"
    using assms(1,2) by (auto simp: seal_Ok encrypt_def ok_or_eq_Ok aead_ok_def AUTH_TAG_LEN_def)
  from ct show "length w = 24 + length m" by (simp add: header_length HEADER_LEN_def)
  have "ty \<in> set counted_types \<Longrightarrow> ty \<notin> set control_types" by (auto simp: counted_types_def control_types_def greeting_types_def pkt_defs)
  then show "datagram_ok w"
    using assms(3) header_from_to [of ?h "[]"]
    by (auto simp: datagram_ok_def ct parse_wire_packet_def AUTH_TAG_LEN_def packet_header_new_def)
qed

lemma lean_seal_send:
  assumes "size_env E" "lean nd" "length m \<le> 1176" "seal E ctx ty pid sn ctr m = Ok w"
    and "ty \<in> set control_types \<and> sn = 0 \<and> ctr = 0 \<or> ty \<in> set counted_types \<and> (ty = PKT_AUDIO \<or> sn = 0)"
  shows "lean (snd (send_to E w a nd))"
proof -
  have "aead_ok (prims E)" using assms(1) by (simp add: size_env_def)
  from datagram_ok_sealed [OF this assms(4,5)] assms(2,3) show ?thesis
    by (auto simp: lean_def send_to_def MAX_PACKET_LEN_def)
qed

lemma lean_upd:
  assumes "lean nd" "\<And>p. addr (f p) = addr p"
  shows "lean (upd_node_peer pid f nd)"
  using assms set_map_entry_cases [of _ _ pid f "peers (peer_mgr nd)"]
  by (fastforce simp: lean_def upd_node_peer_def upd_peer_def)

lemma lean_add:
  assumes "lean nd" "addr16 a"
  shows "lean (snd (node_add_peer E pid a nd))"
proof (cases "get_peer pid (peer_mgr nd)")
  case None
  have "lean (nd\<lparr>peer_mgr := (peer_mgr nd)\<lparr>peers := AList.update pid p (peers (peer_mgr nd)), addr_to_id := m\<rparr>\<rparr>)"
    if "addr p = a" for p m
    using assms that set_update_subset [of pid p "peers (peer_mgr nd)"] by (fastforce simp: lean_def)
  with None assms(1) show ?thesis
    by (auto simp: node_add_peer_def add_peer_def split: attempt_split dest: remote_peer_new_Ok)
next
  case (Some p)
  have "lean (nd\<lparr>peer_mgr := upd_peer pid (\<lambda>p. p\<lparr>addr := a\<rparr>) ((peer_mgr nd)\<lparr>addr_to_id := m\<rparr>)\<rparr>)" for m
    using assms set_map_entry_cases [of _ _ pid "\<lambda>p. p\<lparr>addr := a\<rparr>" "peers (peer_mgr nd)"]
    by (fastforce simp: lean_def upd_peer_def)
  with Some assms(1) show ?thesis by (simp add: node_add_peer_def add_peer_def)
qed

section \<open>Sizes of the payloads\<close>

lemma payload_lengths [simp]:
  "length (ping_to_bytes p) = 4" "length (join_to_bytes j) = 2" "length (kx_to_bytes k) = length (public_key k)"
  by (simp_all add: ping_to_bytes_def join_to_bytes_def kx_to_bytes_def u16_to_be_bytes_def u32_to_be_bytes_def)

lemma entry_length_le: "addr16 a \<Longrightarrow> length (peer_entry_bytes (k, a)) \<le> 20"
  by (cases a) (auto simp: addr16_def u16_to_be_bytes_def elim!: ipv4_octets.elims)

lemma concat_length_le: "(\<forall>x \<in> set xs. length x \<le> n) \<Longrightarrow> length (concat xs) \<le> n * length xs"
  by (induction xs) auto

lemma peer_list_length_le:
  assumes "lean nd" "node_inv key nd" "iterates it" "addr16 host"
  shows "length (peer_list_to_bytes (build_peer_list it host (peer_mgr nd))) \<le> 109"
proof -
  let ?pl = "build_peer_list it host (peer_mgr nd)"
  have l: "length (pl_peers ?pl) \<le> 5" "length (pl_session_id ?pl) = 8"
    using assms(2,3) iterates_length [OF assms(3), of "peers (peer_mgr nd)"]
    by (simp_all add: build_peer_list_def node_inv_def pm_inv_def table_ok_def)
  have "\<forall>e \<in> set (pl_peers ?pl). length (peer_entry_bytes e) \<le> 20"
    using assms(1,4) iterates_set [OF assms(3), of "peers (peer_mgr nd)"]
    by (auto simp: build_peer_list_def lean_def intro!: entry_length_le)
  then have "length (concat (map peer_entry_bytes (pl_peers ?pl))) \<le> 20 * length (pl_peers ?pl)"
    using concat_length_le [of "map peer_entry_bytes (pl_peers ?pl)" 20] by auto
  with l show ?thesis by (simp add: peer_list_to_bytes_def)
qed

lemma peer_list_addrs16: "peer_list_from_bytes b = Ok pl \<Longrightarrow> \<forall>e \<in> set (pl_peers pl). addr16 (snd e)"
proof -
  assume "peer_list_from_bytes b = Ok pl"
  then have "list_all (\<lambda>(_, a). wire_addr a) (pl_peers pl)"
    using peer_list_wire.dec_Ok [of b pl] by (simp add: wire_peer_list_def)
  moreover have "wire_addr a \<Longrightarrow> addr16 a" for a by (cases a) (simp_all add: addr16_def)
  ultimately show ?thesis by (auto simp: list_all_iff)
qed

lemma encoded_length_le:
  "opus_ok opus \<Longrightarrow> opus_encode_frame opus en pcm = (Ok d, en') \<Longrightarrow> length d \<le> 1176"
  by (auto simp: opus_encode_frame_def opus_ok_def ok_or_eq_Ok MAX_ENCODED_SIZE_def split: if_splits) fastforce

interpretation lean_law: outbox_law lean size_env addr16 "\<lambda>m. length m \<le> 1176" "\<lambda>_. True"
proof (unfold_locales, goal_cases)
  case (1 nd f pid)
  then show ?case by (intro lean_upd) (simp_all add: peer_frame_def)
next
  case (2 nd f)
  then show ?case by (auto simp: lean_def peer_frame_def)
next
  case (3 E nd a pid)
  then show ?case by (intro lean_add)
next
  case (4 nd r pm)
  then show ?case by (auto simp: lean_def allocate_peer_id_def split: if_splits)
next
  case (5 E nd cause ty m ctx lid w a)
  then show ?case by (intro lean_seal_send) (auto simp: control_types_def dest: answers_greet)
next
  case (6 E nd pid p m ctx lid w a)
  then show ?case by (intro lean_upd lean_seal_send) (auto simp: control_types_def)
next
  case (8 E nd c ctx ty sn m lid w a)
  have "lean (nd\<lparr>crypto_ctx := ctx\<rparr>)" using 8(2) by (simp add: lean_def)
  from lean_seal_send [OF 8(1) this 8(6,7)] 8(4,5) show ?case by blast
next
  case (9 nd pid p ctx')
  then show ?case unfolding upd_node_peer_const [OF 9(2)] by (intro lean_upd) simp_all
next
  case (10 E nd pid p m ctx lid sn c w a)
  from lean_seal_send [OF 10(1,2,5,6)] show ?case by (simp add: counted_types_def)
next
  case (11 nd pid ctx')
  then show ?case by (intro lean_upd) simp_all
next
  case (17 E en pcm d en')
  then show ?case by (intro encoded_length_le) (simp_all add: size_env_def)
next
  case (18 E nd key host)
  then show ?case using peer_list_length_le [OF 18(2,3) _ 18(4), of "peer_iter E"] by (simp add: size_env_def)
next
  case (19 b pl e)
  then show ?case using peer_list_addrs16 by blast
next
  case (21 E src ip pt)
  then have "ip16 ip" unfolding size_env_def by blast
  then show ?case by (cases ip) (simp_all add: addr16_def)
next
  case (23 nd pid p own c fresh flt)
  then show ?case unfolding upd_node_peer_const [OF 23(2)] by (intro lean_upd) simp_all
qed (auto simp: lean_def set_identity_def size_env_def public_key_bytes_def resolve_local_ip_def)

interpretation lean_run: outbox_run lean size_env addr16 "\<lambda>m. length m \<le> 1176" "\<lambda>_. True"
proof (unfold_locales, goal_cases)
  case (1 E nd m ctx lid w a)
  then show ?case by (intro lean_seal_send) (auto simp: control_types_def greeting_types_def)
qed

text \<open>What a whole run sends.\<close>

lemma run_lean:
  assumes "session_run P A inputs ss = (r, Some s, calls)" "length (session_random P) = 8" "size_env (base_env P)"
    and "dh_ok (prims (base_env P))" "\<forall>i \<in> set inputs. \<forall>d src. in_datagram i = Some (d, src) \<longrightarrow> addr16 src"
  shows "lean (the_node s)"
proof (rule lean_run.run_law [OF assms(1,2)])
  show "iterates (ping_iter (base_env P))" using assms(3) by (simp add: size_env_def)
  show "size_env ((base_env P)\<lparr>psk := key, key_pair := key_exchange_new (prims (base_env P)) (secret_random P)\<rparr>)" for key
    using assms(3,4) by (simp add: size_env_def key_exchange_new_def dh_ok_def resolve_local_ip_def)
  show "lean (initial_node (the_config ss) key (session_random P))" for key
    by (simp add: lean_def initial_node_def Let_def new_host_def new_joiner_def)
qed (use assms(5) in auto)

text \<open>A run of the demonstration platform.\<close>

definition demo_input :: turn_input where
  "demo_input = \<lparr>in_running = True, at_time = 5000000, in_recv = Arrives [2, 0, 0] (demo_addr 9), in_samples = [],
     in_controls = (\<lambda>sh. sh)\<rparr>"

lemma demo_run:
  obtains r s calls where "session_run demo_platform demo_audio_env [demo_input] (session_new demo_config) = (r, Some s, calls)"
    "length (session_random demo_platform) = 8" "size_env (base_env demo_platform)" "dh_ok (prims (base_env demo_platform))"
    "\<forall>i \<in> set [demo_input]. \<forall>d src. in_datagram i = Some (d, src) \<longrightarrow> addr16 src"
proof -
  have a: "addr16 (demo_addr x)" for x by (simp add: addr16_def demo_addr_def)
  have "resolve_local_ip demo_env x = Some ip \<Longrightarrow> ip16 ip" for x ip
    by (auto simp: resolve_local_ip_def lookup_local_ip_def demo_env_def demo_os_def sys_call_def demo_addr_def)
  moreover have "opus_ok demo_opus" by (auto simp: opus_ok_def demo_opus_def)
  ultimately have "size_env (base_env demo_platform)"
    using demo_aead_ok demo_dh_ok a
    by (simp add: demo_platform_def size_env_def) (simp add: demo_env_def iterates_rev key_exchange_new_def dh_ok_def)
  moreover have "\<forall>i \<in> set [demo_input]. \<forall>d src. in_datagram i = Some (d, src) \<longrightarrow> addr16 src"
    using a by (auto simp: demo_input_def in_datagram_def)
  moreover have "length (session_random demo_platform) = 8" "dh_ok (prims (base_env demo_platform))"
    using demo_dh_ok by (simp_all add: demo_platform_def demo_env_def)
  moreover obtain r s calls where "session_run demo_platform demo_audio_env [demo_input] (session_new demo_config) = (r, Some s, calls)"
    using demo_starts [of "shared (session_new demo_config)"] by (auto simp: session_run_def session_new_def Let_def)
  ultimately show ?thesis using that by blast
qed

section \<open>Properties\<close>

text \<open>C25. Datagrams arrive whole: whatever a session receives, captures and is told by the user, every
  datagram it sends in the whole run has at most the 1200 bytes of its receiver's buffer, so that
  what the receiver's socket hands over is the datagram, not cut off.\<close>

theorem datagrams_fit:
  assumes "session_run P A inputs ss = (r, Some s, calls)" "length (session_random P) = 8" "size_env (base_env P)"
    and "dh_ok (prims (base_env P))" "\<forall>i \<in> set inputs. \<forall>d src. in_datagram i = Some (d, src) \<longrightarrow> addr16 src"
  shows "\<forall>(w, a) \<in> set (outbox (the_node s)). length w \<le> MAX_PACKET_LEN \<and>
    (\<forall>i src. in_recv i = Arrives w src \<longrightarrow> in_datagram i = Some (w, src))"
  using run_lean [OF assms] by (auto simp: lean_def in_datagram_def)

theorem datagrams_fit_witness:
  "\<exists>r s calls. session_run demo_platform demo_audio_env [demo_input] (session_new demo_config) = (r, Some s, calls) \<and>
     (\<forall>(w, a) \<in> set (outbox (the_node s)). length w \<le> MAX_PACKET_LEN)"
proof (rule demo_run)
  fix r s calls
  assume run: "session_run demo_platform demo_audio_env [demo_input] (session_new demo_config) = (r, Some s, calls)"
    and "length (session_random demo_platform) = 8" "size_env (base_env demo_platform)" "dh_ok (prims (base_env demo_platform))"
    "\<forall>i \<in> set [demo_input]. \<forall>d src. in_datagram i = Some (d, src) \<longrightarrow> addr16 src"
  from datagrams_fit [OF this] run show ?thesis by fast
qed

text \<open>C11. Every datagram is of the protocol: whatever a session receives, captures and is told by the user,
  every datagram it sends in the whole run parses, has one of the nine packet types and carries at
  least an authentication tag; control packets have sequence number and counter 0, and among the
  others only audio has a sequence number. A receiver never rejects one as short or unknown.\<close>

theorem datagrams_typed:
  assumes "session_run P A inputs ss = (r, Some s, calls)" "length (session_random P) = 8" "size_env (base_env P)"
    and "dh_ok (prims (base_env P))" "\<forall>i \<in> set inputs. \<forall>d src. in_datagram i = Some (d, src) \<longrightarrow> addr16 src"
  shows "\<forall>(w, a) \<in> set (outbox (the_node s)). datagram_ok w"
  using run_lean [OF assms] by (auto simp: lean_def)

theorem datagrams_typed_witness:
  "\<exists>r s calls. session_run demo_platform demo_audio_env [demo_input] (session_new demo_config) = (r, Some s, calls) \<and>
     (\<forall>(w, a) \<in> set (outbox (the_node s)). datagram_ok w)"
proof (rule demo_run)
  fix r s calls
  assume run: "session_run demo_platform demo_audio_env [demo_input] (session_new demo_config) = (r, Some s, calls)"
    and "length (session_random demo_platform) = 8" "size_env (base_env demo_platform)" "dh_ok (prims (base_env demo_platform))"
    "\<forall>i \<in> set [demo_input]. \<forall>d src. in_datagram i = Some (d, src) \<longrightarrow> addr16 src"
  from datagrams_typed [OF this] run show ?thesis by blast
qed

end
