(* ===== verification/Voice.thy ===== *)
theory Voice
  imports Handshake
begin

text \<open>
  Voice from one node to another: what \<^verbatim>\<open>Session::run\<close> of one side sends for its frames, handled by
  \<^verbatim>\<open>handle_incoming\<close> of the other side, is decoded and put into the jitter buffer frame by frame, and
  the playout takes it out again in order.
\<close>

section \<open>Two ends of a stream\<close>

text \<open>The context a node seals audio for a peer with.\<close>

definition send_context :: "node \<Rightarrow> remote_peer \<Rightarrow> crypto_context" where
  "send_context nd p =
     (case (if kx_sent p \<and> kx_received p then peer_crypto p else None) of Some c \<Rightarrow> c | None \<Rightarrow> crypto_ctx nd)"

text \<open>What is sealed under one key does not open under another.\<close>

definition wrong_key_fails :: "crypto_prims \<Rightarrow> bytes \<Rightarrow> bytes \<Rightarrow> bool" where
  "wrong_key_fails P k k' \<longleftrightarrow> (\<forall>n h m c. aead_encrypt P k n h m = Some c \<longrightarrow> aead_decrypt P k' n h c = None)"

text \<open>The context under which the receiver opens, its peer's own or (second choice) that of the
  pre-shared key, has the key and session of the sender's, and everything the filter that goes with
  it has seen is below the sender's next counter.\<close>

definition in_tune :: "env \<Rightarrow> bool \<Rightarrow> node \<Rightarrow> remote_peer \<Rightarrow> node \<Rightarrow> remote_peer \<Rightarrow> bool" where
  "in_tune E own nA pA nB pB \<longleftrightarrow>
     (let tx = send_context nA pA; rx = (if own then the (peer_crypto pB) else crypto_ctx nB) in
      cipher_key rx = cipher_key tx \<and> ctx_session_id rx = ctx_session_id tx \<and>
      (if own then uses_peer_key pB
       else uses_peer_key pB \<longrightarrow> ctx_session_id (the (peer_crypto pB)) = ctx_session_id tx \<and>
              wrong_key_fails (prims E) (cipher_key tx) (cipher_key (the (peer_crypto pB)))) \<and>
      (\<exists>S. filter_rep (if own then peer_replay_filter pB else rp_replay_filter pB) S \<and> (\<forall>c \<in> S. c < send_counter tx)))"

text \<open>One frame after the other goes out and is received at once.\<close>

fun talk ::
  "env \<Rightarrow> env \<Rightarrow> u8 \<times> socket_addr \<Rightarrow> socket_addr \<Rightarrow> bytes list \<Rightarrow> node \<Rightarrow> node \<Rightarrow> unit outcome list \<times> node \<times> node" where
  "talk EA EB dst aA [] nA nB = ([], nA, nB)"
| "talk EA EB dst aA (d # ds) nA nB =
     (let nA = send_audio_to EA d (local_id (peer_mgr nA)) dst nA in
      case handle_incoming EB (last_sent nA) aA nB of (r, nB) \<Rightarrow>
      case talk EA EB dst aA ds nA nB of (rs, nA, nB) \<Rightarrow> (r # rs, nA, nB))"

text \<open>For reference: the frames decoded in a row, and numbered from the sender's sequence number on.\<close>

fun decode_all :: "opus_prims \<Rightarrow> decoder \<Rightarrow> bytes list \<Rightarrow> i16 list list outcome" where
  "decode_all opus de [] = Ok []"
| "decode_all opus de (d # ds) =
     (case opus_decode_packet opus de d of (r, de) \<Rightarrow>
      and_then r (\<lambda>pcm. and_then (decode_all opus de ds) (\<lambda>pcms. Ok (pcm # pcms))))"

fun numbered :: "u16 \<Rightarrow> i16 list list \<Rightarrow> jitter_frame list" where
  "numbered sn [] = []"
| "numbered sn (pcm # pcms) = \<lparr>jf_seq_num = sn, jf_pcm = pcm\<rparr> # numbered (sn + 1) pcms"

lemma numbered_consecutive: "consecutive sn (numbered sn pcms)"
proof (induction pcms arbitrary: sn)
  case (Cons pcm pcms)
  have "[0..<Suc n] = 0 # map Suc [0..<n]" for n by (simp add: upt_conv_Cons map_Suc_upt del: upt_Suc)
  then have "map (\<lambda>i. sn + of_nat i) [0..<Suc n] = sn # map (\<lambda>i. (sn + 1) + of_nat i) [0..<n]" for n
    by (simp add: add.assoc del: upt_Suc)
  with Cons [of "sn + 1"] show ?case by (simp add: consecutive_def)
qed (simp add: consecutive_def)

lemma numbered_pcms: "map (\<lambda>f. Some (jf_pcm f)) (numbered sn pcms) = map Some pcms" "length (numbered sn pcms) = length pcms"
  by (induction pcms arbitrary: sn) auto

section \<open>One frame\<close>

lemma upd_node_peer_frame:
  "local_id (peer_mgr (upd_node_peer pid f nd)) = local_id (peer_mgr nd)"
  by (simp add: upd_node_peer_def)

lemma send_audio_to_keyed:
  assumes "env_ok E" "get_peer pid (peer_mgr nd) = Some p" "kx_sent p" "kx_received p" "peer_crypto p = Some c"
    and "unat (send_counter c) + 1 < 2 ^ 32"
  obtains w q where "seal E c PKT_AUDIO lid (send_seq p) (send_counter c) d = Ok w"
    "last_sent (send_audio_to E d lid (pid, a) nd) = w"
    "local_id (peer_mgr (send_audio_to E d lid (pid, a) nd)) = local_id (peer_mgr nd)"
    "get_peer pid (peer_mgr (send_audio_to E d lid (pid, a) nd)) = Some q"
    "kx_sent q" "kx_received q" "peer_crypto q = Some (c\<lparr>send_counter := send_counter c + 1\<rparr>)" "send_seq q = send_seq p + 1"
proof -
  let ?ctx = "c\<lparr>send_counter := send_counter c + 1\<rparr>" and ?p = "p\<lparr>send_seq := send_seq p + 1\<rparr>"
  let ?q = "?p\<lparr>peer_crypto := Some ?ctx\<rparr>"
  obtain w where w: "seal E c PKT_AUDIO lid (send_seq p) (send_counter c) d = Ok w" using env_ok_seal [OF assms(1)] by metis
  then have w': "seal E ?ctx PKT_AUDIO lid (send_seq p) (send_counter c) d = Ok w" by (simp add: seal_def encrypt_def)
  have nx: "next_counter c = (Ok (send_counter c), ?ctx)" using assms(6) by (simp add: next_counter_Ok)
  have "send_audio_to E d lid (pid, a) nd =
      (upd_node_peer pid (\<lambda>_. ?q) (upd_node_peer pid (\<lambda>_. ?p) nd))\<lparr>outbox := outbox nd @ [(w, a)]\<rparr>"
    using assms(1-5) nx w' by (simp add: send_audio_to_def next_seq_def Let_def send_sealed_def) (simp add: upd_node_peer_def)
  with assms(2-5) w show ?thesis
    by (intro that [of w ?q]) (simp_all add: last_sent_def get_upd_node_peer upd_node_peer_frame)
qed

lemma send_audio_to_sends:
  assumes "env_ok E" "get_peer pid (peer_mgr nd) = Some p" "unat (send_counter (send_context nd p)) + 1 < 2 ^ 32"
  obtains w q where "seal E (send_context nd p) PKT_AUDIO lid (send_seq p) (send_counter (send_context nd p)) d = Ok w"
    "last_sent (send_audio_to E d lid (pid, a) nd) = w"
    "local_id (peer_mgr (send_audio_to E d lid (pid, a) nd)) = local_id (peer_mgr nd)"
    "get_peer pid (peer_mgr (send_audio_to E d lid (pid, a) nd)) = Some q" "send_seq q = send_seq p + 1"
    "send_context (send_audio_to E d lid (pid, a) nd) q =
       (send_context nd p)\<lparr>send_counter := send_counter (send_context nd p) + 1\<rparr>"
proof -
  let ?c = "send_context nd p" and ?p = "p\<lparr>send_seq := send_seq p + 1\<rparr>"
  let ?ctx = "?c\<lparr>send_counter := send_counter ?c + 1\<rparr>"
  have nx: "next_counter ?c = (Ok (send_counter ?c), ?ctx)" using assms(3) by (simp add: next_counter_Ok)
  have "seal E (c\<lparr>send_counter := n\<rparr>) ty l s k m = seal E c ty l s k m" for c n ty l s k m
    by (simp add: seal_def encrypt_def)
  moreover obtain w where w: "seal E ?c PKT_AUDIO lid (send_seq p) (send_counter ?c) d = Ok w"
    using env_ok_seal [OF assms(1)] by metis
  ultimately have w': "seal E ?ctx PKT_AUDIO lid (send_seq p) (send_counter ?c) d = Ok w" by simp
  have g: "get_peer pid (peer_mgr (upd_node_peer pid (\<lambda>_. q) n)) = Some q" if "get_peer pid (peer_mgr n) = Some q'" for q q' n
    using that by (simp add: get_upd_node_peer)
  show ?thesis
  proof (cases "kx_sent p \<and> kx_received p \<and> peer_crypto p \<noteq> None")
    case True
    then obtain c where c: "peer_crypto p = Some c" "?c = c" by (auto simp: send_context_def)
    have k: "kx_sent p" "kx_received p" "unat (send_counter c) + 1 < 2 ^ 32" using True assms(3) c(2) by simp_all
    obtain w q where "seal E c PKT_AUDIO lid (send_seq p) (send_counter c) d = Ok w"
      "last_sent (send_audio_to E d lid (pid, a) nd) = w"
      "local_id (peer_mgr (send_audio_to E d lid (pid, a) nd)) = local_id (peer_mgr nd)"
      "get_peer pid (peer_mgr (send_audio_to E d lid (pid, a) nd)) = Some q"
      "kx_sent q" "kx_received q" "peer_crypto q = Some (c\<lparr>send_counter := send_counter c + 1\<rparr>)" "send_seq q = send_seq p + 1"
      by (rule send_audio_to_keyed [OF assms(1,2) k(1,2) c(1) k(3), where lid = lid and d = d and a = a])
    then show ?thesis by (intro that [of w q]) (simp_all add: c(2), simp add: send_context_def)
  next
    case False
    then have c: "?c = crypto_ctx nd" "(if kx_sent p \<and> kx_received p then peer_crypto p else None) = None"
      by (auto simp: send_context_def)
    have "send_audio_to E d lid (pid, a) nd =
        (upd_node_peer pid (\<lambda>_. ?p) nd)\<lparr>crypto_ctx := ?ctx, outbox := outbox nd @ [(w, a)]\<rparr>"
      using assms(1,2) False nx [unfolded c(1)] w' [unfolded c(1)] unfolding c(1)
      by (cases "kx_sent p \<and> kx_received p")
        (auto simp: send_audio_to_def next_seq_def Let_def send_sealed_def upd_node_peer_def)
    with c(1) False w show ?thesis
      using assms(2) by (intro that [of w ?p]) (simp_all add: last_sent_def send_context_def g [OF assms(2)] upd_node_peer_frame)
  qed
qed

section \<open>A stream\<close>

text \<open>For reference: what the receiver's handler answers, and what its playout then pops.\<close>

definition heard ::
  "env \<Rightarrow> env \<Rightarrow> u8 \<times> socket_addr \<Rightarrow> socket_addr \<Rightarrow> bytes list \<Rightarrow> node \<Rightarrow> node \<Rightarrow> unit outcome list \<times> i16 list option list" where
  "heard EA EB dst aA ds nA nB =
     (case talk EA EB dst aA ds nA nB of (rs, _, nB') \<Rightarrow>
        (rs, case get_peer (local_id (peer_mgr nA)) (peer_mgr nB') of
               Some q \<Rightarrow> pop_n (length ds) (rp_jitter q) | None \<Rightarrow> []))"

lemma decode_all_length: "decode_all opus de ds = Ok pcms \<Longrightarrow> length pcms = length ds"
  by (induction ds arbitrary: de pcms) (auto simp: and_then_eq_Ok split: prod.splits)

text \<open>The contract of a stream: \<open>T\<close> says that the two ends fit together, and every frame that fits is heard
  and leaves them fitting.\<close>

locale audio_stream =
  fixes EA EB :: env and T :: "node \<Rightarrow> remote_peer \<Rightarrow> node \<Rightarrow> remote_peer \<Rightarrow> bool"
  assumes frame_heard: "T nA pA nB pB \<Longrightarrow> get_peer idB (peer_mgr nA) = Some pA \<Longrightarrow> get_peer idA (peer_mgr nB) = Some pB \<Longrightarrow>
    unat (send_counter (send_context nA pA)) + 1 < 2 ^ 32 \<Longrightarrow>
    opus_decode_packet (opus_lib EB) (rp_decoder pB) d = (Ok pcm, de) \<Longrightarrow>
    nA' = send_audio_to EA d idA (idB, a) nA \<Longrightarrow>
    \<exists>pA' nB' pB'. get_peer idB (peer_mgr nA') = Some pA' \<and> local_id (peer_mgr nA') = local_id (peer_mgr nA) \<and>
      send_seq pA' = send_seq pA + 1 \<and>
      send_counter (send_context nA' pA') = send_counter (send_context nA pA) + 1 \<and>
      handle_incoming EB (last_sent nA') aA nB = (Ok (), nB') \<and> get_peer idA (peer_mgr nB') = Some pB' \<and>
      rp_jitter pB' = jb_push (rp_jitter pB) (send_seq pA) pcm \<and> rp_decoder pB' = de \<and> T nA' pA' nB' pB'"
begin

lemma talk_heard:
  assumes "get_peer idB (peer_mgr nA) = Some pA" "get_peer idA (peer_mgr nB) = Some pB" "local_id (peer_mgr nA) = idA"
    and "T nA pA nB pB" "unat (send_counter (send_context nA pA)) + length ds < 2 ^ 32"
    and "decode_all (opus_lib EB) (rp_decoder pB) ds = Ok pcms"
  shows "\<exists>nA' nB' q. talk EA EB (idB, a) aA ds nA nB = (replicate (length ds) (Ok ()), nA', nB') \<and>
    get_peer idA (peer_mgr nB') = Some q \<and> rp_jitter q = push_all (rp_jitter pB) (numbered (send_seq pA) pcms)"
  using assms
proof (induction ds arbitrary: nA nB pA pB pcms)
  case Nil
  then show ?case by (simp add: push_all_def)
next
  case (Cons d ds)
  let ?c = "send_context nA pA" and ?nA = "send_audio_to EA d idA (idB, a) nA"
  obtain pcm de rest where dec: "opus_decode_packet (opus_lib EB) (rp_decoder pB) d = (Ok pcm, de)"
    "decode_all (opus_lib EB) de ds = Ok rest" "pcms = pcm # rest"
    using Cons.prems(6) by (auto simp: and_then_eq_Ok split: prod.splits)
  have lt: "unat (send_counter ?c) + 1 < 2 ^ 32" using Cons.prems(5) by simp
  obtain q nB1 qB where r: "get_peer idB (peer_mgr ?nA) = Some q" "local_id (peer_mgr ?nA) = local_id (peer_mgr nA)"
    "send_seq q = send_seq pA + 1" "send_counter (send_context ?nA q) = send_counter ?c + 1"
    "handle_incoming EB (last_sent ?nA) aA nB = (Ok (), nB1)" "get_peer idA (peer_mgr nB1) = Some qB"
    "rp_jitter qB = jb_push (rp_jitter pB) (send_seq pA) pcm" "rp_decoder qB = de" "T ?nA q nB1 qB"
    using frame_heard [OF Cons.prems(4,1,2) lt dec(1) refl, of a aA] by blast
  have "unat (send_counter (send_context ?nA q)) + length ds < 2 ^ 32"
    using Cons.prems(5) lt by (simp add: r(4) unat_word_ariths)
  from Cons.IH [OF r(1,6) _ r(9) this, of rest] dec(2) r(2,8) Cons.prems(3)
  obtain nA' nB' q' where t: "talk EA EB (idB, a) aA ds ?nA nB1 = (replicate (length ds) (Ok ()), nA', nB')"
    "get_peer idA (peer_mgr nB') = Some q'" "rp_jitter q' = push_all (rp_jitter qB) (numbered (send_seq q) rest)" by auto
  have "push_all (rp_jitter qB) (numbered (send_seq q) rest) = push_all (rp_jitter pB) (numbered (send_seq pA) pcms)"
    by (simp add: dec(3) push_all_def r(3,7))
  with t r(5) Cons.prems(3) show ?case by (simp add: Let_def)
qed

text \<open>Up to eight of the frames wait in the jitter buffer and come out in order.\<close>

lemma talk_plays:
  assumes "get_peer idB (peer_mgr nA) = Some pA" "get_peer idA (peer_mgr nB) = Some pB" "local_id (peer_mgr nA) = idA"
    and "T nA pA nB pB" "unat (send_counter (send_context nA pA)) + length ds < 2 ^ 32"
    and "decode_all (opus_lib EB) (rp_decoder pB) ds = Ok pcms"
    and "rp_jitter pB = jitter_buffer_new" "ds \<noteq> []" "length ds \<le> 8"
  shows "heard EA EB (idB, a) aA ds nA nB = (replicate (length ds) (Ok ()), map Some pcms)"
proof -
  have l: "length pcms = length ds" by (rule decode_all_length [OF assms(6)])
  have "pop_n (length (numbered (send_seq pA) pcms)) (push_all jitter_buffer_new (numbered (send_seq pA) pcms)) =
      map (\<lambda>f. Some (jf_pcm f)) (numbered (send_seq pA) pcms)"
    using l assms(8,9) numbered_pcms(2) [of "send_seq pA" pcms]
    by (intro reordered_pops [OF numbered_consecutive]) auto
  with talk_heard [OF assms(1-6), of a aA] l assms(3,7) show ?thesis by (auto simp: numbered_pcms heard_def)
qed

end

text \<open>A frame that opens, under either context, and that the filter of that context admits.\<close>

lemma opened_audio_taken:
  assumes "open_audio E (header_to_bytes h) ct h nd = Ok (d, own)" "pkt_type h = PKT_AUDIO" "get_peer (peer_id h) (peer_mgr nd) = Some p"
    and "check_and_accept (if own then peer_replay_filter p else rp_replay_filter p) (counter h) = (True, flt)"
    and "opus_decode_packet (opus_lib E) (rp_decoder p) d = (Ok pcm, de)"
  shows "handle_incoming E (header_to_bytes h @ ct) a nd = (Ok (), upd_node_peer (peer_id h) (\<lambda>_.
    (if own then p\<lparr>last_seen := clock E, peer_replay_filter := flt\<rparr> else p\<lparr>last_seen := clock E, rp_replay_filter := flt\<rparr>)
      \<lparr>rp_decoder := de, rp_jitter := jb_push (rp_jitter p) (seq_num h) pcm\<rparr>) nd)"
  using assms by (cases own) (simp_all add: handle_incoming_wire Let_def handle_audio_def touch_def)

lemma in_tune_opens:
  assumes "aead_ok (prims E)" "in_tune E own nA pA nB pB" "get_peer idA (peer_mgr nB) = Some pB"
    and "h = packet_header_new PKT_AUDIO idA sn c" "encrypt (prims E) (send_context nA pA) (header_to_bytes h) d idA sn c = Ok ct"
  shows "open_audio E (header_to_bytes h) ct h nB = Ok (d, own)"
proof -
  have f: "peer_id h = idA" "seq_num h = sn" "counter h = c" using assms(4) by (simp_all add: packet_header_new_def)
  have opens: "open_packet E rx (header_to_bytes h) ct h = Ok d"
    if "cipher_key rx = cipher_key (send_context nA pA)" "ctx_session_id rx = ctx_session_id (send_context nA pA)" for rx
    using open_sealed [OF assms(1) that assms(5) [unfolded assms(4)]] by (simp add: assms(4))
  have fails: "open_packet E rx (header_to_bytes h) ct h = Err DecryptFailed"
    if "ctx_session_id rx = ctx_session_id (send_context nA pA)"
      "wrong_key_fails (prims E) (cipher_key (send_context nA pA)) (cipher_key rx)" for rx
    using that assms(5) by (auto simp: encrypt_def ok_or_eq_Ok wrong_key_fails_def open_packet_def decrypt_def f)
  show ?thesis
    using assms(2,3) opens fails
    by (cases own; cases "uses_peer_key pB")
      (auto simp: in_tune_def Let_def open_audio_def f uses_peer_key_def split: option.splits)
qed

interpretation voice: audio_stream EA EB
  "\<lambda>nA pA nB pB. env_ok EA \<and> env_ok EB \<and> prims EA = prims EB \<and> in_tune EB own nA pA nB pB" for EA EB own
proof (unfold_locales, elim conjE)
  fix nA pA nB pB idA idB pcm nA' a aA and d :: bytes and de :: decoder
  let ?tx = "send_context nA pA"
  let ?c = "send_counter ?tx"
  assume A: "env_ok EA" "get_peer idB (peer_mgr nA) = Some pA" and lt: "unat ?c + 1 < 2 ^ 32"
    and nA': "nA' = send_audio_to EA d idA (idB, a) nA"
    and EB: "env_ok EB" "prims EA = prims EB" and pB: "get_peer idA (peer_mgr nB) = Some pB"
    and tune: "in_tune EB own nA pA nB pB" and dec: "opus_decode_packet (opus_lib EB) (rp_decoder pB) d = (Ok pcm, de)"
  obtain w q where s: "seal EA ?tx PKT_AUDIO idA (send_seq pA) ?c d = Ok w" "last_sent nA' = w"
    "local_id (peer_mgr nA') = local_id (peer_mgr nA)" "get_peer idB (peer_mgr nA') = Some q" "send_seq q = send_seq pA + 1"
    "send_context nA' q = ?tx\<lparr>send_counter := ?c + 1\<rparr>"
    unfolding nA' by (rule send_audio_to_sends [OF A lt, of idA d a])
  let ?h = "packet_header_new PKT_AUDIO idA (send_seq pA) ?c" and ?flt = "if own then peer_replay_filter pB else rp_replay_filter pB"
  obtain ct where ct: "encrypt (prims EB) ?tx (header_to_bytes ?h) d idA (send_seq pA) ?c = Ok ct" "w = header_to_bytes ?h @ ct"
    using s(1) EB(2) by (auto simp: seal_Ok)
  obtain S where S: "filter_rep ?flt S" "\<forall>c \<in> S. c < ?c"
    and k: "cipher_key (if own then the (peer_crypto pB) else crypto_ctx nB) = cipher_key ?tx"
    using tune by (auto simp: in_tune_def Let_def)
  obtain flt where flt: "check_and_accept ?flt ?c = (True, flt)" "filter_rep flt (insert ?c S)"
    using window.check_admits [OF S(1) window_admits_newer] S(2) by blast
  define p where "p = (if own then pB\<lparr>last_seen := clock EB, peer_replay_filter := flt\<rparr>
      else pB\<lparr>last_seen := clock EB, rp_replay_filter := flt\<rparr>)\<lparr>rp_decoder := de, rp_jitter := jb_push (rp_jitter pB) (send_seq pA) pcm\<rparr>"
  let ?nB = "upd_node_peer idA (\<lambda>_. p) nB"
  have h: "pkt_type ?h = PKT_AUDIO" "peer_id ?h = idA" "counter ?h = ?c" "seq_num ?h = send_seq pA"
    by (simp_all add: packet_header_new_def)
  have "open_audio EB (header_to_bytes ?h) ct ?h nB = Ok (d, own)"
    using EB(1) by (intro in_tune_opens [OF _ tune pB refl ct(1)]) (simp add: env_ok_def)
  from opened_audio_taken [OF this h(1), unfolded h, OF pB flt(1) dec, of aA]
  have inc: "handle_incoming EB w aA nB = (Ok (), ?nB)" by (simp add: ct(2) p_def)
  have "(x :: u32) < x + 1" if "unat x + 1 < 2 ^ 32" for x
    using that by (simp add: word_less_nat_alt unat_word_ariths)
  then have "\<forall>c \<in> insert ?c S. c < ?c + 1" using S(2) lt by (auto intro: less_trans)
  then have "in_tune EB own nA' q ?nB p"
    using tune flt(2) unfolding in_tune_def s(6) by (auto simp: Let_def p_def uses_peer_key_def)
  moreover have "get_peer idA (peer_mgr ?nB) = Some p" using pB by (simp add: get_upd_node_peer)
  moreover have "rp_jitter p = jb_push (rp_jitter pB) (send_seq pA) pcm" "rp_decoder p = de" by (simp_all add: p_def)
  ultimately show "\<exists>pA' nB' pB'. get_peer idB (peer_mgr nA') = Some pA' \<and> local_id (peer_mgr nA') = local_id (peer_mgr nA) \<and>
      send_seq pA' = send_seq pA + 1 \<and>
      send_counter (send_context nA' pA') = ?c + 1 \<and>
      handle_incoming EB (last_sent nA') aA nB = (Ok (), nB') \<and> get_peer idA (peer_mgr nB') = Some pB' \<and>
      rp_jitter pB' = jb_push (rp_jitter pB) (send_seq pA) pcm \<and> rp_decoder pB' = de \<and>
      env_ok EA \<and> env_ok EB \<and> prims EA = prims EB \<and> in_tune EB own nA' pA' nB' pB'"
    using s(2-6) inc A(1) EB by auto
qed

section \<open>The first words of a session\<close>

text \<open>Right after the greetings both ends use the pre-shared key, with nothing seen before.\<close>

lemma greeted_in_tune:
  assumes "untouched pA" "untouched pB" "crypto_ctx nA = ctx" "crypto_ctx nB = ctx"
  shows "in_tune E False nA pA nB pB" "send_context nA pA = ctx"
  using assms filter_rep_new
  by (auto simp: in_tune_def Let_def send_context_def untouched_def uses_peer_key_def)

text \<open>After the exchange of keys both ends use the common key, from counter zero.\<close>

definition with_key :: "crypto_context \<Rightarrow> remote_peer \<Rightarrow> remote_peer" where
  "with_key ctx p = p\<lparr>peer_crypto := Some ctx, kx_received := True, kx_sent := True\<rparr>"

lemma agreed_in_tune:
  assumes "untouched pA" "untouched pB"
  shows "in_tune E True nA (with_key ctx pA) nB (with_key ctx pB)" "send_context nA (with_key ctx pA) = ctx"
  using assms filter_rep_new
  by (auto simp: in_tune_def Let_def send_context_def untouched_def uses_peer_key_def with_key_def)

lemma untouched_player:
  "untouched p \<Longrightarrow> rp_jitter p = jitter_buffer_new \<and> rp_decoder p = \<lparr>dec_calls = []\<rparr> \<and> \<not> kx_sent p"
  "untouched p \<Longrightarrow> rp_jitter (with_key ctx p) = jitter_buffer_new \<and> rp_decoder (with_key ctx p) = \<lparr>dec_calls = []\<rparr>"
  by (simp_all add: untouched_def with_key_def)

text \<open>Two nodes that know each other through untouched peers and hold the same context hear each other,
  before and after the exchange of keys.\<close>

lemma greeted_heard:
  assumes "env_ok EA" "env_ok EB" "prims EA = prims EB" "local_id (peer_mgr nA) = idA"
    and "get_peer idB (peer_mgr nA) = Some pA" "get_peer idA (peer_mgr nB) = Some pB" "untouched pA" "untouched pB"
    and "crypto_ctx nA = crypto_context_new key sid" "crypto_ctx nB = crypto_context_new key sid"
    and "decode_all (opus_lib EB) \<lparr>dec_calls = []\<rparr> ds = Ok pcms" "ds \<noteq> []" "length ds \<le> 8"
  shows "heard EA EB (idB, a) aA ds nA nB = (replicate (length ds) (Ok ()), map Some pcms)"
proof (rule voice.talk_plays [where own = False, OF assms(5,6,4)])
  have "send_context nA pA = crypto_context_new key sid" by (rule greeted_in_tune(2) [OF assms(7-10)])
  then show "unat (send_counter (send_context nA pA)) + length ds < 2 ^ 32"
    using assms(13) by (simp add: crypto_context_new_def)
qed (use assms untouched_player greeted_in_tune(1) in auto)

lemma agreed_heard:
  assumes "env_ok EA" "env_ok EB" "prims EA = prims EB" "local_id (peer_mgr nA) = idA"
    and "get_peer idB (peer_mgr nA) = Some (with_key (crypto_context_new dk sid) pA)"
    and "get_peer idA (peer_mgr nB) = Some (with_key (crypto_context_new dk sid) pB)" "untouched pA" "untouched pB"
    and "decode_all (opus_lib EB) \<lparr>dec_calls = []\<rparr> ds = Ok pcms" "ds \<noteq> []" "length ds \<le> 8"
  shows "heard EA EB (idB, a) aA ds nA nB = (replicate (length ds) (Ok ()), map Some pcms)"
proof (rule voice.talk_plays [where own = True, OF assms(5,6,4)])
  show "unat (send_counter (send_context nA (with_key (crypto_context_new dk sid) pA))) + length ds < 2 ^ 32"
    using assms(11) by (simp add: agreed_in_tune(2) [OF assms(7,8)] crypto_context_new_def)
qed (use assms untouched_player agreed_in_tune(1) in auto)

section \<open>Properties\<close>

text \<open>C6. Voice gets through from nothing to sound: a fresh joiner and a fresh host with the same passphrase,
  the host's socket bound to an address of its own (not to 0.0.0.0 or ::), shake hands, and from then on up to eight frames that either of them sends are all accepted by the
  other and come out of its jitter buffer in order as exactly what its decoder makes of them; the
  same holds after the two have exchanged keys and speak under the key they derived.\<close>

theorem join_then_talk:
  assumes "env_ok EJ" "env_ok EH" "prims EJ = prims EH" "psk EJ = key" "psk EH = key" "length sid = 8"
    and "local_address EH = Some hA" "\<not> is_unspecified (addr_ip hA)" "wire_addr hA" "wire_addr aJ"
    and "iterates (peer_iter EH)"
    and "dh_ok (prims EH)" "key_pair EJ = key_exchange_new (prims EH) sJ" "key_pair EH = key_exchange_new (prims EH) sH"
    and "derive_peer_key (prims EH) (key_pair EJ) (kx_public (key_pair EH)) sid 1 0 = Ok dk"
    and "decode_all (opus_lib EH) \<lparr>dec_calls = []\<rparr> ds = Ok pcms" "ds \<noteq> []" "length ds \<le> 8"
    and "decode_all (opus_lib EJ) \<lparr>dec_calls = []\<rparr> es = Ok qcms" "es \<noteq> []" "length es \<le> 8"
  shows "case handshake EJ EH port aJ aH (fresh_joiner key) (fresh_host key sid) of (rs, nJ, nH) \<Rightarrow>
    rs = replicate 5 (Ok ()) \<and>
    heard EJ EH (0, aH) aJ ds nJ nH = (replicate (length ds) (Ok ()), map Some pcms) \<and>
    heard EH EJ (1, aJ) aH es nH nJ = (replicate (length es) (Ok ()), map Some qcms) \<and>
    (case key_agreement EJ EH aJ aH 0 nJ nH of (nJ, nH) \<Rightarrow>
       heard EJ EH (0, aH) aJ ds nJ nH = (replicate (length ds) (Ok ()), map Some pcms) \<and>
       heard EH EJ (1, aJ) aH es nH nJ = (replicate (length es) (Ok ()), map Some qcms))"
proof -
  obtain nJ nH pJ pH where h: "handshake EJ EH port aJ aH (fresh_joiner key) (fresh_host key sid) = (replicate 5 (Ok ()), nJ, nH)"
    and J: "local_id (peer_mgr nJ) = 1" "session_id (peer_mgr nJ) = sid" "crypto_ctx nJ = crypto_context_new key sid"
    and H: "local_id (peer_mgr nH) = 0" "session_id (peer_mgr nH) = sid" "crypto_ctx nH = crypto_context_new key sid"
    and pJ: "get_peer 0 (peer_mgr nJ) = Some pJ" "untouched pJ" and pH: "get_peer 1 (peer_mgr nH) = Some pH" "untouched pH"
    by (rule handshake_result [OF assms(1-11), of port aH])
  note uJ = untouched_player(1) [OF pJ(2)] and uH = untouched_player(1) [OF pH(2)]
  obtain nJ' nH' where k: "key_agreement EJ EH aJ aH 0 nJ nH = (nJ', nH')"
    and pH': "get_peer 1 (peer_mgr nH') = Some (with_key (crypto_context_new dk sid) pH)"
    and pJ': "get_peer 0 (peer_mgr nJ') = Some (with_key (crypto_context_new dk sid) pJ)"
    and ids: "local_id (peer_mgr nJ') = 1" "local_id (peer_mgr nH') = 0"
    using key_agreement_result [OF assms(1,2,3) refl assms(12,4,5,13,14) J(2) H(2) J(1) H(1) pJ(1) _ pH(1) _ assms(15), of aJ aH]
      uJ uH unfolding with_key_def by blast
  note JH = assms(1,2,3) and HJ = assms(2,1) assms(3) [symmetric]
  show ?thesis
    using greeted_heard [OF JH J(1) pJ(1) pH(1) pJ(2) pH(2) J(3) H(3) assms(16-18), of aH aJ]
      greeted_heard [OF HJ H(1) pH(1) pJ(1) pH(2) pJ(2) H(3) J(3) assms(19-21), of aJ aH]
      agreed_heard [OF JH ids(1) pJ' pH' pJ(2) pH(2) assms(16-18), of aH aJ]
      agreed_heard [OF HJ ids(2) pH' pJ' pH(2) pJ(2) assms(19-21), of aJ aH]
    by (simp add: h k)
qed

text \<open>Two frames each way.\<close>

theorem join_then_talk_witness:
  "\<exists>EJ EH. case handshake EJ EH 5001 (demo_addr 5001) (demo_addr 5000) (fresh_joiner (replicate 32 5))
       (fresh_host (replicate 32 5) (replicate 8 7)) of (rs, nJ, nH) \<Rightarrow>
     heard EJ EH (0, demo_addr 5000) (demo_addr 5001) [[4, 5], [6]] nJ nH = ([Ok (), Ok ()], [Some [4, 5], Some [6]]) \<and>
     heard EH EJ (1, demo_addr 5001) (demo_addr 5000) [[7], [8, 9]] nH nJ = ([Ok (), Ok ()], [Some [7], Some [8, 9]])"
proof -
  let ?EJ = "demo_env\<lparr>key_pair := key_exchange_new demo_prims [5]\<rparr>" and ?EH = demo_env
  have eJ: "env_ok ?EJ" using demo_env_ok by (simp add: env_ok_def)
  have "x25519_dh demo_prims [5] (x25519_public demo_prims [3]) = replicate 32 15"
    by (simp add: demo_prims_def hd_append)
  moreover have "\<not> list_all (\<lambda>b. b = 0) (replicate 32 (15 :: u8))" by (simp add: list_all_iff)
  moreover have "\<exists>k. hkdf_sha256 demo_prims s i f l = Some k" for s i f l by (simp add: demo_prims_def)
  ultimately obtain dk where dk: "derive_peer_key (prims ?EH) (key_pair ?EJ) (kx_public (key_pair ?EH)) (replicate 8 7) 1 0 = Ok dk"
    by (auto simp: derive_peer_key_def demo_env_def key_exchange_new_def Let_def ok_or_eq_Ok split: prod.splits) metis
  have s: "psk ?EJ = replicate 32 5" "psk ?EH = replicate 32 5" "length (replicate 8 (7 :: u8)) = 8"
    "local_address ?EH = Some (demo_addr 5000)" "\<not> is_unspecified (addr_ip (demo_addr 5000))"
    "wire_addr (demo_addr 5000)" "wire_addr (demo_addr 5001)" "iterates (peer_iter ?EH)"
    by (simp_all add: demo_env_def demo_addr_def iterates_rev)
  have c: "prims ?EJ = prims ?EH" "dh_ok (prims ?EH)" "key_pair ?EJ = key_exchange_new (prims ?EH) [5]"
    "key_pair ?EH = key_exchange_new (prims ?EH) [3]" using demo_dh_ok by (simp_all add: demo_env_def)
  have d: "decode_all (opus_lib ?EH) \<lparr>dec_calls = []\<rparr> [[4, 5], [6]] = Ok [[4, 5], [6]]"
    "decode_all (opus_lib ?EJ) \<lparr>dec_calls = []\<rparr> [[7], [8, 9]] = Ok [[7], [8, 9]]"
    by (simp_all add: demo_env_def opus_decode_packet_def demo_opus_def FRAME_SAMPLES_def)
  from join_then_talk [OF eJ demo_env_ok c(1) s c(2-4) dk d(1) _ _ d(2), of "demo_addr 5000" 5001]
  show ?thesis by (intro exI [of _ ?EJ] exI [of _ ?EH]) (simp add: split_beta numeral_2_eq_2)
qed

end
