(* ===== verification/Stuck.thy ===== *)
theory Stuck
  imports Nonces Sizes Voice
begin

text \<open>
  What a session never recovers from. Nothing is sent twice: a KEY_EXCHANGE goes out at most once per
  peer, so one that is lost leaves a pair of peers with different keys for good. And nothing is given
  back: a host hands out four ids in its life, whoever asks for them, and refuses every JOIN after.
\<close>

section \<open>Key exchanges are sent once\<close>

definition is_key_exchange :: "bytes \<Rightarrow> bool" where
  "is_key_exchange w \<longleftrightarrow> map_option pkt_type (datagram_header w) = Some PKT_KEY_EXCHANGE"

definition key_exchanges :: "(bytes \<times> socket_addr) list \<Rightarrow> nat" where
  "key_exchanges ob = length (filter (\<lambda>wa. is_key_exchange (fst wa)) ob)"

text \<open>The peers to which the node has sent its key, or takes itself to have sent it.\<close>

definition sent_to :: "node \<Rightarrow> u8 set" where
  "sent_to nd = {pid. \<exists>p. get_peer pid (peer_mgr nd) = Some p \<and> kx_sent p}"

lemma is_key_exchange_sealed: "seal E ctx ty lid sn c m = Ok w \<Longrightarrow> is_key_exchange w \<longleftrightarrow> ty = PKT_KEY_EXCHANGE"
  by (auto simp: seal_Ok is_key_exchange_def packet_header_new_def)

lemma key_exchanges_append [simp]: "key_exchanges (xs @ ys) = key_exchanges xs + key_exchanges ys"
  by (simp add: key_exchanges_def)

lemma sent_to_simps [simp]:
  "sent_to (nd\<lparr>crypto_ctx := c\<rparr>) = sent_to nd" "sent_to (snd (send_to E w a nd)) = sent_to nd"
  by (simp_all add: sent_to_def send_to_def)

lemma sent_to_upd: "(\<And>p. kx_sent (f p) = kx_sent p) \<Longrightarrow> sent_to (upd_node_peer pid f nd) = sent_to nd"
  by (auto simp: sent_to_def get_upd_node_peer split: if_splits)

lemma sent_to_mark:
  "get_peer pid (peer_mgr nd) = Some p \<Longrightarrow> sent_to (upd_node_peer pid (\<lambda>p. p\<lparr>kx_sent := True\<rparr>) nd) = insert pid (sent_to nd)"
  by (auto simp: sent_to_def get_upd_node_peer split: if_splits)

lemma sent_to_add: "sent_to (snd (node_add_peer E pid a nd)) = sent_to nd"
  using remote_peer_new_Ok [of "opus_lib E" "clock E" pid a]
  by (auto simp: sent_to_def node_add_peer_def case_prod_beta add_peer_def get_peer_def update_conv' map_of_map_entry
      upd_peer_def split: attempt_split option.splits if_splits)

lemma sent_to_table: "sent_to nd \<subseteq> fst ` set (peers (peer_mgr nd))"
  by (auto simp: sent_to_def get_peer_def dest!: map_of_SomeD intro: rev_image_eqI)

lemma finite_sent_to [simp]: "finite (sent_to nd)"
  by (rule finite_subset [OF sent_to_table]) simp

text \<open>Since the node was \<open>nd0\<close>, marks have only been added, and each KEY_EXCHANGE sent has been paid for
  with a new one.\<close>

definition paid_for :: "node \<Rightarrow> node \<Rightarrow> bool" where
  "paid_for nd0 nd \<longleftrightarrow> sent_to nd0 \<subseteq> sent_to nd \<and>
     (\<exists>new. outbox nd = outbox nd0 @ new \<and> key_exchanges new \<le> card (sent_to nd - sent_to nd0))"

lemma paid_for_refl: "paid_for nd nd"
  by (simp add: paid_for_def key_exchanges_def)

lemma paid_for_frame: "paid_for nd0 nd \<Longrightarrow> outbox nd' = outbox nd \<Longrightarrow> sent_to nd' = sent_to nd \<Longrightarrow> paid_for nd0 nd'"
  by (simp add: paid_for_def)

lemma paid_for_other:
  assumes "paid_for nd0 nd" "seal E ctx ty lid sn c m = Ok w" "ty \<noteq> PKT_KEY_EXCHANGE"
  shows "paid_for nd0 (snd (send_to E w a nd))"
proof -
  obtain new where "outbox nd = outbox nd0 @ new" "key_exchanges new \<le> card (sent_to nd - sent_to nd0)"
    using assms(1) by (auto simp: paid_for_def)
  moreover have "key_exchanges [(w, a)] = 0" using is_key_exchange_sealed [OF assms(2)] assms(3) by (simp add: key_exchanges_def)
  ultimately have "\<exists>more. outbox (snd (send_to E w a nd)) = outbox nd0 @ more \<and> key_exchanges more \<le> card (sent_to nd - sent_to nd0)"
    by (cases "send_ok E w a") (auto simp: send_to_def intro: exI [of _ "new @ [(w, a)]"])
  with assms(1) show ?thesis by (simp add: paid_for_def)
qed

lemma paid_for_key:
  assumes "paid_for nd0 nd" "get_peer pid (peer_mgr nd) = Some p" "\<not> kx_sent p"
  shows "paid_for nd0 (upd_node_peer pid (\<lambda>p. p\<lparr>kx_sent := True\<rparr>) (snd (send_to E w a nd)))"
proof -
  let ?nd = "upd_node_peer pid (\<lambda>p. p\<lparr>kx_sent := True\<rparr>) (snd (send_to E w a nd))"
  obtain new where new: "outbox nd = outbox nd0 @ new" "key_exchanges new \<le> card (sent_to nd - sent_to nd0)" "sent_to nd0 \<subseteq> sent_to nd"
    using assms(1) by (auto simp: paid_for_def)
  have "get_peer pid (peer_mgr (snd (send_to E w a nd))) = Some p" using assms(2) by (simp add: send_to_def)
  from sent_to_mark [OF this] have sent: "sent_to ?nd = insert pid (sent_to nd)" by simp
  have "pid \<notin> sent_to nd" using assms(2,3) by (simp add: sent_to_def)
  with new(3) have "card (sent_to ?nd - sent_to nd0) = Suc (card (sent_to nd - sent_to nd0))"
    unfolding sent by (subst insert_Diff_if) (auto simp: card_insert_if)
  moreover have "key_exchanges [(w, a)] \<le> 1" by (simp add: key_exchanges_def)
  ultimately have "\<exists>more. outbox ?nd = outbox nd0 @ more \<and> key_exchanges more \<le> card (sent_to ?nd - sent_to nd0)"
    using new(1,2) by (cases "send_ok E w a") (auto simp: send_to_def intro: exI [of _ "new @ [(w, a)]"])
  with new(3) show ?thesis by (auto simp: paid_for_def sent)
qed

interpretation once_law: outbox_law "paid_for nd0" "\<lambda>_. True" "\<lambda>_. True" "\<lambda>_. True" "\<lambda>_. True" for nd0
proof (unfold_locales, goal_cases)
  case (1 nd f pid)
  then show ?case by (elim paid_for_frame) (simp_all add: sent_to_upd peer_frame_def)
next
  case (2 nd f)
  then show ?case by (elim paid_for_frame) (auto simp: sent_to_def get_peer_def map_of_map peer_frame_def)
next
  case (3 E nd a pid)
  then show ?case by (elim paid_for_frame) (simp_all add: sent_to_add)
next
  case (4 nd r pm)
  then show ?case by (elim paid_for_frame) (auto simp: sent_to_def get_peer_def allocate_peer_id_def split: if_splits)
next
  case (5 E nd cause ty m ctx lid w a)
  then show ?case by (elim paid_for_other) (auto simp: answers_def pkt_defs)
next
  case (6 E nd pid p m ctx lid w a)
  from 6(2-4) show ?case by (rule paid_for_key)
next
  case (7 nd r ctx)
  then show ?case by (elim paid_for_frame) simp_all
next
  case (8 E nd c ctx ty sn m lid w a)
  have "paid_for nd0 (nd\<lparr>crypto_ctx := ctx\<rparr>)" using 8(2) by (rule paid_for_frame) simp_all
  from this 8(7) show ?case by (rule paid_for_other) (use 8(4) in \<open>auto simp: counted_types_def pkt_defs\<close>)
next
  case (9 nd pid p ctx')
  then show ?case unfolding upd_node_peer_const [OF 9(2)] by (elim paid_for_frame) (simp_all add: sent_to_upd)
next
  case (10 E nd pid p m ctx lid sn c w a)
  from 10(2,6) show ?case by (rule paid_for_other) (simp add: pkt_defs)
next
  case (11 nd pid ctx')
  then show ?case by (elim paid_for_frame) (simp_all add: sent_to_upd)
next
  case (12 nd my_id sid key)
  then show ?case by (elim paid_for_frame) (simp_all add: sent_to_def get_peer_def set_identity_def)
next
  case (23 nd pid p own c fresh flt)
  then show ?case unfolding upd_node_peer_const [OF 23(2)] by (elim paid_for_frame) (simp_all add: sent_to_upd)
qed simp_all

interpretation once_run: outbox_run "paid_for nd0" "\<lambda>_. True" "\<lambda>_. True" "\<lambda>_. True" "\<lambda>_. True" for nd0
proof (unfold_locales, goal_cases)
  case (1 E nd m ctx lid w a)
  then show ?case by (elim paid_for_other) (auto simp: pkt_defs)
qed

text \<open>The two places that send a key look at the mark.\<close>

lemma marked_gets_no_key:
  assumes "pid \<in> sent_to nd"
  shows "key_exchange_to E lid (pid, a) nd = nd"
    "peer_id h = pid \<Longrightarrow> outbox (snd (handle_key_exchange E hb ct h src nd)) = outbox nd"
  using assms by (auto simp: sent_to_def key_exchange_to_def handle_key_exchange_def Let_def get_upd_node_peer split: attempt_split)

section \<open>Four ids in a life\<close>

text \<open>A JOIN as a host takes it: it opens under the pre-shared key and the zero session, and parses.\<close>

definition is_join :: "env \<Rightarrow> bytes \<Rightarrow> bool" where
  "is_join E d \<longleftrightarrow>
     (case and_then (parse_wire_packet d) (\<lambda>(hb, ct). and_then (header_from_bytes hb) (\<lambda>h.
        if pkt_type h = PKT_JOIN
        then and_then (open_packet E (crypto_context_new (psk E) ZERO_SESSION) hb ct h) join_from_bytes
        else Err JoinTooShort)) of Ok _ \<Rightarrow> True | _ \<Rightarrow> False)"

text \<open>A host that has handed out at least the ids below \<open>n\<close>.\<close>

definition handed_out :: "nat \<Rightarrow> node \<Rightarrow> bool" where
  "handed_out n nd \<longleftrightarrow> is_host (peer_mgr nd) \<and> n \<le> unat (next_peer_id (peer_mgr nd))"

lemma handed_out_frame:
  "handed_out n nd \<Longrightarrow> is_host (peer_mgr nd') = is_host (peer_mgr nd) \<Longrightarrow>
     next_peer_id (peer_mgr nd') = next_peer_id (peer_mgr nd) \<Longrightarrow> handed_out n nd'"
  by (simp add: handed_out_def)

lemma host_frame [simp]:
  "is_host (peer_mgr (upd_node_peer pid f nd)) = is_host (peer_mgr nd)"
  "next_peer_id (peer_mgr (upd_node_peer pid f nd)) = next_peer_id (peer_mgr nd)"
  "is_host (peer_mgr (snd (send_to E w a nd))) = is_host (peer_mgr nd)"
  "next_peer_id (peer_mgr (snd (send_to E w a nd))) = next_peer_id (peer_mgr nd)"
  "is_host (peer_mgr (snd (node_add_peer E pid a nd))) = is_host (peer_mgr nd)"
  "next_peer_id (peer_mgr (snd (node_add_peer E pid a nd))) = next_peer_id (peer_mgr nd)"
  using add_peer_frame(3,4) [of "opus_lib E" "clock E" pid a "peer_mgr nd"]
  by (simp_all add: upd_node_peer_def upd_peer_def send_to_def node_add_peer_def case_prod_beta)

lemma allocate_next:
  assumes "allocate_peer_id pm = (r, pm')" "is_host pm"
  shows "is_host pm'" "unat (next_peer_id pm) \<le> unat (next_peer_id pm')"
    "unat (next_peer_id pm) < 5 \<Longrightarrow> unat (next_peer_id pm') = Suc (unat (next_peer_id pm))"
    "5 \<le> unat (next_peer_id pm) \<Longrightarrow> r = Err NoMorePeerIds \<and> pm' = pm"
  using assms by (auto simp: allocate_peer_id_def MAX_PEERS_def unat_word_ariths split: if_splits)

interpretation ids_law: outbox_law "handed_out n" "\<lambda>_. True" "\<lambda>_. True" "\<lambda>_. True" "\<lambda>_. True" for n
proof (unfold_locales, goal_cases)
  case (4 nd r pm)
  then show ?case using allocate_next(1,2) [OF 4(2)] by (auto simp: handed_out_def)
qed (auto simp: set_identity_def elim!: handed_out_frame)

lemma is_joinE:
  assumes "is_join E d"
  obtains h ct pt j where "d = header_to_bytes h @ ct" "pkt_type h = PKT_JOIN" "join_from_bytes pt = Ok j"
    "open_packet E (crypto_context_new (psk E) ZERO_SESSION) (header_to_bytes h) ct h = Ok pt"
proof -
  obtain h ct where d: "d = header_to_bytes h @ ct"
    using assms by (cases d rule: wire_cases) (auto simp: is_join_def parse_wire_packet_def HEADER_LEN_def)
  then show ?thesis
    using assms header_from_to [of h "[]"] that
    by (auto simp: is_join_def parse_wire_packet_def and_then_eq_Ok split: outcome.splits if_splits)
qed

text \<open>A JOIN takes an id, as long as there is one, whatever becomes of the join.\<close>

lemma join_takes_id:
  assumes "is_join E d" "handed_out n nd" "n < 5"
  shows "handed_out (Suc n) (snd (handle_incoming E d src nd))"
proof -
  obtain h ct pt j where d: "d = header_to_bytes h @ ct" and j: "pkt_type h = PKT_JOIN" "join_from_bytes pt = Ok j"
    "open_packet E (crypto_context_new (psk E) ZERO_SESSION) (header_to_bytes h) ct h = Ok pt"
    using assms(1) by (rule is_joinE)
  obtain r pm where a: "allocate_peer_id (peer_mgr nd) = (r, pm)" by fastforce
  have host: "is_host (peer_mgr nd)" using assms(2) by (simp add: handed_out_def)
  have "handed_out (Suc n) (nd\<lparr>peer_mgr := pm\<rparr>)"
    using allocate_next [OF a host] assms(2,3) by (cases "unat (next_peer_id (peer_mgr nd)) < 5") (auto simp: handed_out_def)
  then have "handed_out (Suc n) (snd (handle_join E (header_to_bytes h) ct h src nd))"
    unfolding handle_join_def Let_def using host j(2,3) a
    by (simp del: attempt_st.simps, intro ids_law.attempt_law ids_law.attempt_st_law handed_out_frame [OF _ host_frame(3,4)])
      (auto intro!: ids_law.peer_change ids_law.add_change)
  then show ?thesis using j(1) unfolding d handle_incoming_wire Let_def by (simp add: pkt_defs)
qed

lemma join_not_fatal: "is_join E d \<Longrightarrow> \<not> fatal_packet E d"
  by (erule is_joinE) (auto simp: fatal_packet_def header_prefix_inj pkt_defs)

text \<open>Every JOIN a joiner with the passphrase sends is one.\<close>

lemma sealed_is_join:
  assumes "aead_ok (prims E)" "seal E (crypto_context_new (psk E) ZERO_SESSION) PKT_JOIN pid sn c (join_to_bytes j) = Ok w"
  shows "is_join E w"
proof -
  let ?h = "packet_header_new PKT_JOIN pid sn c"
  obtain ct where ct: "encrypt (prims E) (crypto_context_new (psk E) ZERO_SESSION) (header_to_bytes ?h) (join_to_bytes j) pid sn c = Ok ct"
    and w: "w = header_to_bytes ?h @ ct" using assms(2) by (auto simp: seal_Ok)
  have "pkt_type ?h = PKT_JOIN" by (simp add: packet_header_new_def)
  with open_sealed [OF assms(1) refl refl ct] header_from_to [of ?h "[]"] join_from_to [of j "[]"] show ?thesis
    by (simp add: is_join_def w parse_wire_packet_def)
qed

lemma join_refused:
  assumes "is_join E d" "handed_out 5 nd"
  shows "handle_incoming E d src nd = (Err NoMorePeerIds, nd)"
proof -
  obtain h ct pt j where j: "d = header_to_bytes h @ ct" "pkt_type h = PKT_JOIN" "join_from_bytes pt = Ok j"
    "open_packet E (crypto_context_new (psk E) ZERO_SESSION) (header_to_bytes h) ct h = Ok pt"
    using assms(1) by (rule is_joinE)
  obtain r pm where a: "allocate_peer_id (peer_mgr nd) = (r, pm)" by fastforce
  have host: "is_host (peer_mgr nd)" and full: "r = Err NoMorePeerIds" "pm = peer_mgr nd"
    using assms(2) allocate_next(4) [OF a] by (simp_all add: handed_out_def)
  have "handle_join E (header_to_bytes h) ct h src nd = (Err NoMorePeerIds, nd)"
    unfolding handle_join_def Let_def using j(3,4) host a full by simp
  then show ?thesis using j(1,2) by (simp add: handle_incoming_wire pkt_defs)
qed

lemma is_join_clock [simp]: "is_join (E\<lparr>clock := t\<rparr>) = is_join E"
proof -
  have "open_packet (E\<lparr>clock := t\<rparr>) = open_packet E" "psk (E\<lparr>clock := t\<rparr>) = psk E"
    by (intro ext, simp add: open_packet_def) simp
  then show ?thesis by (intro ext) (simp only: is_join_def)
qed

lemma turn_takes_id:
  assumes "is_join E d" "handed_out n (the_node s)" "n < 5"
  shows "handed_out (Suc n) (the_node (loop_turn (E\<lparr>clock := t\<rparr>) A (Some (d, src)) popped s))"
proof (rule ids_law.turn_after_receive)
  have "is_join (E\<lparr>clock := t\<rparr>) d" using assms(1) by simp
  from join_takes_id [OF this, of n "the_node (sync_controls s)" src] assms(2,3)
  show "handed_out (Suc n) (the_node (receive_part (E\<lparr>clock := t\<rparr>) (Some (d, src)) (sync_controls s)))"
    by (auto simp: receive_part_def sync_controls_def Let_def split: prod.splits)
qed simp

text \<open>The JOINs among the turns a run takes.\<close>

definition joins_received :: "env \<Rightarrow> turn_input list \<Rightarrow> nat" where
  "joins_received E inputs =
     length (filter (\<lambda>i. case in_datagram i of Some (d, src) \<Rightarrow> is_join E d | None \<Rightarrow> False) (takeWhile in_running inputs))"

lemma joins_take_ids:
  assumes "reach (session_start key) (session_step key) s" "psk E = key" "iterates (ping_iter E)"
    and "handed_out n (the_node s)" "\<not> panicked (run_turns E A inputs s)" "\<not> panicked s"
  shows "handed_out (min 5 (n + joins_received E inputs)) (the_node (run_turns E A inputs s))"
  using assms(1,4-6)
proof (induction inputs arbitrary: s n)
  case Nil
  then show ?case by (auto simp: joins_received_def handed_out_def)
next
  case (Cons i rest)
  show ?case
  proof (cases "in_running i")
    case False
    then show ?thesis using Cons.prems by (auto simp: joins_received_def handed_out_def)
  next
    case True
    let ?t = "loop_turn (E\<lparr>clock := at_time i\<rparr>) A (in_datagram i) (in_samples i) (s\<lparr>the_shared := in_controls i (the_shared s)\<rparr>)"
    let ?k = "case in_datagram i of Some (d, src) \<Rightarrow> is_join E d | None \<Rightarrow> False"
    have inv: "node_inv key (the_node s)" using session_sys.reach_inv [OF Cons.prems(1)] by simp
    have keep: "handed_out m (the_node ?t)" if "handed_out m (the_node s)" for m
      by (rule ids_law.turn_law [where key = key]) (use that inv in simp_all)
    have t: "handed_out (if ?k \<and> n < 5 then Suc n else n) (the_node ?t)"
    proof (cases "?k \<and> n < 5")
      case k: True
      then obtain d src where "in_datagram i = Some (d, src)" "is_join E d" by (auto split: option.splits)
      then show ?thesis
        using turn_takes_id [of E d n "s\<lparr>the_shared := in_controls i (the_shared s)\<rparr>" "at_time i" A src "in_samples i"] Cons.prems(2) k by simp
    qed (use keep Cons.prems(2) in auto)
    have np: "\<not> panicked ?t" using Cons.prems(3) True by (auto simp: Let_def split: if_splits)
    have "reach (session_start key) (session_step key) ?t" by (rule turn_reach [OF assms(3,2) Cons.prems(1)])
    from Cons.IH [OF this t _ np] Cons.prems(3) True np
    have "handed_out (min 5 ((if ?k \<and> n < 5 then Suc n else n) + joins_received E rest)) (the_node (run_turns E A rest ?t))"
      by (simp add: Let_def)
    moreover have "min 5 (n + joins_received E (i # rest)) \<le> min 5 ((if ?k \<and> n < 5 then Suc n else n) + joins_received E rest)"
      using True by (auto simp: joins_received_def)
    ultimately show ?thesis using True np by (auto simp: handed_out_def Let_def)
  qed
qed

section \<open>A lost KEY_EXCHANGE\<close>

text \<open>Both timers send a key; the datagram of the first node is lost, that of the second arrives.\<close>

definition half_agreement ::
  "env \<Rightarrow> env \<Rightarrow> socket_addr \<Rightarrow> socket_addr \<Rightarrow> u8 \<Rightarrow> u8 \<Rightarrow> node \<Rightarrow> node \<Rightarrow> node \<times> node" where
  "half_agreement EA EB aA aB idA idB nA nB =
     (let nA1 = key_exchange_to EA idA (idB, aB) nA;
          nB1 = key_exchange_to EB idB (idA, aA) nB
      in (snd (handle_incoming EA (last_sent nB1) aB nA1), nB1))"

text \<open>The node that got the other's key speaks under the common key, the other one expects the pre-shared one.\<close>

lemma half_agreement_result:
  assumes "env_ok EA" "env_ok EB" "prims EA = prims EB" "dh_ok (prims EB)" "psk EA = key" "psk EB = key"
    and "key_pair EB = key_exchange_new (prims EB) sB"
    and "session_id (peer_mgr nA) = sid" "session_id (peer_mgr nB) = sid" "local_id (peer_mgr nA) = idA" "local_id (peer_mgr nB) = idB"
    and "get_peer idB (peer_mgr nA) = Some pA" "\<not> kx_sent pA" "get_peer idA (peer_mgr nB) = Some pB" "\<not> kx_sent pB"
    and "derive_peer_key (prims EA) (key_pair EA) (kx_public (key_pair EB)) sid idA idB = Ok dk"
  obtains nA' nB' where "half_agreement EA EB aA aB idA idB nA nB = (nA', nB')"
    "get_peer idB (peer_mgr nA') = Some (pA\<lparr>kx_sent := True, peer_crypto := Some (crypto_context_new dk sid), kx_received := True\<rparr>)"
    "get_peer idA (peer_mgr nB') = Some (pB\<lparr>kx_sent := True\<rparr>)" "local_id (peer_mgr nA') = idA" "local_id (peer_mgr nB') = idB" "crypto_ctx nB' = crypto_ctx nB"
    "crypto_ctx nA' = crypto_ctx nA"
proof -
  have pub: "length (kx_public (key_pair EB)) = 32" using assms(4,7) by (simp add: key_exchange_new_def dh_ok_def)
  obtain c1 where s1: "send_key_exchange EA idA sid idB aB nA = upd_node_peer idB (\<lambda>p. p\<lparr>kx_sent := True\<rparr>)
       (nA\<lparr>outbox := outbox nA @ [(header_to_bytes (packet_header_new PKT_KEY_EXCHANGE idA 0 0) @ c1, aB)]\<rparr>)" (is "_ = ?nA1")
    using send_key_exchange_Ok [OF assms(1,5)] by metis
  obtain c2 where c2: "encrypt (prims EB) (crypto_context_new key sid) (header_to_bytes (packet_header_new PKT_KEY_EXCHANGE idB 0 0))
       (kx_public (key_pair EB)) idB 0 0 = Ok c2"
    and s2: "send_key_exchange EB idB sid idA aA nB = upd_node_peer idA (\<lambda>p. p\<lparr>kx_sent := True\<rparr>)
       (nB\<lparr>outbox := outbox nB @ [(header_to_bytes (packet_header_new PKT_KEY_EXCHANGE idB 0 0) @ c2, aA)]\<rparr>)" (is "_ = ?nB1")
    using send_key_exchange_Ok [OF assms(2,6)] by metis
  have k: "key_exchange_to EA idA (idB, aB) nA = ?nA1" "key_exchange_to EB idB (idA, aA) nB = ?nB1"
    using assms(8,9,12-15) s1 s2 by (simp_all add: key_exchange_to_def)
  have A1: "session_id (peer_mgr ?nA1) = sid" "local_id (peer_mgr ?nA1) = idA"
    "get_peer idB (peer_mgr ?nA1) = Some (pA\<lparr>kx_sent := True\<rparr>)"
    using assms(8,10,12) by (simp_all add: get_upd_node_peer) (simp_all add: upd_node_peer_def)
  define nA2 where "nA2 = upd_node_peer idB (\<lambda>p. p\<lparr>peer_crypto := Some (crypto_context_new dk sid), kx_received := True\<rparr>) ?nA1"
  have r: "handle_incoming EA (header_to_bytes (packet_header_new PKT_KEY_EXCHANGE idB 0 0) @ c2) aB ?nA1 = (Ok (), nA2)"
    using key_exchange_received [OF assms(1) assms(3) [symmetric] assms(5) pub, of ?nA1 idB c2 dk nA2 aB] c2 assms(16)
    by (simp only: A1 nA2_def) simp
  have l: "last_sent ?nB1 = header_to_bytes (packet_header_new PKT_KEY_EXCHANGE idB 0 0) @ c2"
    by (simp add: last_sent_def)
  show ?thesis
  proof (rule that [of nA2 ?nB1])
    show "half_agreement EA EB aA aB idA idB nA nB = (nA2, ?nB1)" by (simp only: half_agreement_def Let_def k l r snd_conv)
    show "get_peer idB (peer_mgr nA2) = Some (pA\<lparr>kx_sent := True, peer_crypto := Some (crypto_context_new dk sid), kx_received := True\<rparr>)"
      using assms(12) by (simp add: nA2_def get_upd_node_peer)
  qed (use assms(10,11,14) in \<open>simp_all add: get_upd_node_peer nA2_def upd_node_peer_frame\<close>)
qed

lemma refused_audio:
  assumes "prims EA = prims EB" "wrong_key_fails (prims EB) (cipher_key ctx) (cipher_key (crypto_ctx nB))"
    and "ctx_session_id ctx = ctx_session_id (crypto_ctx nB)" "get_peer idA (peer_mgr nB) = Some pB" "\<not> kx_received pB"
    and "seal EA ctx PKT_AUDIO idA sn c d = Ok w"
  shows "handle_incoming EB w a nB = (Err DecryptFailed, nB)"
proof -
  let ?h = "packet_header_new PKT_AUDIO idA sn c"
  obtain ct where ct: "encrypt (prims EA) ctx (header_to_bytes ?h) d idA sn c = Ok ct" and w: "w = header_to_bytes ?h @ ct"
    using assms(6) by (auto simp: seal_Ok)
  have h: "pkt_type ?h = PKT_AUDIO" "peer_id ?h = idA" "seq_num ?h = sn" "counter ?h = c" by (simp_all add: packet_header_new_def)
  have "open_packet EB (crypto_ctx nB) (header_to_bytes ?h) ct ?h = Err DecryptFailed"
    using ct assms(1-3) by (auto simp: encrypt_def ok_or_eq_Ok wrong_key_fails_def open_packet_def decrypt_def h)
  then have "handle_audio EB (header_to_bytes ?h) ct ?h nB = (Err DecryptFailed, nB)"
    using assms(4,5) by (simp add: handle_audio_def open_audio_def h Let_def)
  then show ?thesis by (simp add: w handle_incoming_wire h Let_def)
qed

lemma talk_refused:
  assumes "env_ok EA" "prims EA = prims EB" "get_peer idA (peer_mgr nB) = Some pB" "\<not> kx_received pB"
    and "get_peer idB (peer_mgr nA) = Some pA" "kx_sent pA" "kx_received pA" "peer_crypto pA = Some ctx"
    and "wrong_key_fails (prims EB) (cipher_key ctx) (cipher_key (crypto_ctx nB))"
    and "ctx_session_id ctx = ctx_session_id (crypto_ctx nB)"
    and "local_id (peer_mgr nA) = idA" "unat (send_counter ctx) + length ds < 2 ^ 32"
  shows "\<exists>nA'. talk EA EB (idB, aB) aA ds nA nB = (replicate (length ds) (Err DecryptFailed), nA', nB)"
  using assms(5-12)
proof (induction ds arbitrary: nA pA ctx)
  case (Cons d ds)
  let ?nA = "send_audio_to EA d idA (idB, aB) nA" and ?ctx = "ctx\<lparr>send_counter := send_counter ctx + 1\<rparr>"
  have lt: "unat (send_counter ctx) + 1 < 2 ^ 32" using Cons.prems(8) by simp
  obtain w q where w: "seal EA ctx PKT_AUDIO idA (send_seq pA) (send_counter ctx) d = Ok w"
    "last_sent ?nA = w" "local_id (peer_mgr ?nA) = local_id (peer_mgr nA)" "get_peer idB (peer_mgr ?nA) = Some q"
    "kx_sent q" "kx_received q" "peer_crypto q = Some ?ctx"
    by (rule send_audio_to_keyed [OF assms(1) Cons.prems(1-4) lt, where lid = idA and d = d and a = aB])
  have "handle_incoming EB w aA nB = (Err DecryptFailed, nB)"
    by (rule refused_audio [OF assms(2) Cons.prems(5,6) assms(3,4) w(1)])
  moreover have "unat (send_counter ?ctx) + length ds < 2 ^ 32"
    using Cons.prems(8) lt by (simp add: unat_word_ariths)
  with Cons.IH [OF w(4-7)] Cons.prems(5-7) w(3)
  obtain nA' where "talk EA EB (idB, aB) aA ds ?nA nB = (replicate (length ds) (Err DecryptFailed), nA', nB)" by auto
  ultimately show ?case using Cons.prems(7) w(2) by (simp add: Let_def)
qed simp

lemma pop_n_new: "pop_n n jitter_buffer_new = replicate n None"
  by (induction n) (simp_all add: jb_pop_def jitter_buffer_new_def)


section \<open>Properties\<close>

text \<open>C26. A KEY_EXCHANGE goes to a peer at most once, and a lost one is never sent again. Between any two
  moments of a session, whatever it receives, captures and is told, each KEY_EXCHANGE it sends is
  paid for by a peer that it had not marked as having got one and then has: no more are sent than
  peers are newly marked, a mark is never taken back, and at most four peers are ever marked. To a
  marked peer neither of the two places that send a key, the ping timer and the answer to a
  KEY_EXCHANGE, sends anything.\<close>

theorem one_key_exchange_per_peer:
  assumes "reach (session_start key) (session_step key) s" "(session_step key)\<^sup>*\<^sup>* s s'"
  shows "\<exists>new. outbox (the_node s') = outbox (the_node s) @ new \<and>
    key_exchanges new \<le> card (sent_to (the_node s') - sent_to (the_node s)) \<and>
    sent_to (the_node s) \<subseteq> sent_to (the_node s') \<and> card (sent_to (the_node s')) \<le> 4 \<and>
    (\<forall>pid \<in> sent_to (the_node s').
       (\<forall>E lid a. key_exchange_to E lid (pid, a) (the_node s') = the_node s') \<and>
       (\<forall>E hb ct h src. peer_id h = pid \<longrightarrow>
          outbox (snd (handle_key_exchange E hb ct h src (the_node s'))) = outbox (the_node s')))"
proof -
  have inv: "node_inv key (the_node s)" by (rule session_sys.reach_inv [OF assms(1)])
  have "paid_for (the_node s) (the_node s')"
    by (rule once_run.steps_law [OF _ _ _ assms(2) inv paid_for_refl]) simp_all
  moreover have "node_inv key (the_node s')" by (rule session_sys.steps_inv [OF assms(2) inv])
  then have "length (peers (peer_mgr (the_node s'))) \<le> 4" by (simp add: node_inv_def pm_inv_def table_ok_def)
  then have "card (sent_to (the_node s')) \<le> 4"
    using card_mono [OF _ sent_to_table [of "the_node s'"]] card_image_le [of "set (peers (peer_mgr (the_node s')))" fst]
      card_length [of "peers (peer_mgr (the_node s'))"] by simp
  ultimately show ?thesis using marked_gets_no_key by (auto simp: paid_for_def)
qed

text \<open>A turn of a host with a connected peer, at the time of a ping.\<close>

theorem one_key_exchange_per_peer_witness:
  "\<exists>new. outbox (the_node (loop_turn (demo_env\<lparr>clock := 3000000000\<rparr>) demo_audio_env None [] demo_session)) =
      outbox (the_node demo_session) @ new \<and> key_exchanges new \<le> 4"
proof -
  let ?t = "loop_turn (demo_env\<lparr>clock := 3000000000\<rparr>) demo_audio_env None [] demo_session"
  have "session_start (replicate 32 5) demo_session"
    by (auto simp: session_start_def demo_session_def intro!: exI [of _ "replicate 8 7"])
  then have r: "reach (session_start (replicate 32 5)) (session_step (replicate 32 5)) demo_session" by (rule reach_start)
  have "session_step (replicate 32 5) demo_session ?t" by (rule step_turn) (simp_all add: demo_env_def iterates_rev)
  from one_key_exchange_per_peer [OF r r_into_rtranclp [of "session_step (replicate 32 5)", OF this]] obtain new where
    "outbox (the_node ?t) = outbox (the_node demo_session) @ new"
    "key_exchanges new \<le> card (sent_to (the_node ?t) - sent_to (the_node demo_session))" "card (sent_to (the_node ?t)) \<le> 4" by blast
  moreover have "card (sent_to (the_node ?t) - sent_to (the_node demo_session)) \<le> card (sent_to (the_node ?t))"
    by (rule card_mono) auto
  ultimately show ?thesis by (intro exI [of _ new]) simp
qed

text \<open>C27. One lost KEY_EXCHANGE mutes one direction for good. A joiner and a host, whose socket is bound to an
  address of its own (not to 0.0.0.0 or ::), have shaken hands, and both
  send their keys, but the joiner's datagram is lost: the joiner has the host's key, the host not the
  joiner's. The joiner now speaks under the common key, the host expects the pre-shared one, so every
  frame the joiner sends fails to open and none is played; and neither side's timer sends its key
  again. The other direction is unharmed: what the host sends under the pre-shared key is played,
  because the joiner falls back to that key. The hypothesis on the cipher is that what is sealed under
  one of the two keys does not open under the other.\<close>

theorem lost_key_exchange_mutes:
  assumes "env_ok EJ" "env_ok EH" "prims EJ = prims EH" "psk EJ = key" "psk EH = key" "length sid = 8"
    and "local_address EH = Some hA" "\<not> is_unspecified (addr_ip hA)" "wire_addr hA" "wire_addr aJ"
    and "iterates (peer_iter EH)"
    and "dh_ok (prims EH)" "key_pair EH = key_exchange_new (prims EH) sH"
    and "derive_peer_key (prims EH) (key_pair EJ) (kx_public (key_pair EH)) sid 1 0 = Ok dk"
    and "wrong_key_fails (prims EH) dk key" "wrong_key_fails (prims EH) key dk" "length ds < 2 ^ 32"
    and "decode_all (opus_lib EJ) \<lparr>dec_calls = []\<rparr> es = Ok qcms" "es \<noteq> []" "length es \<le> 8"
  shows "case handshake EJ EH port aJ aH (fresh_joiner key) (fresh_host key sid) of (_, nJ, nH) \<Rightarrow>
    case half_agreement EJ EH aJ aH 1 0 nJ nH of (nJ, nH) \<Rightarrow>
      heard EJ EH (0, aH) aJ ds nJ nH = (replicate (length ds) (Err DecryptFailed), replicate (length ds) None) \<and>
      heard EH EJ (1, aJ) aH es nH nJ = (replicate (length es) (Ok ()), map Some qcms) \<and>
      key_exchange_to EJ 1 (0, aH) nJ = nJ \<and> key_exchange_to EH 0 (1, aJ) nH = nH"
proof -
  obtain nJ nH pJ pH where h: "handshake EJ EH port aJ aH (fresh_joiner key) (fresh_host key sid) = (replicate 5 (Ok ()), nJ, nH)"
    and J: "local_id (peer_mgr nJ) = 1" "session_id (peer_mgr nJ) = sid" "crypto_ctx nJ = crypto_context_new key sid"
    and H: "local_id (peer_mgr nH) = 0" "session_id (peer_mgr nH) = sid" "crypto_ctx nH = crypto_context_new key sid"
    and pJ: "get_peer 0 (peer_mgr nJ) = Some pJ" "untouched pJ" and pH: "get_peer 1 (peer_mgr nH) = Some pH" "untouched pH"
    by (rule handshake_result [OF assms(1-11), of port aH])
  have u: "\<not> kx_sent pJ" "\<not> kx_sent pH" "\<not> kx_received (pH\<lparr>kx_sent := True\<rparr>)" "rp_jitter pH = jitter_buffer_new"
    using pJ(2) pH(2) by (simp_all add: untouched_def)
  have dk: "derive_peer_key (prims EJ) (key_pair EJ) (kx_public (key_pair EH)) sid 1 0 = Ok dk" using assms(3,14) by simp
  obtain nJ' nH' where k: "half_agreement EJ EH aJ aH 1 0 nJ nH = (nJ', nH')"
    and pJ': "get_peer 0 (peer_mgr nJ') = Some (pJ\<lparr>kx_sent := True, peer_crypto := Some (crypto_context_new dk sid), kx_received := True\<rparr>)"
    and pH': "get_peer 1 (peer_mgr nH') = Some (pH\<lparr>kx_sent := True\<rparr>)"
    and n: "local_id (peer_mgr nJ') = 1" "local_id (peer_mgr nH') = 0" "crypto_ctx nH' = crypto_context_new key sid"
      "crypto_ctx nJ' = crypto_context_new key sid"
    by (rule half_agreement_result [OF assms(1-3,12,4,5,13) J(2) H(2) J(1) H(1) pJ(1) u(1) pH(1) u(2) dk, of aJ aH, unfolded H(3) J(3)])
  have c: "wrong_key_fails (prims EH) (cipher_key (crypto_context_new dk sid)) (cipher_key (crypto_ctx nH'))"
    "ctx_session_id (crypto_context_new dk sid) = ctx_session_id (crypto_ctx nH')"
    "unat (send_counter (crypto_context_new dk sid)) + length ds < 2 ^ 32"
    using assms(15,17) by (simp_all add: n(3) crypto_context_new_def)
  obtain nJ2 where "talk EJ EH (0, aH) aJ ds nJ' nH' = (replicate (length ds) (Err DecryptFailed), nJ2, nH')"
    using talk_refused [OF assms(1,3) pH' u(3) pJ' _ _ _ c(1,2) n(1) c(3), of aH aJ] by auto
  then have "heard EJ EH (0, aH) aJ ds nJ' nH' = (replicate (length ds) (Err DecryptFailed), replicate (length ds) None)"
    by (simp add: heard_def n(1) pH' u(4) pop_n_new)
  moreover have "heard EH EJ (1, aJ) aH es nH' nJ' = (replicate (length es) (Ok ()), map Some qcms)"
  proof (rule voice.talk_plays [where own = False, OF pH' pJ' n(2)])
    have tx: "send_context nH' (pH\<lparr>kx_sent := True\<rparr>) = crypto_context_new key sid"
      using u(3) by (simp add: send_context_def n(3))
    then show "unat (send_counter (send_context nH' (pH\<lparr>kx_sent := True\<rparr>))) + length es < 2 ^ 32"
      using assms(20) by (simp add: crypto_context_new_def)
    have "in_tune EJ False nH' (pH\<lparr>kx_sent := True\<rparr>) nJ' (pJ\<lparr>kx_sent := True, peer_crypto := Some (crypto_context_new dk sid), kx_received := True\<rparr>)"
      using assms(3,16) pJ(2) filter_rep_new n(4)
      by (auto simp: in_tune_def tx Let_def untouched_def crypto_context_new_def)
    then show "env_ok EH \<and> env_ok EJ \<and> prims EH = prims EJ \<and> in_tune EJ False nH' (pH\<lparr>kx_sent := True\<rparr>) nJ'
        (pJ\<lparr>kx_sent := True, peer_crypto := Some (crypto_context_new dk sid), kx_received := True\<rparr>)"
      using assms(1-3) by simp
  qed (use assms(18-20) pJ(2) in \<open>simp_all add: untouched_def\<close>)
  ultimately show ?thesis using h k pJ' pH' by (simp add: key_exchange_to_def)
qed

theorem lost_key_exchange_mutes_witness:
  "\<exists>EJ EH. case handshake EJ EH 5001 (demo_addr 5001) (demo_addr 5000) (fresh_joiner (replicate 32 5))
       (fresh_host (replicate 32 5) (replicate 8 7)) of (_, nJ, nH) \<Rightarrow>
     case half_agreement EJ EH (demo_addr 5001) (demo_addr 5000) 1 0 nJ nH of (nJ, nH) \<Rightarrow>
       heard EJ EH (0, demo_addr 5000) (demo_addr 5001) [[4, 5], [6]] nJ nH = ([Err DecryptFailed, Err DecryptFailed], [None, None]) \<and>
       heard EH EJ (1, demo_addr 5001) (demo_addr 5000) [[7], [8, 9]] nH nJ = ([Ok (), Ok ()], [Some [7], Some [8, 9]])"
proof -
  let ?EJ = "demo_env\<lparr>key_pair := key_exchange_new demo_prims [5]\<rparr>" and ?EH = demo_env
  have eJ: "env_ok ?EJ" using demo_env_ok by (simp add: env_ok_def)
  have "x25519_dh demo_prims [5] (x25519_public demo_prims [3]) = replicate 32 15"
    by (simp add: demo_prims_def hd_append)
  moreover have "\<not> list_all (\<lambda>b. b = 0) (replicate 32 (15 :: u8))" by (simp add: list_all_iff)
  ultimately obtain dk where dk: "derive_peer_key (prims ?EH) (key_pair ?EJ) (kx_public (key_pair ?EH)) (replicate 8 7) 1 0 = Ok dk"
    "sum_list dk \<noteq> sum_list (replicate 32 5)"
    by (simp add: derive_peer_key_def demo_env_def key_exchange_new_def Let_def)
      (simp add: demo_prims_def INFO_PREFIX_def sum_list_replicate)
  have "wrong_key_fails demo_prims dk (replicate 32 5)" "wrong_key_fails demo_prims (replicate 32 5) dk"
    using dk(2) by (auto simp: wrong_key_fails_def demo_prims_def demo_tag_def)
  then have w: "wrong_key_fails (prims ?EH) dk (replicate 32 5)" "wrong_key_fails (prims ?EH) (replicate 32 5) dk"
    by (simp_all add: demo_env_def)
  have s: "psk ?EJ = replicate 32 5" "psk ?EH = replicate 32 5" "length (replicate 8 (7 :: u8)) = 8"
    "local_address ?EH = Some (demo_addr 5000)" "\<not> is_unspecified (addr_ip (demo_addr 5000))"
    "wire_addr (demo_addr 5000)" "wire_addr (demo_addr 5001)" "iterates (peer_iter ?EH)"
    by (simp_all add: demo_env_def demo_addr_def iterates_rev)
  have p: "prims ?EJ = prims ?EH" "dh_ok (prims ?EH)" "key_pair ?EH = key_exchange_new (prims ?EH) [3]"
    using demo_dh_ok by (simp_all add: demo_env_def)
  have l: "length [[4, 5], [6 :: u8]] < 2 ^ 32" by simp
  have d: "decode_all (opus_lib ?EJ) \<lparr>dec_calls = []\<rparr> [[7], [8, 9]] = Ok [[7], [8, 9]]" "[[7], [8, 9 :: u8]] \<noteq> []" "length [[7], [8, 9 :: u8]] \<le> 8"
    by (simp_all add: demo_env_def opus_decode_packet_def demo_opus_def FRAME_SAMPLES_def)
  from lost_key_exchange_mutes [OF eJ demo_env_ok p(1) s p(2,3) dk(1) w l d, where port = 5001 and aH = "demo_addr 5000"]
  show ?thesis by (intro exI [of _ ?EJ] exI [of _ ?EH]) (auto simp: numeral_2_eq_2 split: prod.splits)
qed

text \<open>C28. Four JOINs lock a host. Once the turns of a host's run have received four datagrams that open as a
  JOIN under the pre-shared key, were they four copies of one recorded datagram, the host refuses every
  further JOIN and nothing changes: each takes an id, ids are never given back, whether or not a
  peer is there, and nothing tells a replayed JOIN from a new one.\<close>

theorem four_joins_lock_host:
  assumes "session_start key s" "is_host (peer_mgr (the_node s))" "psk E = key" "iterates (ping_iter E)"
    and "\<not> panicked s" "\<not> panicked (run_turns E A inputs s)" "4 \<le> joins_received E inputs"
    and "is_join E d"
  shows "handle_incoming E d src (the_node (run_turns E A inputs s)) = (Err NoMorePeerIds, the_node (run_turns E A inputs s))"
proof -
  have "handed_out 1 (the_node s)"
    using assms(1,2) by (auto simp: session_start_def handed_out_def new_host_def new_joiner_def)
  moreover have "reach (session_start key) (session_step key) s" using assms(1) by (rule reach_start)
  ultimately have "handed_out (min 5 (1 + joins_received E inputs)) (the_node (run_turns E A inputs s))"
    using assms(3-6) by (intro joins_take_ids)
  with assms(7)
  have "handed_out 5 (the_node (run_turns E A inputs s))" by (simp add: handed_out_def)
  then show ?thesis by (rule join_refused [OF assms(8)])
qed

theorem four_joins_lock_host_witness:
  "\<exists>w. seal demo_env (crypto_context_new (replicate 32 5) ZERO_SESSION) PKT_JOIN 0 0 0 (join_to_bytes \<lparr>listen_port = 5001\<rparr>) = Ok w \<and>
     (let nd = the_node (run_turns demo_env demo_audio_env (replicate 4 (demo_input\<lparr>in_recv := Arrives w (demo_addr 5001)\<rparr>)) demo_session)
      in handle_incoming demo_env w (demo_addr 5002) nd = (Err NoMorePeerIds, nd))"
proof -
  let ?ctx = "crypto_context_new (replicate 32 5) ZERO_SESSION" and ?h = "packet_header_new PKT_JOIN 0 0 0"
  obtain w where w: "seal demo_env ?ctx PKT_JOIN 0 0 0 (join_to_bytes \<lparr>listen_port = 5001\<rparr>) = Ok w"
    using demo_seal by blast
  let ?in = "demo_input\<lparr>in_recv := Arrives w (demo_addr 5001)\<rparr>"
  have "length w \<le> MAX_PACKET_LEN"
    using w by (auto simp: seal_Ok encrypt_def ok_or_eq_Ok demo_env_def demo_prims_def demo_tag_def join_to_bytes_def
        u16_to_be_bytes_def MAX_PACKET_LEN_def HEADER_LEN_def)
  then have d: "in_datagram ?in = Some (w, demo_addr 5001)" "in_running ?in" by (simp_all add: demo_input_def in_datagram_def)
  have j: "is_join demo_env w" using w demo_aead_ok by (intro sealed_is_join) (simp_all add: demo_env_def)
  have st: "session_start (replicate 32 5) demo_session" "is_host (peer_mgr (the_node demo_session))"
    "psk demo_env = replicate 32 5" "iterates (ping_iter demo_env)" "\<not> panicked demo_session"
    by (auto simp: session_start_def demo_session_def demo_env_def new_host_def iterates_rev intro!: exI [of _ "replicate 8 7"])
  have p: "\<not> panicked (run_turns demo_env demo_audio_env (replicate 4 ?in) demo_session)"
    using d join_not_fatal [OF j] by (simp add: run_turns_panicked [OF st(5)])
  have "4 \<le> joins_received demo_env (replicate 4 ?in)" using d j by (simp add: joins_received_def numeral_eq_Suc)
  from four_joins_lock_host [OF st p this j] w show ?thesis by (simp add: Let_def)
qed

end
