(* ===== verification/Mesh.thy ===== *)
theory Mesh
  imports Voice
begin

text \<open>
  The mesh of a session: a host and up to four joiners that join one after the other over a network that
  delivers. Each node's table is abstracted to a roster, the handlers are shown to be updates of it,
  and in the end every node is connected to every other one, and each hears each.
\<close>

section \<open>Rosters\<close>

text \<open>What a node knows of the others: their addresses and the states of the connections.\<close>

type_synonym roster = "u8 \<Rightarrow> (socket_addr \<times> peer_state) option"

definition roster_of :: "node \<Rightarrow> roster" where
  "roster_of nd j = map_option (\<lambda>p. (addr p, state p)) (get_peer j (peer_mgr nd))"

text \<open>A node that is in a session as number \<open>i\<close>, that has talked to nobody yet, with the roster \<open>R\<close>.\<close>

definition member :: "bytes \<Rightarrow> bytes \<Rightarrow> u8 \<Rightarrow> roster \<Rightarrow> node \<Rightarrow> bool" where
  "member key sid i R nd \<longleftrightarrow>
     local_id (peer_mgr nd) = i \<and> session_id (peer_mgr nd) = sid \<and> crypto_ctx nd = crypto_context_new key sid \<and>
     roster_of nd = R \<and> distinct (map fst (peers (peer_mgr nd))) \<and>
     (\<forall>(j, p) \<in> set (peers (peer_mgr nd)). rp_id p = j \<and> untouched p)"

text \<open>What no handler but that of a JOIN changes.\<close>

definition same_host :: "node \<Rightarrow> node \<Rightarrow> bool" where
  "same_host nd nd' \<longleftrightarrow> is_host (peer_mgr nd') = is_host (peer_mgr nd) \<and> next_peer_id (peer_mgr nd') = next_peer_id (peer_mgr nd)"

lemma member_outbox [simp]: "member key sid i R (nd\<lparr>outbox := ob\<rparr>) = member key sid i R nd"
  by (simp add: member_def roster_of_def fun_eq_iff)

lemma dom_roster: "dom (roster_of nd) = fst ` set (peers (peer_mgr nd))"
proof -
  have "dom (roster_of nd) = dom (map_of (peers (peer_mgr nd)))" by (auto simp: roster_of_def get_peer_def)
  then show ?thesis by (simp add: dom_map_of_conv_image_fst)
qed

lemma member_length: "member key sid i R nd \<Longrightarrow> length (peers (peer_mgr nd)) = card (dom R)"
  using dom_roster [of nd] distinct_card [of "map fst (peers (peer_mgr nd))"] by (auto simp: member_def)

lemma member_peer:
  assumes "member key sid i R nd" "R j = Some (a, s)"
  obtains p where "get_peer j (peer_mgr nd) = Some p" "addr p = a" "state p = s" "rp_id p = j" "untouched p"
proof -
  obtain p where p: "get_peer j (peer_mgr nd) = Some p" "addr p = a" "state p = s"
    using assms by (auto simp: member_def roster_of_def)
  then have "(j, p) \<in> set (peers (peer_mgr nd))" by (simp add: get_peer_def map_of_SomeD)
  with assms(1) p that show ?thesis by (auto simp: member_def)
qed

lemma member_unknown: "member key sid i R nd \<Longrightarrow> get_peer j (peer_mgr nd) = None \<longleftrightarrow> R j = None"
  by (auto simp: member_def roster_of_def)

lemma member_set:
  assumes "member key sid i R nd"
  shows "(\<lambda>p. (rp_id p, addr p)) ` snd ` set (peers (peer_mgr nd)) = {(j, a) | j a s. R j = Some (a, s)}"
proof -
  have k: "(j, p) \<in> set (peers (peer_mgr nd)) \<longleftrightarrow> get_peer j (peer_mgr nd) = Some p" for j p
    using assms by (simp add: member_def get_peer_def)
  have r: "rp_id p = j" if "get_peer j (peer_mgr nd) = Some p" for j p
    using assms that unfolding k [symmetric] member_def by blast
  have "(\<lambda>p. (rp_id p, addr p)) ` snd ` set (peers (peer_mgr nd)) = (\<lambda>(j, p). (j, addr p)) ` set (peers (peer_mgr nd))"
    unfolding image_image using r by (intro image_cong refl) (auto simp: k split_beta)
  moreover have "(j, a) \<in> (\<lambda>(j, p). (j, addr p)) ` set (peers (peer_mgr nd)) \<longleftrightarrow> (\<exists>s. R j = Some (a, s))" for j a
  proof -
    have "(j, a) \<in> (\<lambda>(j, p). (j, addr p)) ` set (peers (peer_mgr nd)) \<longleftrightarrow> (\<exists>p. get_peer j (peer_mgr nd) = Some p \<and> a = addr p)"
      by (auto simp flip: k intro: rev_image_eqI)
    moreover have "R j = map_option (\<lambda>p. (addr p, state p)) (get_peer j (peer_mgr nd))"
      using assms by (auto simp: member_def roster_of_def)
    ultimately show ?thesis by auto
  qed
  then have "x \<in> (\<lambda>(j, p). (j, addr p)) ` set (peers (peer_mgr nd)) \<longleftrightarrow> x \<in> {(j, a) | j a s. R j = Some (a, s)}" for x
    by (cases x) (simp del: image_iff)
  then have "(\<lambda>(j, p). (j, addr p)) ` set (peers (peer_mgr nd)) = {(j, a) | j a s. R j = Some (a, s)}" by (rule set_eqI)
  ultimately show ?thesis by (rule trans)
qed

lemma map_entry_fst: "map fst (AList.map_entry k f xs) = map fst xs"
  by (induction xs) auto

text \<open>Changing the state of a connection, and learning a peer.\<close>

lemma member_state:
  assumes "member key sid i R nd" "R j = Some (a, s')" "\<And>p. addr (f p) = addr p \<and> state (f p) = s \<and> rp_id (f p) = rp_id p \<and> untouched (f p) = untouched p"
  shows "member key sid i (R(j \<mapsto> (a, s))) (upd_node_peer j f nd)" "same_host nd (upd_node_peer j f nd)"
    "outbox (upd_node_peer j f nd) = outbox nd"
proof -
  obtain p where p: "get_peer j (peer_mgr nd) = Some p" "addr p = a" by (rule member_peer [OF assms(1,2)])
  have "roster_of (upd_node_peer j f nd) = (roster_of nd)(j \<mapsto> (a, s))"
    using p assms(3) by (auto simp: roster_of_def get_upd_node_peer fun_eq_iff)
  moreover have "rp_id q = k \<and> untouched q" if q: "(k, q) \<in> set (AList.map_entry j f (peers (peer_mgr nd)))" for k q
  proof -
    have m: "(k, q') \<in> set (peers (peer_mgr nd)) \<Longrightarrow> rp_id q' = k \<and> untouched q'" for q'
      using assms(1) by (auto simp: member_def)
    from set_map_entry_cases [OF q] show ?thesis
    proof
      assume "(k, q) \<in> set (peers (peer_mgr nd))"
      then show ?thesis by (rule m)
    next
      assume "k = j \<and> (\<exists>q'. (j, q') \<in> set (peers (peer_mgr nd)) \<and> q = f q')"
      then show ?thesis using m assms(3) by auto
    qed
  qed
  moreover have "local_id (peer_mgr (upd_node_peer j f nd)) = local_id (peer_mgr nd)"
    "session_id (peer_mgr (upd_node_peer j f nd)) = session_id (peer_mgr nd)"
    "peers (peer_mgr (upd_node_peer j f nd)) = AList.map_entry j f (peers (peer_mgr nd))"
    by (simp_all add: upd_node_peer_def upd_peer_def)
  ultimately show "member key sid i (R(j \<mapsto> (a, s))) (upd_node_peer j f nd)"
    using assms(1) by (simp add: member_def map_entry_fst) blast
  show "same_host nd (upd_node_peer j f nd)" "outbox (upd_node_peer j f nd) = outbox nd"
    by (simp_all add: same_host_def upd_node_peer_def upd_peer_def)
qed

lemma member_add:
  assumes "env_ok E" "member key sid i R nd" "R j = None" "j \<noteq> i" "card (dom R) < 4"
  obtains nd' where "node_add_peer E j a nd = (Ok (), nd')" "member key sid i (R(j \<mapsto> (a, Discovered))) nd'" "same_host nd nd'"
    "outbox nd' = outbox nd"
proof -
  obtain p where p: "remote_peer_new (opus_lib E) (clock E) j a = Ok p" "rp_id p = j" "addr p = a" "state p = Discovered" "untouched p"
    by (rule env_ok_new_peer [OF assms(1)])
  have g: "get_peer j (peer_mgr nd) = None" using assms(2,3) by (simp add: member_unknown)
  have n: "map_of ps j = None \<Longrightarrow> AList.update j p ps = ps @ [(j, p)]" for ps by (induction ps) auto
  have j: "j \<notin> fst ` set (peers (peer_mgr nd))" using assms(2,3) by (auto simp: member_def simp flip: dom_roster)
  let ?nd = "nd\<lparr>peer_mgr := (peer_mgr nd)\<lparr>peers := peers (peer_mgr nd) @ [(j, p)], addr_to_id := (addr_to_id (peer_mgr nd))(a \<mapsto> j)\<rparr>\<rparr>"
  have "node_add_peer E j a nd = (Ok (), ?nd)"
    using assms(2,4,5) p(1) g member_length [OF assms(2)] n [of "peers (peer_mgr nd)"]
    by (simp add: node_add_peer_def add_peer_def MAX_PEERS_def member_def get_peer_def)
  moreover have "roster_of ?nd = (roster_of nd)(j \<mapsto> (a, Discovered))"
    using p(3,4) g by (auto simp: roster_of_def get_peer_def fun_eq_iff map_add_def split: option.splits)
  then have "member key sid i (R(j \<mapsto> (a, Discovered))) ?nd"
    using assms(2) p(2,5) j by (auto simp: member_def)
  ultimately show ?thesis by (rule that) (simp_all add: same_host_def)
qed

section \<open>The handlers on rosters\<close>

text \<open>A HELLO connects its sender, known before or not, and is acknowledged.\<close>

lemma hello_welcomes:
  assumes "env_ok E" "prims E' = prims E" "psk E = key" "member key sid i R nd" "k \<noteq> i"
    and "R k = None \<and> card (dom R) < 4 \<or> (\<exists>s. R k = Some (a, s))"
    and "encrypt (prims E') (crypto_context_new key sid) (header_to_bytes (packet_header_new PKT_HELLO k 0 0)) [] k 0 0 = Ok c"
  obtains c' nd' where
    "encrypt (prims E) (crypto_context_new key sid) (header_to_bytes (packet_header_new PKT_HELLO_ACK i 0 0)) [] i 0 0 = Ok c'"
    "handle_incoming E (header_to_bytes (packet_header_new PKT_HELLO k 0 0) @ c) a nd = (Ok (), nd')"
    "member key sid i (R(k \<mapsto> (a, Connected))) nd'" "same_host nd nd'"
    "last_sent nd' = header_to_bytes (packet_header_new PKT_HELLO_ACK i 0 0) @ c'"
proof -
  let ?h = "packet_header_new PKT_HELLO k 0 0" and ?con = "\<lambda>p. touch (clock E) (p\<lparr>state := Connected\<rparr>)"
  have m: "local_id (peer_mgr nd) = i" "session_id (peer_mgr nd) = sid" using assms(4) by (simp_all add: member_def)
  obtain nd1 s where n1: "(if get_peer k (peer_mgr nd) = None then node_add_peer E k a nd else (Ok (), nd)) = (Ok (), nd1)"
    "member key sid i (R(k \<mapsto> (a, s))) nd1" "same_host nd nd1"
  proof (cases "R k")
    case None
    with assms(6) have "card (dom R) < 4" by simp
    then obtain nd1 where "node_add_peer E k a nd = (Ok (), nd1)" "member key sid i (R(k \<mapsto> (a, Discovered))) nd1" "same_host nd nd1"
      by (rule member_add [OF assms(1,4) None assms(5), of a])
    with None member_unknown [OF assms(4), of k] show ?thesis by (intro that) simp_all
  next
    case (Some as)
    with assms(6) obtain s where "R k = Some (a, s)" by auto
    moreover from this have "R(k \<mapsto> (a, s)) = R" by auto
    ultimately show ?thesis
      using that [of nd s] assms(4) member_unknown [OF assms(4), of k] by (simp add: same_host_def)
  qed
  define nd2 where "nd2 = upd_node_peer k ?con nd1"
  have "R(k \<mapsto> (a, s), k \<mapsto> (a, Connected)) = R(k \<mapsto> (a, Connected))" by simp
  then have n2: "member key sid i (R(k \<mapsto> (a, Connected))) nd2" "same_host nd1 nd2"
    using member_state [OF n1(2), of k a s ?con Connected] by (simp_all add: nd2_def touch_def untouched_def)
  obtain c' where c': "seal E (crypto_context_new key sid) PKT_HELLO_ACK i 0 0 [] =
      Ok (header_to_bytes (packet_header_new PKT_HELLO_ACK i 0 0) @ c')"
    "encrypt (prims E) (crypto_context_new key sid) (header_to_bytes (packet_header_new PKT_HELLO_ACK i 0 0)) [] i 0 0 = Ok c'"
    by (rule env_ok_seal [OF assms(1)])
  have o: "open_packet E (crypto_context_new key sid) (header_to_bytes ?h) c ?h = Ok []"
    using assms by (intro env_ok_open [where E' = E']) simp_all
  have h: "peer_id ?h = k" "pkt_type ?h = PKT_HELLO" by (simp_all add: packet_header_new_def)
  have m2: "local_id (peer_mgr nd2) = i" "session_id (peer_mgr nd2) = sid" using n2(1) by (simp_all add: member_def)
  have "handle_hello E (header_to_bytes ?h) c ?h a nd =
      (Ok (), nd2\<lparr>outbox := outbox nd2 @ [(header_to_bytes (packet_header_new PKT_HELLO_ACK i 0 0) @ c', a)]\<rparr>)"
    unfolding handle_hello_def assms(3) m(2) o Let_def attempt.simps h n1(1) attempt_st.simps nd2_def [symmetric] m2 c'(1)
    using assms(1) by simp
  then have "handle_incoming E (header_to_bytes ?h @ c) a nd =
      (Ok (), nd2\<lparr>outbox := outbox nd2 @ [(header_to_bytes (packet_header_new PKT_HELLO_ACK i 0 0) @ c', a)]\<rparr>)"
    unfolding handle_incoming_wire Let_def h by (simp add: pkt_defs)
  from that [OF c'(2) this] n1(3) n2 show ?thesis by (simp add: last_sent_def same_host_def)
qed

text \<open>An acknowledgement connects its sender.\<close>

lemma ack_welcomes:
  assumes "env_ok E" "prims E' = prims E" "psk E = key" "member key sid k R nd" "R i = Some (a, s)"
    and "encrypt (prims E') (crypto_context_new key sid) (header_to_bytes (packet_header_new PKT_HELLO_ACK i 0 0)) [] i 0 0 = Ok c"
  obtains nd' where "handle_incoming E (header_to_bytes (packet_header_new PKT_HELLO_ACK i 0 0) @ c) src nd = (Ok (), nd')"
    "member key sid k (R(i \<mapsto> (a, Connected))) nd'"
proof -
  have "session_id (peer_mgr nd) = sid" using assms(4) by (simp add: member_def)
  then show ?thesis
    using hello_ack_connects [OF assms(1-3), of nd i c src] assms(6)
      member_state(1) [OF assms(4,5), of "\<lambda>p. touch (clock E) (p\<lparr>state := Connected\<rparr>)" Connected] that
    by (simp add: touch_def untouched_def)
qed

text \<open>Greeting the entries of a PEER_LIST, under the addresses they are reached at.\<close>

definition targets :: "u8 \<Rightarrow> u8 \<Rightarrow> socket_addr \<Rightarrow> (u8 \<times> socket_addr) list \<Rightarrow> (u8 \<times> socket_addr) list" where
  "targets k sender src es = map (\<lambda>(j, a). (j, if j = sender then src else a)) (filter (\<lambda>e. fst e \<noteq> k) es)"

definition greeted :: "(u8 \<times> socket_addr) list \<Rightarrow> roster" where
  "greeted ts j = map_option (\<lambda>a. (a, HelloSent)) (map_of ts j)"

lemma greet_peers_members:
  assumes "env_ok E" "psk E = key" "member key sid k R nd"
    and "distinct (map fst es)" "\<forall>e \<in> set es. R (fst e) = None" "card (dom R) + length (targets k sender src es) \<le> 4"
    and "seal E (crypto_context_new key sid) PKT_HELLO k 0 0 [] = Ok w"
  shows "\<exists>nd'. greet_peers E k sid sender src es nd = (Ok (), nd') \<and> member key sid k (R ++ greeted (targets k sender src es)) nd' \<and>
    outbox nd' = outbox nd @ map (\<lambda>t. (w, snd t)) (targets k sender src es)"
  using assms(3-6)
proof (induction es arbitrary: R nd)
  case Nil
  have "R ++ greeted [] = R" by (simp add: greeted_def map_add_def fun_eq_iff)
  with Nil show ?case by (simp add: targets_def)
next
  case (Cons e es)
  obtain j a where e: "e = (j, a)" by fastforce
  show ?case
  proof (cases "j = k")
    case True
    then have "targets k sender src (e # es) = targets k sender src es" by (simp add: targets_def e)
    with Cons True show ?thesis by (simp add: e)
  next
    case False
    define b where "b = (if j = sender then src else a)"
    have t: "targets k sender src (e # es) = (j, b) # targets k sender src es" using False by (simp add: targets_def e b_def)
    have R: "R j = None" "card (dom R) < 4" using Cons.prems(3,4) t by (simp_all add: e)
    have fin: "finite (dom R)" by simp
    obtain nd1 where n1: "node_add_peer E j b nd = (Ok (), nd1)" "member key sid k (R(j \<mapsto> (b, Discovered))) nd1"
      "outbox nd1 = outbox nd" by (rule member_add [OF assms(1) Cons.prems(1) R(1) False R(2), of b])
    let ?nd2 = "upd_node_peer j (\<lambda>p. p\<lparr>state := HelloSent\<rparr>) (nd1\<lparr>outbox := outbox nd1 @ [(w, b)]\<rparr>)"
    have n2: "member key sid k (R(j \<mapsto> (b, HelloSent))) ?nd2" "outbox ?nd2 = outbox nd @ [(w, b)]"
      using member_state [of key sid k "R(j \<mapsto> (b, Discovered))" "nd1\<lparr>outbox := outbox nd1 @ [(w, b)]\<rparr>" j b Discovered
          "\<lambda>p. p\<lparr>state := HelloSent\<rparr>" HelloSent] n1(2,3) by simp_all
    have "\<forall>e \<in> set es. (R(j \<mapsto> (b, HelloSent))) (fst e) = None" using Cons.prems(2,3) by (auto simp: e)
    moreover have "card (dom (R(j \<mapsto> (b, HelloSent)))) + length (targets k sender src es) \<le> 4"
      using Cons.prems(4) t R(1) fin by (simp add: card_insert_if domIff)
    moreover have "distinct (map fst es)" using Cons.prems(2) by (simp add: e)
    ultimately obtain nd' where n': "greet_peers E k sid sender src es ?nd2 = (Ok (), nd')"
      "member key sid k (R(j \<mapsto> (b, HelloSent)) ++ greeted (targets k sender src es)) nd'"
      "outbox nd' = outbox ?nd2 @ map (\<lambda>t. (w, snd t)) (targets k sender src es)"
      using Cons.IH [OF n2(1)] by blast
    have "greet_peers E k sid sender src (e # es) nd = (Ok (), nd')"
      using False assms(1,2,7) n1(1) n'(1) by (simp add: e Let_def flip: b_def)
    moreover have "map_of (targets k sender src es) j = None"
      using Cons.prems(2) by (force simp: e targets_def map_of_eq_None_iff)
    then have "R(j \<mapsto> (b, HelloSent)) ++ greeted (targets k sender src es) = R ++ greeted (targets k sender src (e # es))"
      by (auto simp: t greeted_def map_add_def fun_eq_iff split: option.splits)
    ultimately show ?thesis using n'(2,3) n2(2) t by simp
  qed
qed

text \<open>A JOIN at a host with room: the joiner gets the next id, is connected, and is sent the roster with the
  host's own address in front.\<close>

lemma iterated_entries:
  assumes "member key sid i R nd" "iterates it"
  shows "set (map (\<lambda>p. (rp_id p, addr p)) (map snd (it (peers (peer_mgr nd))))) = {(j, a) | j a s. R j = Some (a, s)}"
    "distinct (map fst (map (\<lambda>p. (rp_id p, addr p)) (map snd (it (peers (peer_mgr nd))))))"
proof -
  let ?ps = "peers (peer_mgr nd)"
  have s: "set (it ?ps) = set ?ps" "length (it ?ps) = length ?ps"
    using assms(2) by (simp_all add: iterates_def)
  show "set (map (\<lambda>p. (rp_id p, addr p)) (map snd (it ?ps))) = {(j, a) | j a s. R j = Some (a, s)}"
    using member_set [OF assms(1)] by (simp add: s(1) image_image)
  have d: "distinct (map fst ?ps)" using assms(1) by (simp add: member_def)
  then have "card (set (it ?ps)) = length (it ?ps)" by (simp add: s distinct_card distinct_map)
  then have "distinct (map fst (it ?ps))" using d by (simp add: distinct_map s card_distinct)
  moreover have "\<forall>x \<in> set ?ps. rp_id (snd x) = fst x" using assms(1) by (auto simp: member_def)
  then have "map fst (map (\<lambda>p. (rp_id p, addr p)) (map snd (it ?ps))) = map fst (it ?ps)" by (simp add: s(1))
  ultimately show "distinct (map fst (map (\<lambda>p. (rp_id p, addr p)) (map snd (it ?ps))))" by (simp only:)
qed

lemma host_admits:
  assumes "env_ok E" "psk E = key" "local_address E = Some hA" "\<not> is_unspecified (addr_ip hA)" "iterates (peer_iter E)"
    and "member key sid 0 R nd" "is_host (peer_mgr nd)" "next_peer_id (peer_mgr nd) = k" "unat k < 5" "k \<noteq> 0"
    and "R k = None" "card (dom R) < 4" "prims E' = prims E"
    and "encrypt (prims E') (crypto_context_new key ZERO_SESSION) (header_to_bytes (packet_header_new PKT_JOIN 0 0 0)) (join_to_bytes j) 0 0 0 = Ok c"
  obtains es c' nd' where
    "handle_incoming E (header_to_bytes (packet_header_new PKT_JOIN 0 0 0) @ c) a nd = (Ok (), nd')"
    "member key sid 0 (R(k \<mapsto> (a, Connected))) nd'" "is_host (peer_mgr nd')" "next_peer_id (peer_mgr nd') = k + 1"
    "last_sent nd' = header_to_bytes (packet_header_new PKT_PEER_LIST 0 0 0) @ c'"
    "encrypt (prims E) (crypto_context_new key ZERO_SESSION) (header_to_bytes (packet_header_new PKT_PEER_LIST 0 0 0))
       (peer_list_to_bytes \<lparr>pl_session_id = sid, pl_peers = (0, hA) # es\<rparr>) 0 0 0 = Ok c'"
    "set es = {(j, b) | j b s. (R(k \<mapsto> (a, Connected))) j = Some (b, s)}" "distinct (map fst es)"
proof -
  let ?h = "packet_header_new PKT_JOIN 0 0 0" and ?ctx = "crypto_context_new key ZERO_SESSION"
    and ?con = "\<lambda>p. touch (clock E) (p\<lparr>state := Connected\<rparr>)"
  define nd0 where "nd0 = nd\<lparr>peer_mgr := (peer_mgr nd)\<lparr>next_peer_id := k + 1\<rparr>\<rparr>"
  have al: "allocate_peer_id (peer_mgr nd) = (Ok k, (peer_mgr nd)\<lparr>next_peer_id := k + 1\<rparr>)"
    using assms(7-9) by (simp add: allocate_peer_id_def MAX_PEERS_def)
  have n0: "member key sid 0 R nd0" using assms(6) by (simp add: nd0_def member_def roster_of_def get_peer_def fun_eq_iff)
  obtain nd1 where n1: "node_add_peer E k a nd0 = (Ok (), nd1)" "member key sid 0 (R(k \<mapsto> (a, Discovered))) nd1" "same_host nd0 nd1"
    by (rule member_add [OF assms(1) n0 assms(11,10,12), of a])
  define nd2 where "nd2 = upd_node_peer k ?con nd1"
  have n2: "member key sid 0 (R(k \<mapsto> (a, Connected))) nd2" "same_host nd1 nd2"
    using member_state [OF n1(2), of k a Discovered ?con Connected] by (simp_all add: nd2_def touch_def untouched_def)
  define es where "es = map (\<lambda>p. (rp_id p, addr p)) (map snd (peer_iter E (peers (peer_mgr nd2))))"
  let ?pl = "\<lparr>pl_session_id = sid, pl_peers = (0, hA) # es\<rparr>"
  have m2: "local_id (peer_mgr nd2) = 0" "session_id (peer_mgr nd2) = sid" using n2(1) by (simp_all add: member_def)
  have pl: "build_peer_list (peer_iter E) hA (peer_mgr nd2) = ?pl" by (simp add: build_peer_list_def m2 es_def)
  obtain c' where c': "seal E ?ctx PKT_PEER_LIST 0 0 0 (peer_list_to_bytes ?pl) = Ok (header_to_bytes (packet_header_new PKT_PEER_LIST 0 0 0) @ c')"
    "encrypt (prims E) ?ctx (header_to_bytes (packet_header_new PKT_PEER_LIST 0 0 0)) (peer_list_to_bytes ?pl) 0 0 0 = Ok c'"
    by (rule env_ok_seal [OF assms(1)])
  have o: "open_packet E ?ctx (header_to_bytes ?h) c ?h = Ok (join_to_bytes j)"
    using assms by (intro env_ok_open [where E' = E']) simp_all
  have w: "join_from_bytes (join_to_bytes j) = Ok j" using join_wire.roundtrip by simp
  have h: "pkt_type ?h = PKT_JOIN" by (simp add: packet_header_new_def)
  let ?nd' = "nd2\<lparr>outbox := outbox nd2 @ [(header_to_bytes (packet_header_new PKT_PEER_LIST 0 0 0) @ c', a)]\<rparr>"
  have "handle_join E (header_to_bytes ?h) c ?h a nd = (Ok (), ?nd')"
    unfolding handle_join_def Let_def assms(2) o attempt.simps w al prod.case nd0_def [symmetric] attempt_st.simps n1(1)
      nd2_def [symmetric] assms(3) ok_or_simps m2(1) if_not_P [OF assms(4)] pl c'(1)
    using assms(1,7) by simp
  then have "handle_incoming E (header_to_bytes ?h @ c) a nd = (Ok (), ?nd')"
    unfolding handle_incoming_wire Let_def h by (simp add: pkt_defs)
  then show ?thesis
    using iterated_entries [OF n2(1) assms(5), folded es_def] n1(3) n2 c'(2) assms(7)
    by (intro that [of ?nd' c' es]) (simp_all add: same_host_def nd0_def last_sent_def)
qed

text \<open>The joiner's answer: it takes the highest id and greets everybody else.\<close>

lemma max_id_Some: "k \<in> set xs \<Longrightarrow> (\<And>x. x \<in> set xs \<Longrightarrow> x \<le> k) \<Longrightarrow> max_id xs = Some k"
proof (cases xs)
  case (Cons y ys)
  assume "k \<in> set xs" "\<And>x. x \<in> set xs \<Longrightarrow> x \<le> k"
  then have "Max (set xs) = k" by (intro Max_eqI) auto
  then show ?thesis using Max.set_eq_fold [of y ys] by (simp add: max_id_def Cons)
qed simp

lemma joiner_greets:
  assumes "env_ok E" "psk E = key" "prims E' = prims E" "length sid = 8"
    and "list_all (\<lambda>(_, a). wire_addr a) es" "length es < 256" "distinct (map fst es)"
    and "k \<in> fst ` set es" "\<forall>e \<in> set es. fst e \<le> k" "length (targets k 0 aH es) \<le> 4"
    and "encrypt (prims E') (crypto_context_new key ZERO_SESSION) (header_to_bytes (packet_header_new PKT_PEER_LIST 0 0 0))
       (peer_list_to_bytes \<lparr>pl_session_id = sid, pl_peers = es\<rparr>) 0 0 0 = Ok c"
  obtains c' nd' where
    "handle_incoming E (header_to_bytes (packet_header_new PKT_PEER_LIST 0 0 0) @ c) aH ((fresh_joiner key)\<lparr>outbox := ob\<rparr>) = (Ok (), nd')"
    "member key sid k (greeted (targets k 0 aH es)) nd'"
    "outbox nd' = ob @ map (\<lambda>t. (header_to_bytes (packet_header_new PKT_HELLO k 0 0) @ c', snd t)) (targets k 0 aH es)"
    "encrypt (prims E) (crypto_context_new key sid) (header_to_bytes (packet_header_new PKT_HELLO k 0 0)) [] k 0 0 = Ok c'"
proof -
  let ?h = "packet_header_new PKT_PEER_LIST 0 0 0" and ?pl = "\<lparr>pl_session_id = sid, pl_peers = es\<rparr>"
    and ?nd = "(fresh_joiner key)\<lparr>outbox := ob\<rparr>"
  define nd1 where "nd1 = ?nd\<lparr>peer_mgr := set_identity k sid (peer_mgr ?nd), crypto_ctx := crypto_context_new key sid\<rparr>"
  have n1: "member key sid k Map.empty nd1" "outbox nd1 = ob"
    by (simp_all add: nd1_def fresh_joiner_def member_def set_identity_def new_joiner_def roster_of_def get_peer_def fun_eq_iff)
  obtain c' where c': "seal E (crypto_context_new key sid) PKT_HELLO k 0 0 [] = Ok (header_to_bytes (packet_header_new PKT_HELLO k 0 0) @ c')"
    "encrypt (prims E) (crypto_context_new key sid) (header_to_bytes (packet_header_new PKT_HELLO k 0 0)) [] k 0 0 = Ok c'"
    by (rule env_ok_seal [OF assms(1)])
  obtain nd' where g: "greet_peers E k sid 0 aH es nd1 = (Ok (), nd')" "member key sid k (Map.empty ++ greeted (targets k 0 aH es)) nd'"
    "outbox nd' = ob @ map (\<lambda>t. (header_to_bytes (packet_header_new PKT_HELLO k 0 0) @ c', snd t)) (targets k 0 aH es)"
    using greet_peers_members [OF assms(1,2) n1(1) assms(7) _ _ c'(1), of 0 aH] assms(10) n1(2) by auto
  have o: "open_packet E (crypto_context_new key ZERO_SESSION) (header_to_bytes ?h) c ?h = Ok (peer_list_to_bytes ?pl)"
    using assms by (intro env_ok_open [where E' = E']) simp_all
  have w: "peer_list_from_bytes (peer_list_to_bytes ?pl) = Ok ?pl"
    using assms(4-6) by (intro peer_list_wire.roundtrip) (simp add: wire_peer_list_def)
  have m: "max_id (map fst es) = Some k" using assms(8,9) by (intro max_id_Some) auto
  have h: "pkt_type ?h = PKT_PEER_LIST" "peer_id ?h = 0" by (simp_all add: packet_header_new_def)
  have "handle_peer_list E (header_to_bytes ?h) c ?h aH ?nd = (Ok (), nd')"
    unfolding handle_peer_list_def assms(2) o attempt.simps w peer_list_payload.select_convs m ok_or_simps Let_def nd1_def [symmetric] h g(1) ..
  then have "handle_incoming E (header_to_bytes ?h @ c) aH ?nd = (Ok (), nd')"
    unfolding handle_incoming_wire Let_def h by (simp add: pkt_defs)
  with that [OF _ _ g(3) c'(2)] g(2) show ?thesis by simp
qed

section \<open>A joiner enters the mesh\<close>

text \<open>A participant: its environment, the address it is reached at, and its node.\<close>

type_synonym participant = "env \<times> socket_addr \<times> node"

text \<open>A HELLO of the joiner is delivered to whom it is addressed to, and the acknowledgement back.\<close>

fun deliver_hello :: "env \<Rightarrow> socket_addr \<Rightarrow> bytes \<times> socket_addr \<Rightarrow> node \<times> participant list \<Rightarrow> node \<times> participant list" where
  "deliver_hello EJ aJ wa (nJ, []) = (nJ, [])"
| "deliver_hello EJ aJ wa (nJ, (E, a, n) # ps) =
     (if a = snd wa
      then let n' = snd (handle_incoming E (fst wa) aJ n) in (snd (handle_incoming EJ (last_sent n') a nJ), (E, a, n') # ps)
      else apsnd (Cons (E, a, n)) (deliver_hello EJ aJ wa (nJ, ps)))"

text \<open>The first participant is the host: it is sent the JOIN, and its PEER_LIST makes the joiner send a
  HELLO to each participant.\<close>

definition join_mesh :: "u16 \<Rightarrow> participant \<Rightarrow> participant list \<Rightarrow> participant list" where
  "join_mesh port J ps =
     (case (J, hd ps) of ((EJ, aJ, nJ), (EH, aH, nH)) \<Rightarrow>
        let nJ1 = snd (send_join EJ port aH nJ);
            nH1 = snd (handle_incoming EH (last_sent nJ1) aJ nH);
            nJ2 = snd (handle_incoming EJ (last_sent nH1) aH nJ1)
        in case foldl (\<lambda>s wa. deliver_hello EJ aJ wa s) (nJ2, (EH, aH, nH1) # tl ps) (drop (length (outbox nJ1)) (outbox nJ2)) of
             (nJ3, ps') \<Rightarrow> ps' @ [(EJ, aJ, nJ3)])"

definition node_at :: "participant list \<Rightarrow> u8 \<Rightarrow> node" where
  "node_at ps i = snd (snd (ps ! unat i))"

text \<open>Number \<open>i\<close> of \<open>n\<close> participants at the addresses \<open>A\<close> is connected to all the others.\<close>

definition row :: "nat \<Rightarrow> (u8 \<Rightarrow> socket_addr) \<Rightarrow> u8 \<Rightarrow> roster" where
  "row n A i j = (if unat j < n \<and> j \<noteq> i then Some (A j, Connected) else None)"

definition mesh :: "bytes \<Rightarrow> bytes \<Rightarrow> (u8 \<Rightarrow> socket_addr) \<Rightarrow> participant list \<Rightarrow> bool" where
  "mesh key sid A ps \<longleftrightarrow>
     (\<forall>i. unat i < length ps \<longrightarrow> member key sid i (row (length ps) A i) (node_at ps i)) \<and>
     is_host (peer_mgr (node_at ps 0)) \<and> next_peer_id (peer_mgr (node_at ps 0)) = of_nat (length ps)"

lemma unat_eq_iff: "unat x = unat y \<longleftrightarrow> x = y"
  by (simp add: word_unat_eq_iff)

lemma row_card: "unat i < n \<Longrightarrow> card (dom (row n A i)) < n"
proof -
  assume i: "unat i < n"
  have "unat ` dom (row n A i) \<subseteq> {..<n} - {unat i}" by (auto simp: row_def unat_eq_iff split: if_splits)
  then have "card (unat ` dom (row n A i)) \<le> card ({..<n} - {unat i})" by (intro card_mono) auto
  also have "\<dots> = n - 1" using i by simp
  finally show ?thesis using i card_image [of unat "dom (row n A i)"] by (simp add: inj_on_def unat_eq_iff)
qed

lemma row_Suc: "unat k = n \<Longrightarrow> i \<noteq> k \<Longrightarrow> row (Suc n) A i = (row n A i)(k \<mapsto> (A k, Connected))"
  by (auto simp: row_def fun_eq_iff less_Suc_eq unat_eq_iff)

text \<open>In the middle of a join as number \<open>k\<close>: the participants in \<open>D\<close> have been greeted.\<close>

definition midway :: "bytes \<Rightarrow> bytes \<Rightarrow> (u8 \<Rightarrow> socket_addr) \<Rightarrow> u8 \<Rightarrow> u8 set \<Rightarrow> node \<times> participant list \<Rightarrow> bool" where
  "midway key sid A k D s \<longleftrightarrow> (case s of (nJ, ps) \<Rightarrow>
     length ps = unat k \<and>
     member key sid k (\<lambda>j. if j < k then Some (A j, if j \<in> D then Connected else HelloSent) else None) nJ \<and>
     (\<forall>i < k. member key sid i (if i \<in> D \<or> i = 0 then row (Suc (unat k)) A i else row (unat k) A i) (node_at ps i)) \<and>
     is_host (peer_mgr (node_at ps 0)) \<and> next_peer_id (peer_mgr (node_at ps 0)) = k + 1)"

definition places :: "participant list \<Rightarrow> (env \<times> socket_addr) list" where
  "places ps = map (\<lambda>p. (fst p, fst (snd p))) ps"

lemma deliver_hello_at:
  assumes "distinct (map snd (places ps))" "i < length ps" "ps ! i = (E, a, n)"
  shows "deliver_hello EJ aJ (w, a) (nJ, ps) =
    (let n' = snd (handle_incoming E w aJ n) in (snd (handle_incoming EJ (last_sent n') a nJ), ps[i := (E, a, n')]))"
  using assms
proof (induction ps arbitrary: i)
  case (Cons x ps)
  obtain E' a' n0 where x: "x = (E', a', n0)" by (cases x)
  show ?case
  proof (cases i)
    case 0
    with Cons.prems(3) show ?thesis by (simp add: x)
  next
    case (Suc i')
    then have i': "i' < length ps" "ps ! i' = (E, a, n)" using Cons.prems by simp_all
    then have "a \<in> snd ` set (places ps)" by (force simp: places_def in_set_conv_nth)
    then have "a' \<noteq> a" using Cons.prems(1) by (force simp: places_def x)
    with Cons.IH [OF _ i'] Cons.prems(1) Suc show ?thesis by (simp add: places_def x Let_def)
  qed
qed simp

text \<open>What is asked of the participants: the same primitives and passphrase, working environments.\<close>

definition at_home :: "crypto_prims \<Rightarrow> bytes \<Rightarrow> env \<times> socket_addr \<Rightarrow> bool" where
  "at_home P key ea \<longleftrightarrow> env_ok (fst ea) \<and> prims (fst ea) = P \<and> psk (fst ea) = key \<and>
     iterates (peer_iter (fst ea)) \<and> wire_addr (snd ea)"

lemma node_at_update: "unat i < length ps \<Longrightarrow>
    node_at (ps[unat i := (E, a, n)]) j = (if j = i then n else node_at ps j)"
  by (auto simp: node_at_def nth_list_update unat_eq_iff)

lemma places_nth: "i < length ps \<Longrightarrow> places ps ! i = (fst (ps ! i), fst (snd (ps ! i)))"
  by (simp add: places_def)

lemma places_length [simp]: "length (places ps) = length ps"
  by (simp add: places_def)

lemma midway_step:
  assumes "midway key sid A k D (nJ, ps)" "j \<notin> D" "j < k" "unat k < 5"
    and "\<forall>ea \<in> set (places ps). at_home P key ea" "at_home P key (EJ, A k)" "distinct (map snd (places ps))"
    and "snd (places ps ! unat j) = A j"
    and "encrypt (prims EJ) (crypto_context_new key sid) (header_to_bytes (packet_header_new PKT_HELLO k 0 0)) [] k 0 0 = Ok c"
    and "s' = deliver_hello EJ (A k) (header_to_bytes (packet_header_new PKT_HELLO k 0 0) @ c, A j) (nJ, ps)"
  shows "midway key sid A k (insert j D) s' \<and> places (snd s') = places ps"
proof -
  have l: "length ps = unat k" and J: "member key sid k (\<lambda>j. if j < k then Some (A j, if j \<in> D then Connected else HelloSent) else None) nJ"
    and M: "\<And>i. i < k \<Longrightarrow> member key sid i (if i \<in> D \<or> i = 0 then row (Suc (unat k)) A i else row (unat k) A i) (node_at ps i)"
    and H: "is_host (peer_mgr (node_at ps 0))" "next_peer_id (peer_mgr (node_at ps 0)) = k + 1"
    using assms(1) by (simp_all add: midway_def)
  have j: "unat j < length ps" using assms(3) by (simp add: l word_less_nat_alt)
  then have "places ps ! unat j \<in> set (places ps)" by simp
  then have home: "at_home P key (places ps ! unat j)" using assms(5) by blast
  obtain E n where n: "ps ! unat j = (E, A j, n)" using assms(8) places_nth [OF j] by (cases "ps ! unat j") auto
  then have E: "env_ok E" "prims E = P" "psk E = key" using home by (simp_all add: places_nth [OF j] at_home_def)
  have EJ: "env_ok EJ" "prims EJ = P" "psk EJ = key" using assms(6) by (simp_all add: at_home_def)
  have PE: "prims EJ = prims E" by (simp add: EJ E)
  have nj: "node_at ps j = n" by (simp add: node_at_def n)
  have jk: "k \<noteq> j" "j \<noteq> k" using assms(3) by auto
  define R where "R = (if j = 0 then row (Suc (unat k)) A j else row (unat k) A j)"
  have R: "member key sid j R n" using M [OF assms(3)] assms(2) by (simp add: R_def nj)
  have c: "card (dom (row (unat k) A j)) < 4" using row_card [of j "unat k" A] j assms(4) l by simp
  have known: "R k = None \<and> card (dom R) < 4 \<or> (\<exists>s. R k = Some (A k, s))"
    using c jk by (auto simp: R_def row_def)
  have full: "R(k \<mapsto> (A k, Connected)) = row (Suc (unat k)) A j"
    using row_Suc [OF refl jk(2), of A] by (cases "j = 0") (simp_all add: R_def)
  obtain c' n' where n': "encrypt (prims E) (crypto_context_new key sid) (header_to_bytes (packet_header_new PKT_HELLO_ACK j 0 0)) [] j 0 0 = Ok c'"
    "handle_incoming E (header_to_bytes (packet_header_new PKT_HELLO k 0 0) @ c) (A k) n = (Ok (), n')"
    "member key sid j (row (Suc (unat k)) A j) n'" "same_host n n'"
    "last_sent n' = header_to_bytes (packet_header_new PKT_HELLO_ACK j 0 0) @ c'"
    by (rule hello_welcomes [OF E(1) PE E(3) R jk(1) known assms(9), unfolded full])
  let ?RJ = "\<lambda>D j. if j < k then Some (A j, if j \<in> D then Connected else HelloSent) else None"
  have RJ: "?RJ D j = Some (A j, HelloSent)" using assms(2,3) by simp
  obtain nJ' where nJ': "handle_incoming EJ (header_to_bytes (packet_header_new PKT_HELLO_ACK j 0 0) @ c') (A j) nJ = (Ok (), nJ')"
    "member key sid k ((?RJ D)(j \<mapsto> (A j, Connected))) nJ'"
    by (rule ack_welcomes [OF EJ(1) PE [symmetric] EJ(3) J RJ n'(1), where src = "A j"])
  have "(?RJ D)(j \<mapsto> (A j, Connected)) = ?RJ (insert j D)" using assms(3) by (auto simp: fun_eq_iff)
  then have J': "member key sid k (?RJ (insert j D)) nJ'" using nJ'(2) by simp
  have s': "s' = (nJ', ps[unat j := (E, A j, n')])"
    using n'(2,5) nJ'(1) by (simp add: assms(10) deliver_hello_at [OF assms(7) j n])
  have "places (ps[unat j := (E, A j, n')]) = places ps"
    using n j by (intro nth_equalityI) (auto simp: places_nth nth_list_update)
  moreover have "member key sid i (if i \<in> insert j D \<or> i = 0 then row (Suc (unat k)) A i else row (unat k) A i)
      (node_at (ps[unat j := (E, A j, n')]) i)" if "i < k" for i
    using M [OF that] n'(3) by (simp add: node_at_update [OF j])
  moreover have "same_host (node_at ps 0) (node_at (ps[unat j := (E, A j, n')]) 0)"
    using n'(4) nj node_at_update [OF j, of E "A j" n' 0] by (cases "j = 0") (simp_all add: same_host_def)
  ultimately show ?thesis using l J' H by (simp add: s' midway_def same_host_def)
qed

lemma midway_all:
  assumes "midway key sid A k D (nJ, ps)" "distinct js" "set js \<inter> D = {}" "\<forall>j \<in> set js. j < k" "unat k < 5"
    and "\<forall>ea \<in> set (places ps). at_home P key ea" "at_home P key (EJ, A k)" "distinct (map snd (places ps))"
    and "\<forall>j < k. snd (places ps ! unat j) = A j"
    and "encrypt (prims EJ) (crypto_context_new key sid) (header_to_bytes (packet_header_new PKT_HELLO k 0 0)) [] k 0 0 = Ok c"
    and "s' = foldl (\<lambda>s wa. deliver_hello EJ (A k) wa s) (nJ, ps) (map (\<lambda>j. (header_to_bytes (packet_header_new PKT_HELLO k 0 0) @ c, A j)) js)"
  shows "midway key sid A k (D \<union> set js) s' \<and> places (snd s') = places ps"
  using assms(1-4,6,8,9,11)
proof (induction js arbitrary: D nJ ps)
  case (Cons j js)
  let ?w = "header_to_bytes (packet_header_new PKT_HELLO k 0 0) @ c"
  obtain nJ1 ps1 where s1: "deliver_hello EJ (A k) (?w, A j) (nJ, ps) = (nJ1, ps1)" by fastforce
  have 1: "midway key sid A k (insert j D) (nJ1, ps1)" "places ps1 = places ps"
    using midway_step [OF Cons.prems(1) _ _ assms(5) Cons.prems(5) assms(7) Cons.prems(6) _ assms(10) s1 [symmetric]] Cons.prems(3,4,7)
    by auto
  have "midway key sid A k (insert j D \<union> set js) s' \<and> places (snd s') = places ps1"
    by (rule Cons.IH [OF 1(1)]) (use Cons.prems s1 in \<open>auto simp: 1(2)\<close>)
  then show ?case by (simp add: 1(2))
qed simp

text \<open>Whom the joiner greets: everybody below its own number.\<close>

lemma roster_targets:
  assumes "set es = {(j, b) | j b s. ((row (unat k) A 0)(k \<mapsto> (A k, Connected))) j = Some (b, s)}" "distinct (map fst es)"
    and "0 < k" "unat k < 5" "ts = targets k 0 (A 0) ((0, hA) # es)"
  shows "distinct (map fst ((0, hA) # es))" "length ((0, hA) # es) < 256" "k \<in> fst ` set ((0, hA) # es)"
    and "\<forall>e \<in> set ((0, hA) # es). fst e \<le> k" "\<forall>e \<in> set es. \<exists>j \<le> k. e = (j, A j)"
    and "ts = map (\<lambda>j. (j, A j)) (map fst ts)" "set (map fst ts) = {j. j < k}" "distinct (map fst ts)" "length ts \<le> 4"
proof -
  have "(j, b) \<in> set es \<longleftrightarrow> 0 < j \<and> j \<le> k \<and> b = A j" for j b
    using assms(3) by (auto simp: assms(1) row_def word_less_nat_alt word_le_nat_alt le_less unat_eq_iff unat_gt_0 split: if_splits)
  then have es: "set es = (\<lambda>j. (j, A j)) ` {j. 0 < j \<and> j \<le> k}" by (auto simp: image_iff)
  then have fe: "fst ` set es = {j. 0 < j \<and> j \<le> k}" by (simp add: image_image)
  then show d: "distinct (map fst ((0, hA) # es))" using assms(2) by auto
  show "k \<in> fst ` set ((0, hA) # es)" "\<forall>e \<in> set ((0, hA) # es). fst e \<le> k" "\<forall>e \<in> set es. \<exists>j \<le> k. e = (j, A j)"
    using assms(3) by (simp_all add: fe) (auto simp: es)
  have ts: "set ts = (\<lambda>j. (j, A j)) ` {j. j < k}"
    using assms(3) es by (auto simp: assms(5) targets_def image_iff le_less word_gt_0 split: if_splits)
  then show fts: "set (map fst ts) = {j. j < k}" and "ts = map (\<lambda>j. (j, A j)) (map fst ts)"
    by (auto simp: image_image intro!: map_idI [symmetric])
  have "map fst ts = filter (\<lambda>j. j \<noteq> k) (map fst ((0, hA) # es))"
    by (simp add: assms(5) targets_def filter_map comp_def split_beta)
  with d show dts: "distinct (map fst ts)" by simp
  have below: "card {j. j < k} \<le> unat k"
    using card_inj_on_le [of unat "{j. j < k}" "{..<unat k}"] by (auto simp: inj_on_def unat_eq_iff word_less_nat_alt)
  with fts show "length ts \<le> 4" using distinct_card [OF dts] assms(4) by simp
  have "fst ` set es \<subseteq> insert k {j. j < k}" by (auto simp: fe)
  then have "card (fst ` set es) \<le> card (insert k {j. j < k})" by (rule card_mono [rotated]) simp
  also have "\<dots> \<le> Suc (unat k)" using below by simp
  finally show "length ((0, hA) # es) < 256" using distinct_card [OF assms(2)] assms(4) by simp
qed

text \<open>Before the first greeting, and after the last.\<close>

lemma midway_start:
  assumes "mesh key sid A ((EH, aH, nH) # rest)" "Suc (length rest) = unat k"
    and "member key sid 0 ((row (unat k) A 0)(k \<mapsto> (A k, Connected))) nH'" "is_host (peer_mgr nH')" "next_peer_id (peer_mgr nH') = k + 1"
    and "member key sid k (greeted ts) nJ" "ts = map (\<lambda>j. (j, A j)) (map fst ts)" "set (map fst ts) = {j. j < k}"
  shows "midway key sid A k {} (nJ, (EH, aH, nH') # rest)"
proof -
  have k: "0 \<noteq> k" using assms(2) by auto
  have "map_of (map (\<lambda>j. (j, A j)) (map fst ts)) = (Some \<circ> A) |` set (map fst ts)" by (rule map_of_map_restrict)
  then have "map_of ts = (\<lambda>j. if j < k then Some (A j) else None)"
    unfolding assms(7) [symmetric] assms(8) by (simp add: restrict_map_def fun_eq_iff)
  then have "member key sid k (\<lambda>j. if j < k then Some (A j, if j \<in> {} then Connected else HelloSent) else None) nJ"
    using assms(6) by (simp add: greeted_def [abs_def] if_distrib cong: if_cong)
  moreover have "member key sid i (if i \<in> {} \<or> i = 0 then row (Suc (unat k)) A i else row (unat k) A i) (node_at ((EH, aH, nH') # rest) i)"
    if "i < k" for i
  proof (cases "i = 0")
    case True
    then show ?thesis using assms(3) row_Suc [OF refl k, of A] by (simp add: node_at_def)
  next
    case False
    then have "0 < unat i" by (simp add: unat_gt_0)
    then have "node_at ((EH, aH, nH') # rest) i = node_at ((EH, aH, nH) # rest) i" by (simp add: node_at_def nth_Cons')
    with assms(1,2) that False show ?thesis by (simp add: mesh_def word_less_nat_alt)
  qed
  ultimately show ?thesis using assms(2,4,5) by (simp add: midway_def node_at_def)
qed

lemma midway_end:
  assumes "midway key sid A k {j. j < k} (nJ, ps)" "0 < k"
  shows "mesh key sid A (ps @ [(EJ, A k, nJ)])"
proof -
  have l: "length ps = unat k" using assms(1) by (simp add: midway_def)
  have "node_at (ps @ [(EJ, A k, nJ)]) i = (if i < k then node_at ps i else nJ)" if "unat i < Suc (unat k)" for i
    using that l by (auto simp: node_at_def nth_append word_less_nat_alt less_Suc_eq)
  moreover have "row (Suc (unat k)) A k = (\<lambda>j. if j < k then Some (A j, if j \<in> {j. j < k} then Connected else HelloSent) else None)"
    by (auto simp: row_def fun_eq_iff word_less_nat_alt less_Suc_eq unat_eq_iff)
  then have "member key sid k (row (Suc (unat k)) A k) nJ" using assms(1) by (simp add: midway_def)
  ultimately show ?thesis
    using assms l by (auto simp: mesh_def midway_def word_less_nat_alt less_Suc_eq unat_eq_iff)
qed

lemma join_mesh_result:
  assumes "mesh key sid A ps" "ps = (EH, aH, nH) # rest" "length ps = unat k" "unat k < 5"
    and "\<forall>ea \<in> set (places ps). at_home P key ea" "at_home P key (EJ, A k)" "distinct (map snd (places ps))"
    and "\<forall>j < k. snd (places ps ! unat j) = A j" "length sid = 8"
    and "local_address EH = Some hA" "\<not> is_unspecified (addr_ip hA)" "wire_addr hA"
  shows "mesh key sid A (join_mesh port (EJ, A k, fresh_joiner key) ps)"
    "places (join_mesh port (EJ, A k, fresh_joiner key) ps) = places ps @ [(EJ, A k)]"
proof -
  have k0: "0 < k" "k \<noteq> 0" using assms(2,3) by (auto simp: word_neq_0_conv [symmetric])
  have n0: "node_at ps 0 = nH" by (simp add: node_at_def assms(2))
  have mH: "member key sid 0 (row (unat k) A 0) nH" "is_host (peer_mgr nH)" "next_peer_id (peer_mgr nH) = k"
    using assms(1,3) k0(1) by (auto simp: mesh_def word_less_nat_alt simp flip: n0)
  have EH: "env_ok EH" "prims EH = P" "psk EH = key" "iterates (peer_iter EH)" and aH: "aH = A 0"
    using assms(5,8) k0(1) by (auto simp: assms(2) places_def at_home_def)
  have EJ: "env_ok EJ" "prims EJ = P" "psk EJ = key" using assms(6) by (simp_all add: at_home_def)
  have PE: "prims EJ = prims EH" by (simp add: EJ EH)
  have wire: "wire_addr (A j)" if "j \<le> k" for j
  proof (cases "j = k")
    case False
    then have j: "j < k" "unat j < length (places ps)" using that by (auto simp: assms(3) word_less_nat_alt word_le_nat_alt unat_eq_iff [symmetric])
    then have "at_home P key (places ps ! unat j)" using assms(5) nth_mem [OF j(2)] by blast
    with assms(8) j(1) show ?thesis by (simp add: at_home_def)
  qed (use assms(6) in \<open>simp add: at_home_def\<close>)
  obtain c1 where c: "seal EJ (crypto_context_new key ZERO_SESSION) PKT_JOIN 0 0 0 (join_to_bytes \<lparr>listen_port = port\<rparr>) =
      Ok (header_to_bytes (packet_header_new PKT_JOIN 0 0 0) @ c1)"
    and c1: "encrypt (prims EJ) (crypto_context_new key ZERO_SESSION) (header_to_bytes (packet_header_new PKT_JOIN 0 0 0))
       (join_to_bytes \<lparr>listen_port = port\<rparr>) 0 0 0 = Ok c1" by (rule env_ok_seal [OF EJ(1)])
  define ob where "ob = [(header_to_bytes (packet_header_new PKT_JOIN 0 0 0) @ c1, aH)]"
  have s1: "snd (send_join EJ port aH (fresh_joiner key)) = (fresh_joiner key)\<lparr>outbox := ob\<rparr>"
    "last_sent ((fresh_joiner key)\<lparr>outbox := ob\<rparr>) = header_to_bytes (packet_header_new PKT_JOIN 0 0 0) @ c1"
    using EJ(1,3) c by (simp_all add: send_join_def ob_def last_sent_def) (simp add: fresh_joiner_def)
  have room: "row (unat k) A 0 k = None" "card (dom (row (unat k) A 0)) < 4"
    using row_card [of 0 "unat k" A] k0(1) assms(4) by (simp_all add: row_def word_less_nat_alt)
  obtain es c2 nH1 where h: "handle_incoming EH (header_to_bytes (packet_header_new PKT_JOIN 0 0 0) @ c1) (A k) nH = (Ok (), nH1)"
    "member key sid 0 ((row (unat k) A 0)(k \<mapsto> (A k, Connected))) nH1" "is_host (peer_mgr nH1)" "next_peer_id (peer_mgr nH1) = k + 1"
    "last_sent nH1 = header_to_bytes (packet_header_new PKT_PEER_LIST 0 0 0) @ c2"
    "encrypt (prims EH) (crypto_context_new key ZERO_SESSION) (header_to_bytes (packet_header_new PKT_PEER_LIST 0 0 0))
       (peer_list_to_bytes \<lparr>pl_session_id = sid, pl_peers = (0, hA) # es\<rparr>) 0 0 0 = Ok c2"
    "set es = {(j, b) | j b s. ((row (unat k) A 0)(k \<mapsto> (A k, Connected))) j = Some (b, s)}" "distinct (map fst es)"
    by (rule host_admits [OF EH(1,3) assms(10,11) EH(4) mH assms(4) k0(2) room PE c1, of "A k"])
  define ts where "ts = targets k 0 (A 0) ((0, hA) # es)"
  note t = roster_targets [OF h(7,8) k0(1) assms(4) ts_def]
  have "list_all (\<lambda>(_, a). wire_addr a) ((0, hA) # es)" using t(5) wire assms(12) by (force simp: list_all_iff)
  then obtain c3 nJ2 where g: "handle_incoming EJ (header_to_bytes (packet_header_new PKT_PEER_LIST 0 0 0) @ c2) (A 0) ((fresh_joiner key)\<lparr>outbox := ob\<rparr>) = (Ok (), nJ2)"
    "member key sid k (greeted ts) nJ2"
    "outbox nJ2 = ob @ map (\<lambda>t. (header_to_bytes (packet_header_new PKT_HELLO k 0 0) @ c3, snd t)) ts"
    "encrypt (prims EJ) (crypto_context_new key sid) (header_to_bytes (packet_header_new PKT_HELLO k 0 0)) [] k 0 0 = Ok c3"
    by (rule joiner_greets [OF EJ(1,3) PE [symmetric] assms(9) _ t(2,1,3,4) t(9) [unfolded ts_def] h(6), of ob, folded ts_def])
  let ?ps1 = "(EH, A 0, nH1) # rest" and ?hellos = "map (\<lambda>j. (header_to_bytes (packet_header_new PKT_HELLO k 0 0) @ c3, A j)) (map fst ts)"
  have pl: "places ?ps1 = places ps" by (simp add: assms(2) places_def aH)
  have mid: "midway key sid A k {} (nJ2, ?ps1)"
    using midway_start [OF assms(1) [unfolded assms(2)] _ h(2-4) g(2) t(6,7)] assms(2,3) by (simp add: aH)
  define s' where "s' = foldl (\<lambda>s wa. deliver_hello EJ (A k) wa s) (nJ2, ?ps1) ?hellos"
  have js: "\<forall>j \<in> set (map fst ts). j < k" "set (map fst ts) \<inter> {} = {}" unfolding t(7) by simp_all
  have fin: "midway key sid A k {j. j < k} s'" "places (snd s') = places ps"
    using midway_all [OF mid t(8) js(2,1) assms(4) _ assms(6) _ _ g(4) s'_def] assms(5,7,8) unfolding pl t(7) by simp_all
  obtain nJ3 ps' where s'': "s' = (nJ3, ps')" by fastforce
  have "map (\<lambda>t. (header_to_bytes (packet_header_new PKT_HELLO k 0 0) @ c3, snd t)) ts =
      map (\<lambda>t. (header_to_bytes (packet_header_new PKT_HELLO k 0 0) @ c3, snd t)) (map (\<lambda>j. (j, A j)) (map fst ts))"
    using t(6) by (rule arg_cong)
  also have "\<dots> = ?hellos" by simp
  finally have "drop (length ob) (outbox nJ2) = ?hellos" using g(3) by simp
  then have jm: "join_mesh port (EJ, A k, fresh_joiner key) ps = ps' @ [(EJ, A k, nJ3)]"
    using s1 h(1,5) g(1) s'' by (simp add: join_mesh_def assms(2) Let_def s'_def aH)
  show "places (join_mesh port (EJ, A k, fresh_joiner key) ps) = places ps @ [(EJ, A k)]"
    using fin(2) by (simp add: jm s'' places_def)
  show "mesh key sid A (join_mesh port (EJ, A k, fresh_joiner key) ps)"
    using midway_end [OF fin(1) [unfolded s''] k0(1)] by (simp add: jm)
qed

section \<open>A whole session\<close>

text \<open>The joiners join one after the other.\<close>

definition gather :: "u16 \<Rightarrow> bytes \<Rightarrow> (env \<times> socket_addr) list \<Rightarrow> participant list \<Rightarrow> participant list" where
  "gather port key js ps = foldl (\<lambda>ps (E, a). join_mesh port (E, a, fresh_joiner key) ps) ps js"

lemma mesh_of_host: "mesh key sid A [(EH, aH, fresh_host key sid)]"
proof -
  have "row (Suc 0) A 0 = Map.empty" by (auto simp: row_def fun_eq_iff unat_eq_0)
  moreover have "member key sid 0 Map.empty (fresh_host key sid)"
    by (simp add: fresh_host_def new_host_def member_def roster_of_def get_peer_def fun_eq_iff)
  ultimately show ?thesis by (simp add: mesh_def node_at_def unat_eq_0) (simp add: fresh_host_def new_host_def)
qed

lemma gather_mesh:
  assumes "\<forall>ea \<in> set ((EH, aH) # js). at_home P key ea" "distinct (map snd ((EH, aH) # js))" "length js \<le> 4" "length sid = 8"
    and "local_address EH = Some hA" "\<not> is_unspecified (addr_ip hA)" "wire_addr hA"
    and "\<And>j. unat j < Suc (length js) \<Longrightarrow> A j = snd (((EH, aH) # js) ! unat j)"
  shows "mesh key sid A (gather port key js [(EH, aH, fresh_host key sid)]) \<and>
    places (gather port key js [(EH, aH, fresh_host key sid)]) = (EH, aH) # js"
  using assms(1-3,8)
proof (induction js rule: rev_induct)
  case Nil
  then show ?case by (simp add: gather_def mesh_of_host places_def)
next
  case (snoc x js)
  obtain E a where x: "x = (E, a)" by fastforce
  let ?ps = "gather port key js [(EH, aH, fresh_host key sid)]"
  let ?k = "word_of_nat (Suc (length js)) :: u8"
  have k: "unat ?k = Suc (length js)" using snoc.prems(3) by (simp add: unat_of_nat take_bit_nat_eq_self del: of_nat_Suc)
  have A: "A j = snd (((EH, aH) # js) ! unat j)" if "unat j < Suc (length js)" for j
    using snoc.prems(4) [of j] that by (cases "unat j") (auto simp: nth_append)
  have m: "mesh key sid A ?ps" "places ?ps = (EH, aH) # js"
    using snoc.IH [OF _ _ _ A] snoc.prems(1-3) by simp_all
  then obtain nH rest where ps: "?ps = (EH, aH, nH) # rest" by (cases ?ps) (auto simp: places_def)
  have "length ?ps = Suc (length js)" using m(2) places_length [of ?ps] by simp
  then have l: "length ?ps = unat ?k" by (simp only: k)
  have Ak: "A ?k = a" using snoc.prems(4) [of ?k] k by (simp add: x nth_append)
  have h: "at_home P key (E, A ?k)" "\<forall>ea \<in> set (places ?ps). at_home P key ea" "distinct (map snd (places ?ps))" "unat ?k < 5"
    "\<forall>j < ?k. snd (places ?ps ! unat j) = A j"
    using snoc.prems(1-3) A k unfolding m(2) Ak by (auto simp: x word_less_nat_alt)
  from join_mesh_result [OF m(1) ps l h(4,2,1,3,5) assms(4-7), of port, unfolded Ak] m(2) show ?case
    by (simp add: gather_def x)
qed

lemma member_connected:
  assumes "member key sid i R nd" "iterates it" "\<And>j a s. R j = Some (a, s) \<Longrightarrow> s = Connected"
  shows "set (connected_peers it (peer_mgr nd)) = {(j, a) | j a s. R j = Some (a, s)}"
proof -
  have "is_connected p" if "(j, p) \<in> set (peers (peer_mgr nd))" for j p
  proof -
    have "get_peer j (peer_mgr nd) = Some p" using assms(1) that by (simp add: member_def get_peer_def)
    then have "R j = Some (addr p, state p)" using assms(1) by (auto simp: member_def roster_of_def)
    then show ?thesis using assms(3) by (simp add: is_connected_def)
  qed
  then have "filter is_connected (map snd (it (peers (peer_mgr nd)))) = map snd (it (peers (peer_mgr nd)))"
    using assms(2) by (auto simp: filter_id_conv iterates_set)
  then show ?thesis using iterated_entries(1) [OF assms(1,2)] by (simp add: connected_peers_def)
qed

section \<open>Properties\<close>

text \<open>C5. The mesh forms and carries voice: when up to four fresh joiners with the passphrase of a fresh host join
  it one after the other, over a network that delivers, and the host's socket is bound to an address
  of its own (not to 0.0.0.0 or ::), every participant's connected peers are
  exactly all the others, under their numbers and addresses, and up to eight frames that any of
  them sends to any other are all accepted and come out of the jitter buffer in order as decoded.\<close>

theorem everyone_hears_everyone:
  assumes "eas = (EH, aH) # js" "\<forall>ea \<in> set eas. at_home P key ea" "distinct (map snd eas)" "length js \<le> 4" "length sid = 8"
    and "local_address EH = Some hA" "\<not> is_unspecified (addr_ip hA)" "wire_addr hA"
    and "ps = gather port key js [(EH, aH, fresh_host key sid)]" "i < length eas" "j < length eas" "i \<noteq> j"
    and "decode_all (opus_lib (fst (eas ! j))) \<lparr>dec_calls = []\<rparr> ds = Ok pcms" "ds \<noteq> []" "length ds \<le> 8"
  shows "set (connected_peers (peer_iter (fst (eas ! i))) (peer_mgr (snd (snd (ps ! i))))) =
      {(word_of_nat m, snd (eas ! m)) | m. m < length eas \<and> m \<noteq> i} \<and>
    heard (fst (eas ! i)) (fst (eas ! j)) (word_of_nat j, snd (eas ! j)) (snd (eas ! i)) ds (snd (snd (ps ! i))) (snd (snd (ps ! j))) =
      (replicate (length ds) (Ok ()), map Some pcms)"
proof
  let ?A = "\<lambda>j :: u8. snd (eas ! unat j)" and ?w = "\<lambda>m. word_of_nat m :: u8"
  have m: "mesh key sid ?A ps" "places ps = eas"
    using gather_mesh [OF assms(2,3) [unfolded assms(1)] assms(4-8), of ?A port] assms(1,9) by simp_all
  have u: "unat (?w m) = m" if "m < length eas" for m
    using that assms(1,4) by (simp add: unat_of_nat take_bit_nat_eq_self)
  have l: "length ps = length eas" using m(2) places_length by metis
  have M: "member key sid x (row (length eas) ?A x) (node_at ps x)" if "unat x < length eas" for x
    using m(1) that by (simp add: mesh_def l)
  have mem: "member key sid (?w m) (row (length eas) ?A (?w m)) (snd (snd (ps ! m)))" if "m < length eas" for m
    using M [of "?w m"] that by (simp add: u node_at_def)
  have home: "env_ok (fst (eas ! m))" "prims (fst (eas ! m)) = P" "psk (fst (eas ! m)) = key" "iterates (peer_iter (fst (eas ! m)))"
    if "m < length eas" for m
    using assms(2) nth_mem [OF that] by (simp_all add: at_home_def)
  show "set (connected_peers (peer_iter (fst (eas ! i))) (peer_mgr (snd (snd (ps ! i))))) =
      {(?w m, snd (eas ! m)) | m. m < length eas \<and> m \<noteq> i}"
  proof -
    have e: "(\<exists>s. row (length eas) ?A (?w i) x = Some (a, s)) \<longleftrightarrow> (\<exists>m. x = ?w m \<and> a = snd (eas ! m) \<and> m < length eas \<and> m \<noteq> i)" for x a
    proof
      assume "\<exists>s. row (length eas) ?A (?w i) x = Some (a, s)"
      then have "unat x < length eas" "x \<noteq> ?w i" "a = snd (eas ! unat x)" by (auto simp: row_def split: if_splits)
      moreover from this(2) have "unat x \<noteq> i" by auto
      ultimately show "\<exists>m. x = ?w m \<and> a = snd (eas ! m) \<and> m < length eas \<and> m \<noteq> i" by (intro exI [of _ "unat x"]) simp
    next
      assume "\<exists>m. x = ?w m \<and> a = snd (eas ! m) \<and> m < length eas \<and> m \<noteq> i"
      then obtain m where x: "x = ?w m" "a = snd (eas ! m)" "m < length eas" "m \<noteq> i" by blast
      then have "unat x = m" "x \<noteq> ?w i" using u [of m] u [OF assms(10)] by auto
      with x show "\<exists>s. row (length eas) ?A (?w i) x = Some (a, s)" by (simp add: row_def)
    qed
    have "s = Connected" if "row (length eas) ?A (?w i) x = Some (a, s)" for x a s
      using that by (simp add: row_def split: if_splits)
    then have "set (connected_peers (peer_iter (fst (eas ! i))) (peer_mgr (snd (snd (ps ! i))))) =
        {(x, a) | x a s. row (length eas) ?A (?w i) x = Some (a, s)}"
      by (rule member_connected [OF mem [OF assms(10)] home(4) [OF assms(10)]])
    also have "\<dots> = {(?w m, snd (eas ! m)) | m. m < length eas \<and> m \<noteq> i}" by (auto simp: e)
    finally show ?thesis .
  qed
  have "?w i \<noteq> ?w j" using u [OF assms(10)] u [OF assms(11)] assms(12) by metis
  then have rows: "row (length eas) ?A (?w i) (?w j) = Some (snd (eas ! j), Connected)" "row (length eas) ?A (?w j) (?w i) = Some (snd (eas ! i), Connected)"
    using u assms(10,11) by (simp_all add: row_def)
  obtain pA pB where p: "get_peer (?w j) (peer_mgr (snd (snd (ps ! i)))) = Some pA" "untouched pA"
    "get_peer (?w i) (peer_mgr (snd (snd (ps ! j)))) = Some pB" "untouched pB"
    using member_peer [OF mem [OF assms(10)] rows(1)] member_peer [OF mem [OF assms(11)] rows(2)] by metis
  have n: "local_id (peer_mgr (snd (snd (ps ! m)))) = ?w m" "crypto_ctx (snd (snd (ps ! m))) = crypto_context_new key sid" if "m < length eas" for m
    using mem [OF that] by (simp_all add: member_def)
  show "heard (fst (eas ! i)) (fst (eas ! j)) (?w j, snd (eas ! j)) (snd (eas ! i)) ds (snd (snd (ps ! i))) (snd (snd (ps ! j))) =
      (replicate (length ds) (Ok ()), map Some pcms)"
    using greeted_heard [OF home(1) [OF assms(10)] home(1) [OF assms(11)] _ n(1) [OF assms(10)] p(1,3,2,4) n(2) [OF assms(10)] n(2) [OF assms(11)] assms(13-15)]
      home(2) assms(10,11) by simp
qed

text \<open>Three participants: the second joiner is heard by the first.\<close>

theorem everyone_hears_everyone_witness:
  "let ps = gather 5001 (replicate 32 5) [(demo_env, demo_addr 5001), (demo_env, demo_addr 5002)]
        [(demo_env, demo_addr 5000, fresh_host (replicate 32 5) (replicate 8 7))]
   in set (connected_peers rev (peer_mgr (snd (snd (ps ! 1))))) = {(0, demo_addr 5000), (2, demo_addr 5002)} \<and>
      heard demo_env demo_env (1, demo_addr 5001) (demo_addr 5002) [[4, 5], [6]] (snd (snd (ps ! 2))) (snd (snd (ps ! 1))) =
        ([Ok (), Ok ()], [Some [4, 5], Some [6]])"
proof -
  let ?js = "[(demo_env, demo_addr 5001), (demo_env, demo_addr 5002)]" let ?eas = "(demo_env, demo_addr 5000) # ?js"
  have h: "\<forall>ea \<in> set ?eas. at_home demo_prims (replicate 32 5) ea" "distinct (map snd ?eas)" "length ?js \<le> 4"
    "length (replicate 8 (7 :: u8)) = 8" "local_address demo_env = Some (demo_addr 5000)" "\<not> is_unspecified (addr_ip (demo_addr 5000))"
    "wire_addr (demo_addr 5000)"
    using demo_env_ok by (simp_all add: at_home_def demo_env_def demo_addr_def iterates_rev)
  have d: "decode_all (opus_lib demo_env) \<lparr>dec_calls = []\<rparr> [[4, 5], [6]] = Ok [[4, 5], [6]]"
    by (simp add: demo_env_def opus_decode_packet_def demo_opus_def FRAME_SAMPLES_def)
  let ?ps = "gather 5001 (replicate 32 5) ?js [(demo_env, demo_addr 5000, fresh_host (replicate 32 5) (replicate 8 7))]"
  note e = everyone_hears_everyone [OF refl h refl, where port = 5001 and ds = "[[4, 5], [6]]" and pcms = "[[4, 5], [6]]"]
  have "set (connected_peers (peer_iter (fst (?eas ! 1))) (peer_mgr (snd (snd (?ps ! 1))))) =
      {(word_of_nat m, snd (?eas ! m)) | m. m < length ?eas \<and> m \<noteq> 1}"
    by (rule e [where i = 1 and j = 2, THEN conjunct1]) (use d in simp_all)
  moreover have "heard (fst (?eas ! 2)) (fst (?eas ! 1)) (word_of_nat 1, snd (?eas ! 1)) (snd (?eas ! 2)) [[4, 5], [6]]
      (snd (snd (?ps ! 2))) (snd (snd (?ps ! 1))) = (replicate (length [[4, 5], [6 :: u8]]) (Ok ()), map Some [[4, 5], [6]])"
    by (rule e [where i = 2 and j = 1, THEN conjunct2]) (use d in simp_all)
  moreover have "peer_iter demo_env = rev" by (simp add: demo_env_def)
  moreover have "{(word_of_nat m :: u8, snd (?eas ! m)) | m. m < length ?eas \<and> m \<noteq> 1} = {(0, demo_addr 5000), (2, demo_addr 5002)}"
  proof -
    have "{m. m < length ?eas \<and> m \<noteq> 1} = {0, 2}" by auto
    then show ?thesis unfolding setcompr_eq_image by simp
  qed
  ultimately show ?thesis by (simp add: Let_def numeral_2_eq_2)
qed

end
