(* ===== verification/Links.thy ===== *)
theory Links
  imports Startup Handshake
begin

text \<open>
  The connections of a node, abstractly: the state of every peer as a finite map, and a machine whose
  events are the four ways a connection changes. The handler and the loop refine it, and every event
  but the timeout is paid for with a packet that opens under the pre-shared key.
\<close>

section \<open>The abstract machine\<close>

definition links :: "node \<Rightarrow> u8 \<rightharpoonup> peer_state" where
  "links nd = (\<lambda>pid. map_option state (get_peer pid (peer_mgr nd)))"

datatype link_event = Silent | JoinOf u8 | HelloFrom u8 | AckFrom u8 | Roster "u8 set" | Expiry

text \<open>A HELLO or a JOIN connects a peer, known or not, an acknowledgement only a known one; a roster learns
  and greets some of its peers, as many as could be reached; the timeout only parts connected ones.\<close>

inductive link_step :: "link_event \<Rightarrow> (u8 \<rightharpoonup> peer_state) \<Rightarrow> (u8 \<rightharpoonup> peer_state) \<Rightarrow> bool" where
  silent: "link_step Silent m m"
| join: "link_step (JoinOf pid) m (m(pid \<mapsto> Connected))"
| hello: "link_step (HelloFrom pid) m (m(pid \<mapsto> Connected))"
| ack: "m pid = Some st \<Longrightarrow> link_step (AckFrom pid) m (m(pid \<mapsto> Connected))"
| roster: "\<forall>pid. m' pid = m pid \<or> pid \<in> ids \<and> (m' pid = Some HelloSent \<or> m pid = None \<and> m' pid = Some Discovered)
    \<Longrightarrow> link_step (Roster ids) m m'"
| expiry: "\<forall>pid. m' pid = m pid \<or> m pid = Some Connected \<and> m' pid = Some Disconnected \<Longrightarrow> link_step Expiry m m'"

inductive_cases link_stepE: "link_step ev m m'"

text \<open>The packet an event needs: it opens under the pre-shared key, for the zero session before the node is
  part of one and for the session of the node after that, and its header names the peer.\<close>

definition opens_as :: "env \<Rightarrow> bytes \<Rightarrow> bytes \<Rightarrow> u8 \<Rightarrow> packet_header \<Rightarrow> bytes \<Rightarrow> bool" where
  "opens_as E data sid ty h pt \<longleftrightarrow> (\<exists>ct. data = header_to_bytes h @ ct \<and> pkt_type h = ty \<and>
     open_packet E (crypto_context_new (psk E) sid) (header_to_bytes h) ct h = Ok pt)"

fun granted :: "env \<Rightarrow> node \<Rightarrow> bytes \<Rightarrow> link_event \<Rightarrow> bool" where
  "granted E nd data Silent = True"
| "granted E nd data (JoinOf pid) =
     (is_host (peer_mgr nd) \<and> pid = next_peer_id (peer_mgr nd) \<and> unat pid < MAX_PEERS \<and>
      (\<exists>h pt. opens_as E data ZERO_SESSION PKT_JOIN h pt))"
| "granted E nd data (HelloFrom pid) = (\<exists>h pt. opens_as E data (session_id (peer_mgr nd)) PKT_HELLO h pt \<and> peer_id h = pid)"
| "granted E nd data (AckFrom pid) = (\<exists>h pt. opens_as E data (session_id (peer_mgr nd)) PKT_HELLO_ACK h pt \<and> peer_id h = pid)"
| "granted E nd data (Roster ids) = (\<exists>h pt pl. opens_as E data ZERO_SESSION PKT_PEER_LIST h pt \<and>
     peer_list_from_bytes pt = Ok pl \<and> ids \<subseteq> set (map fst (pl_peers pl)))"
| "granted E nd data Expiry = False"

section \<open>What the operations do to the connections\<close>

lemma links_outbox [simp]: "links (nd\<lparr>outbox := ob\<rparr>) = links nd" "links (nd\<lparr>crypto_ctx := c\<rparr>) = links nd"
  by (simp_all add: links_def)

lemma links_send [simp]: "links (snd (send_to E w a nd)) = links nd"
  by (simp add: send_to_def)

lemma links_upd_keep: "(\<And>p. state (f p) = state p) \<Longrightarrow> links (upd_node_peer pid f nd) = links nd"
  by (rule ext) (simp add: links_def get_upd_node_peer option.map_comp comp_def)

lemma links_upd_set:
  "(\<And>p. state (f p) = st) \<Longrightarrow>
     links (upd_node_peer pid f nd) = (if links nd pid = None then links nd else (links nd)(pid \<mapsto> st))"
  by (rule ext) (auto simp: links_def get_upd_node_peer)

lemma links_put:
  "get_peer pid (peer_mgr nd) = Some p \<Longrightarrow> state q = state p \<Longrightarrow> links (upd_node_peer pid (\<lambda>_. q) nd) = links nd"
  by (rule ext) (auto simp: links_def get_upd_node_peer)

lemma links_pm:
  "peers pm = peers (peer_mgr nd) \<Longrightarrow> links (nd\<lparr>peer_mgr := pm\<rparr>) = links nd"
  by (simp add: links_def get_peer_def)

lemma links_touch_by_addr [simp]: "links (touch_by_addr E src nd) = links nd"
  by (simp add: touch_by_addr_def links_upd_keep touch_def split: option.splits)

text \<open>Learning a peer adds it as discovered, or changes nothing about the connections.\<close>

lemma links_add:
  "links (snd (node_add_peer E pid a nd)) = links nd \<or> fst (node_add_peer E pid a nd) = Ok () \<and>
     links nd pid = None \<and> links (snd (node_add_peer E pid a nd)) = (links nd)(pid \<mapsto> Discovered)"
proof (cases "get_peer pid (peer_mgr nd)")
  case None
  then show ?thesis
    by (cases "remote_peer_new (opus_lib E) (clock E) pid a")
      (auto simp: links_def node_add_peer_def add_peer_def get_peer_def update_conv fun_eq_iff dest!: remote_peer_new_Ok)
next
  case (Some p)
  have "map_option state (get_peer k (upd_peer pid (\<lambda>p. p\<lparr>addr := a\<rparr>) pm)) = map_option state (get_peer k pm)" for k pm
    by (simp add: get_upd_peer option.map_comp comp_def)
  with Some show ?thesis by (auto simp: links_def node_add_peer_def add_peer_def fun_eq_iff get_peer_def)
qed

text \<open>A peer learned and marked: one entry changes, or nothing does.\<close>

lemma links_add_set:
  assumes "\<And>p. state (f p) = st"
  shows "links (upd_node_peer pid f (snd (node_add_peer E pid a nd))) \<in> {links nd, (links nd)(pid \<mapsto> st)}"
  using links_add [of E pid a nd] links_upd_set [of f st pid "snd (node_add_peer E pid a nd)", OF assms] by (auto split: if_splits)

lemma links_attempt:
  "links s \<in> M \<Longrightarrow> (\<And>x. r = Ok x \<Longrightarrow> links (snd (k x)) \<in> M) \<Longrightarrow> links (snd (attempt r s k)) \<in> M"
  by (cases r) auto

lemma links_attempt_st:
  "(\<And>e. fst rs \<noteq> Ok e \<Longrightarrow> links (snd rs) \<in> M) \<Longrightarrow> (\<And>x. fst rs = Ok x \<Longrightarrow> links (snd (k x (snd rs))) \<in> M) \<Longrightarrow>
     links (snd (attempt_st rs k)) \<in> M"
  by (cases "(rs, k)" rule: attempt_st.cases) auto

lemma links_attempt_eq:
  "links s = m \<Longrightarrow> (\<And>x. r = Ok x \<Longrightarrow> links (snd (k x)) = m) \<Longrightarrow> links (snd (attempt r s k)) = m"
  by (cases r) auto

section \<open>The handlers\<close>

lemma links_audio: "links (snd (handle_audio E hb ct h nd)) = links nd"
proof (cases "open_audio E hb ct h nd")
  case (Ok x)
  obtain pt used where x: "x = (pt, used)" by fastforce
  show ?thesis
  proof (cases "get_peer (peer_id h) (peer_mgr nd)")
    case None
    with Ok x show ?thesis by (simp add: handle_audio_def)
  next
    case (Some p)
    show ?thesis unfolding handle_audio_def Let_def Ok x attempt.simps prod.case Some option.case
      by (auto simp: touch_def links_put [OF Some] intro!: links_attempt_eq split: prod.split)
  qed
qed (simp_all add: handle_audio_def)

lemma links_send_kx [simp]: "links (send_key_exchange E lid sid pid dst nd) = links nd"
  by (simp add: send_key_exchange_def links_upd_keep split: outcome.splits)

lemma links_quiet:
  "links (snd (handle_keepalive E src nd)) = links nd" "links (snd (handle_ping E hb ct h src nd)) = links nd"
  "links (snd (handle_pong E hb ct h nd)) = links nd" "links (snd (handle_key_exchange E hb ct h src nd)) = links nd"
proof -
  show "links (snd (handle_keepalive E src nd)) = links nd" by (simp add: handle_keepalive_def)
  show "links (snd (handle_ping E hb ct h src nd)) = links nd"
    unfolding handle_ping_def Let_def by (intro links_attempt_eq) (simp_all split: prod.splits outcome.splits)
  show "links (snd (handle_pong E hb ct h nd)) = links nd"
    unfolding handle_pong_def by (intro links_attempt_eq) (simp_all add: links_upd_keep touch_def)
  show "links (snd (handle_key_exchange E hb ct h src nd)) = links nd"
    unfolding handle_key_exchange_def Let_def by (intro links_attempt_eq) (simp_all add: links_upd_keep)
qed

lemma links_hello:
  assumes "links (snd (handle_hello E hb ct h src nd)) \<noteq> links nd"
  shows "links (snd (handle_hello E hb ct h src nd)) = (links nd)(peer_id h \<mapsto> Connected)"
    "\<exists>pt. open_packet E (crypto_context_new (psk E) (session_id (peer_mgr nd))) hb ct h = Ok pt"
proof -
  let ?f = "\<lambda>p. touch (clock E) (p\<lparr>state := Connected\<rparr>)" and ?M = "{links nd, (links nd)(peer_id h \<mapsto> Connected)}"
  from assms obtain pt where Ok: "open_packet E (crypto_context_new (psk E) (session_id (peer_mgr nd))) hb ct h = Ok pt"
    by (cases "open_packet E (crypto_context_new (psk E) (session_id (peer_mgr nd))) hb ct h") (simp_all add: handle_hello_def)
  then show "\<exists>pt. open_packet E (crypto_context_new (psk E) (session_id (peer_mgr nd))) hb ct h = Ok pt" by simp
  have "links (upd_node_peer (peer_id h) ?f (snd (node_add_peer E (peer_id h) src nd))) \<in> ?M"
    by (rule links_add_set) (simp add: touch_def)
  moreover have "links (upd_node_peer (peer_id h) ?f nd) \<in> ?M"
    using links_upd_set [of ?f Connected] by (auto simp: touch_def)
  moreover have "fst (node_add_peer E (peer_id h) src nd) \<noteq> Ok () \<Longrightarrow> links (snd (node_add_peer E (peer_id h) src nd)) \<in> ?M"
    using links_add [of E "peer_id h" src nd] by auto
  ultimately have "links (snd (handle_hello E hb ct h src nd)) \<in> ?M"
    unfolding handle_hello_def Let_def Ok attempt.simps
    by (intro links_attempt_st links_attempt) (auto split: if_splits)
  with assms show "links (snd (handle_hello E hb ct h src nd)) = (links nd)(peer_id h \<mapsto> Connected)" by simp
qed

lemma links_join:
  assumes "links (snd (handle_join E hb ct h src nd)) \<noteq> links nd"
  shows "links (snd (handle_join E hb ct h src nd)) = (links nd)(next_peer_id (peer_mgr nd) \<mapsto> Connected)"
    "is_host (peer_mgr nd)" "unat (next_peer_id (peer_mgr nd)) < MAX_PEERS"
    "\<exists>pt. open_packet E (crypto_context_new (psk E) ZERO_SESSION) hb ct h = Ok pt"
proof -
  let ?f = "\<lambda>p. touch (clock E) (p\<lparr>state := Connected\<rparr>)" and ?id = "next_peer_id (peer_mgr nd)"
  let ?M = "{links nd, (links nd)(?id \<mapsto> Connected)}"
  show host: "is_host (peer_mgr nd)" using assms by (cases "is_host (peer_mgr nd)") (simp_all add: handle_join_def)
  from assms host obtain pt where Ok: "open_packet E (crypto_context_new (psk E) ZERO_SESSION) hb ct h = Ok pt"
    by (cases "open_packet E (crypto_context_new (psk E) ZERO_SESSION) hb ct h") (simp_all add: handle_join_def)
  then show "\<exists>pt. open_packet E (crypto_context_new (psk E) ZERO_SESSION) hb ct h = Ok pt" by simp
  from assms host Ok obtain j where j: "join_from_bytes pt = Ok j"
    by (cases "join_from_bytes pt") (simp_all add: handle_join_def)
  show id: "unat ?id < MAX_PEERS"
    using assms host Ok j by (rule_tac ccontr) (simp add: handle_join_def allocate_peer_id_def links_pm)
  let ?nd = "nd\<lparr>peer_mgr := (peer_mgr nd)\<lparr>next_peer_id := ?id + 1\<rparr>\<rparr>"
  have nd: "links ?nd = links nd" by (rule links_pm) simp
  have "links (upd_node_peer ?id ?f (snd (node_add_peer E ?id src ?nd))) \<in> {links ?nd, (links ?nd)(?id \<mapsto> Connected)}"
    by (rule links_add_set) (simp add: touch_def)
  moreover have "fst (node_add_peer E ?id src ?nd) \<noteq> Ok () \<Longrightarrow> links (snd (node_add_peer E ?id src ?nd)) \<in> ?M"
    using links_add [of E ?id src ?nd] nd by auto
  ultimately have "links (snd (handle_join E hb ct h src nd)) \<in> ?M"
    using host id unfolding handle_join_def Let_def Ok j attempt.simps nd
    by (simp add: allocate_peer_id_def del: insert_iff) (intro links_attempt_st links_attempt; simp)
  with assms show "links (snd (handle_join E hb ct h src nd)) = (links nd)(?id \<mapsto> Connected)" by simp
qed

text \<open>What a roster may do to the connections.\<close>

definition greeted :: "u8 set \<Rightarrow> (u8 \<rightharpoonup> peer_state) \<Rightarrow> (u8 \<rightharpoonup> peer_state) \<Rightarrow> bool" where
  "greeted ids m m' \<longleftrightarrow> (\<forall>pid. m' pid = m pid \<or> pid \<in> ids \<and> (m' pid = Some HelloSent \<or> m pid = None \<and> m' pid = Some Discovered))"

lemma greeted_refl [simp]: "greeted ids m m"
  by (simp add: greeted_def)

lemma greeted_trans: "greeted A m m' \<Longrightarrow> greeted B m' m'' \<Longrightarrow> greeted (A \<union> B) m m''"
  unfolding greeted_def by (metis UnCI option.distinct(1))

lemma links_greet: "greeted (set (map fst es)) (links nd) (links (snd (greet_peers E my sid sender src es nd)))"
proof (induction es arbitrary: nd)
  case (Cons e es)
  obtain pid a where e: "e = (pid, a)" by fastforce
  have mono: "greeted (set (map fst es)) m m' \<Longrightarrow> greeted (set (map fst (e # es))) m m'" for m m'
    by (auto simp: greeted_def)
  show ?case
  proof (cases "pid = my")
    case True
    with mono [OF Cons.IH [of nd]] show ?thesis by (simp add: e)
  next
    case False
    define b where "b = (if pid = sender then src else a)"
    let ?nd1 = "snd (node_add_peer E pid b nd)" and ?f = "\<lambda>p. p\<lparr>state := HelloSent\<rparr>"
    have add: "greeted {pid} (links nd) (links ?nd1)" using links_add [of E pid b nd] by (auto simp: greeted_def split: if_splits)
    have set: "greeted {pid} (links nd) (links (upd_node_peer pid ?f n))" if "links n = links ?nd1" for n
      using links_add [of E pid b nd] links_upd_set [of ?f HelloSent pid n] that by (auto simp: greeted_def)
    have rest: "greeted (set (map fst (e # es))) (links nd) (links (snd (greet_peers E my sid sender src es (upd_node_peer pid ?f n))))"
      if "links n = links ?nd1" for n
      using greeted_trans [OF set [OF that] Cons.IH] by (simp add: e)
    have add': "greeted (set (map fst (e # es))) (links nd) (links ?nd1)" using add by (auto simp: greeted_def e)
    have "greet_peers E my sid sender src (e # es) nd = attempt_st (node_add_peer E pid b nd) (\<lambda>_ nd.
        attempt (seal E (crypto_context_new (psk E) sid) PKT_HELLO my 0 0 []) nd (\<lambda>wire.
        attempt_st (send_to E wire b nd) (\<lambda>_ nd. greet_peers E my sid sender src es (upd_node_peer pid ?f nd))))" (is "_ = ?r")
      using False by (simp add: e b_def Let_def)
    moreover have "links (snd ?r) \<in> {m'. greeted (set (map fst (e # es))) (links nd) m'}"
      by (intro links_attempt_st links_attempt) (use add' rest in simp_all)
    ultimately show ?thesis by simp
  qed
qed simp

lemma links_peer_list:
  obtains "links (snd (handle_peer_list E hb ct h src nd)) = links nd"
  | pt pl where "open_packet E (crypto_context_new (psk E) ZERO_SESSION) hb ct h = Ok pt" "peer_list_from_bytes pt = Ok pl"
    "greeted (set (map fst (pl_peers pl))) (links nd) (links (snd (handle_peer_list E hb ct h src nd)))"
proof (cases "\<exists>pt pl my. open_packet E (crypto_context_new (psk E) ZERO_SESSION) hb ct h = Ok pt \<and>
    peer_list_from_bytes pt = Ok pl \<and> max_id (map fst (pl_peers pl)) = Some my")
  case True
  then obtain pt pl my where o: "open_packet E (crypto_context_new (psk E) ZERO_SESSION) hb ct h = Ok pt"
    "peer_list_from_bytes pt = Ok pl" "max_id (map fst (pl_peers pl)) = Some my" by blast
  let ?nd = "nd\<lparr>peer_mgr := set_identity my (pl_session_id pl) (peer_mgr nd), crypto_ctx := crypto_context_new (psk E) (pl_session_id pl)\<rparr>"
  have "links ?nd = links nd" using links_pm [of "set_identity my (pl_session_id pl) (peer_mgr nd)" nd] by (simp add: set_identity_def)
  with links_greet [of "pl_peers pl" ?nd E my "pl_session_id pl" "peer_id h" src] o that(2) show ?thesis
    by (simp add: handle_peer_list_def Let_def)
next
  case False
  have "links (snd (handle_peer_list E hb ct h src nd)) = links nd"
    unfolding handle_peer_list_def using False by (intro links_attempt_eq) (auto simp: ok_or_eq_Ok)
  then show ?thesis by (rule that(1))
qed

lemma incoming_links:
  "\<exists>ev. granted E nd data ev \<and> link_step ev (links nd) (links (snd (handle_incoming E data src nd)))"
proof (cases data rule: wire_cases)
  case 1
  then show ?thesis by (auto simp: handle_incoming_short intro!: exI [of _ Silent] silent)
next
  case (2 h ct)
  let ?hb = "header_to_bytes h" and ?nd = "snd (handle_incoming E data src nd)"
  have op: "open_packet E (crypto_context_new (psk E) sid) ?hb ct h = Ok pt \<Longrightarrow> opens_as E data sid (pkt_type h) h pt" for sid pt
    by (auto simp: opens_as_def 2)
  note disp = 2 handle_incoming_wire Let_def
  consider "links ?nd = links nd" | "pkt_type h = PKT_JOIN" "links ?nd \<noteq> links nd" | "pkt_type h = PKT_PEER_LIST"
    | "pkt_type h = PKT_HELLO" "links ?nd \<noteq> links nd" | "pkt_type h = PKT_HELLO_ACK" "links ?nd \<noteq> links nd"
  proof -
    have "links ?nd = links nd" if "pkt_type h \<notin> {PKT_JOIN, PKT_PEER_LIST, PKT_HELLO, PKT_HELLO_ACK}"
      using that by (simp add: disp links_audio links_quiet)
    then show ?thesis using that by blast
  qed
  then show ?thesis
  proof cases
    case 1
    then show ?thesis by (auto intro!: exI [of _ Silent] silent)
  next
    case 2
    then have "?nd = snd (handle_join E ?hb ct h src nd)" by (simp add: disp pkt_defs)
    with links_join [of E ?hb ct h src nd] 2 op show ?thesis
      by (intro exI [of _ "JoinOf (next_peer_id (peer_mgr nd))"]) (auto intro: join)
  next
    case 3
    then have nd: "?nd = snd (handle_peer_list E ?hb ct h src nd)" by (simp add: disp pkt_defs)
    show ?thesis
    proof (cases rule: links_peer_list [of E ?hb ct h src nd])
      case 1
      with nd show ?thesis by (auto intro!: exI [of _ Silent] silent)
    next
      case (2 pt pl)
      with 3 nd op show ?thesis
        by (intro exI [of _ "Roster (set (map fst (pl_peers pl)))"]) (auto simp: greeted_def intro!: roster)
    qed
  next
    case 4
    then have "?nd = snd (handle_hello E ?hb ct h src nd)" by (simp add: disp pkt_defs)
    with links_hello [of E ?hb ct h src nd] 4 op show ?thesis
      by (intro exI [of _ "HelloFrom (peer_id h)"]) (auto intro: hello)
  next
    case 5
    then have nd: "?nd = snd (handle_hello_ack E ?hb ct h nd)" by (simp add: disp pkt_defs)
    let ?f = "\<lambda>p. touch (clock E) (p\<lparr>state := Connected\<rparr>)"
    from nd 5 obtain pt where pt: "open_packet E (crypto_context_new (psk E) (session_id (peer_mgr nd))) ?hb ct h = Ok pt"
      by (cases "open_packet E (crypto_context_new (psk E) (session_id (peer_mgr nd))) ?hb ct h") (simp_all add: handle_hello_ack_def)
    then have "links ?nd = (if links nd (peer_id h) = None then links nd else (links nd)(peer_id h \<mapsto> Connected))"
      using links_upd_set [of ?f Connected "peer_id h" nd] by (simp add: nd handle_hello_ack_def touch_def)
    with 5 op [OF pt] show ?thesis
      by (intro exI [of _ "AckFrom (peer_id h)"]) (auto intro: ack split: if_splits)
  qed
qed

section \<open>The loop\<close>

lemma links_foldl: "(\<And>nd x. links (f nd x) = links nd) \<Longrightarrow> links (foldl f nd xs) = links nd"
  by (induction xs arbitrary: nd) auto

lemma links_map:
  "(\<And>p. state (f p) = state p) \<Longrightarrow>
     links (nd\<lparr>peer_mgr := (peer_mgr nd)\<lparr>peers := map (\<lambda>(k, p). (k, f p)) (peers (peer_mgr nd))\<rparr>\<rparr>) = links nd"
  by (rule ext) (simp add: links_def get_peer_def map_of_map option.map_comp comp_def)

lemma links_sealed [simp]: "links (send_sealed E r a nd) = links nd"
  by (cases r) (simp_all add: send_sealed_def)

lemma links_send_audio_to: "links (send_audio_to E d lid dst nd) = links nd"
proof -
  obtain pid a where dst: "dst = (pid, a)" by fastforce
  show ?thesis
  proof (cases "get_peer pid (peer_mgr nd)")
    case (Some p)
    let ?p = "p\<lparr>send_seq := send_seq p + 1\<rparr>"
    have "links (upd_node_peer pid (\<lambda>_. ?p) nd) = links nd" by (rule links_put [OF Some]) simp
    moreover have "links (upd_node_peer pid (\<lambda>_. ?p\<lparr>peer_crypto := c\<rparr>) (upd_node_peer pid (\<lambda>_. ?p) nd)) = links nd" for c
      using Some calculation by (subst links_put [of _ _ ?p]) (simp_all add: get_upd_node_peer)
    ultimately show ?thesis
      using Some by (simp add: dst send_audio_to_def next_seq_def Let_def split: prod.splits outcome.splits option.splits)
  qed (simp add: dst send_audio_to_def)
qed

lemma links_capture: "links (snd (capture_step E A popped st)) = links (snd st)"
proof -
  have fold: "(\<And>c s. links (snd (f c s)) = links (snd s)) \<Longrightarrow> links (snd (foldl (\<lambda>s c. f c s) s cs)) = links (snd s)"
    for f :: "fl list \<Rightarrow> capture \<times> node \<Rightarrow> capture \<times> node" and s cs
    by (induction cs arbitrary: s) auto
  have "links (send_audio E d nd) = links nd" for d nd
    unfolding send_audio_def Let_def by (rule links_foldl) (rule links_send_audio_to)
  then have "links (snd (transmit_chunk E A v c s)) = links (snd s)" for v c s
    by (simp add: transmit_chunk_def Let_def split: prod.splits outcome.splits)
  then have "links (snd (transmit_chunks E A v xs s)) = links (snd s)" for v xs s
    unfolding transmit_loop.loop_fold by (rule fold)
  then have "links (snd (capture_frame E A c s)) = links (snd s)" for c s
    by (simp add: capture_frame_def Let_def split: prod.splits option.splits)
  then have "links (snd (foldl (\<lambda>s c. capture_frame E A c s) st cs)) = links (snd st)" for cs by (rule fold)
  then show ?thesis
    unfolding capture_step_def capture_loop.loop_fold by (simp split: prod.splits) (metis snd_conv)
qed

lemma links_timers:
  "links (snd (playout_step E nd)) = links nd" "links (ping_step E nd) = links nd" "links (adapt_step t nd) = links nd"
  "link_step Expiry (links nd) (links (keepalive_step E nd))"
proof -
  have "state (snd (playout_peer opus p)) = state p" for opus p
    by (simp add: playout_peer_def split: prod.splits option.splits)
  then show "links (snd (playout_step E nd)) = links nd" by (simp add: playout_step_def Let_def links_map)
  have "links (ping_to E lid dst n) = links n" for lid dst n
    by (auto simp: ping_to_def Let_def links_upd_keep split: prod.splits option.splits outcome.splits)
  moreover have "links (key_exchange_to E lid dst n) = links n" for lid dst n
    by (auto simp: key_exchange_to_def split: prod.splits option.splits)
  ultimately show "links (ping_step E nd) = links nd" by (simp add: ping_step_def Let_def links_foldl)
  show "links (adapt_step t nd) = links nd" by (simp add: adapt_step_def links_map)
  have "links (foldl (\<lambda>nd dst. keepalive_to E lid dst nd) nd xs) = links nd" for lid xs
    by (rule links_foldl) (simp add: keepalive_to_def split: prod.splits outcome.splits)
  moreover have "link_step Expiry (links n) (links (n\<lparr>peer_mgr := check_timeouts (clock E) (peer_mgr n)\<rparr>))" for n
  proof (rule expiry, intro allI)
    show "links (n\<lparr>peer_mgr := check_timeouts (clock E) (peer_mgr n)\<rparr>) pid = links n pid \<or>
        links n pid = Some Connected \<and> links (n\<lparr>peer_mgr := check_timeouts (clock E) (peer_mgr n)\<rparr>) pid = Some Disconnected" for pid
      by (cases "get_peer pid (peer_mgr n)") (simp_all add: links_def get_check_timeouts)
  qed
  ultimately show "link_step Expiry (links nd) (links (keepalive_step E nd))"
    unfolding keepalive_step_def Let_def by metis
qed

lemma links_parts:
  "links (the_node (capture_part E A popped u)) = links (the_node u)" "links (the_node (playout_part E u)) = links (the_node u)"
  "links (the_node (ping_part E u)) = links (the_node u)" "links (the_node (adapt_part E u)) = links (the_node u)"
  "links (the_node (ui_part E u)) = links (the_node u)"
  using links_capture [of E A popped "(the_capture u, the_node u)"] links_timers(1) [of E "the_node u"]
  by (auto simp: capture_part_def playout_part_def ping_part_def adapt_part_def ui_part_def links_timers(2,3) Let_def split: prod.splits)

text \<open>A turn: the event of the datagram, if there is one, and then the timeouts.\<close>

lemma turn_links:
  "\<exists>ev m. link_step ev (links (the_node s)) m \<and> link_step Expiry m (links (the_node (loop_turn E A received popped s))) \<and>
     (ev = Silent \<or> (\<exists>d src. received = Some (d, src) \<and> granted E (the_node s) d ev))"
proof -
  have sync: "the_node (sync_controls s) = the_node s" by (simp add: sync_controls_def Let_def)
  let ?r = "receive_part E received (sync_controls s)"
  have rcv: "\<exists>ev. link_step ev (links (the_node s)) (links (the_node ?r)) \<and>
      (ev = Silent \<or> (\<exists>d src. received = Some (d, src) \<and> granted E (the_node s) d ev))"
  proof (cases received)
    case None
    then show ?thesis by (auto simp: receive_part_def sync intro: silent)
  next
    case (Some ds)
    obtain d src where ds: "ds = (d, src)" by fastforce
    have "the_node ?r = snd (handle_incoming E d src (the_node s))"
      by (simp add: Some ds receive_part_def sync split: prod.splits)
    with incoming_links [of E "the_node s" d src] Some ds show ?thesis by auto
  qed
  have refl: "link_step Expiry m m" for m by (rule expiry) simp
  have keep: "link_step Expiry (links (the_node u)) (links (the_node (keepalive_part E u)))" for u
    using refl links_timers(4) [of "the_node u" E] by (simp add: keepalive_part_def)
  have "link_step Expiry (links (the_node ?r)) (links (the_node (loop_turn E A received popped s)))"
    using refl keep [of "playout_part E (capture_part E A popped ?r)"]
    by (simp add: loop_turn_def Let_def links_parts)
  with rcv show ?thesis by blast
qed

section \<open>Runs\<close>

inductive link_path :: "link_event list \<Rightarrow> (u8 \<rightharpoonup> peer_state) \<Rightarrow> (u8 \<rightharpoonup> peer_state) \<Rightarrow> bool" where
  path_nil: "link_path [] m m"
| path_cons: "link_step ev m m1 \<Longrightarrow> link_path evs m1 m2 \<Longrightarrow> link_path (ev # evs) m m2"

text \<open>On the abstract machine: a connection is made by one of the three greetings.\<close>

lemma link_path_connected:
  "link_path evs m m' \<Longrightarrow> m' pid = Some Connected \<Longrightarrow>
     m pid = Some Connected \<or> JoinOf pid \<in> set evs \<or> HelloFrom pid \<in> set evs \<or> AckFrom pid \<in> set evs"
proof (induction rule: link_path.induct)
  case (path_cons ev m m1 evs m2)
  have "m1 pid = Some Connected \<Longrightarrow> m pid = Some Connected \<or> ev \<in> {JoinOf pid, HelloFrom pid, AckFrom pid}"
    using path_cons.hyps(1) by cases (auto split: if_splits dest: spec [of _ pid])
  with path_cons show ?case by auto
qed simp

lemma opens_as_clock [simp]: "opens_as (E\<lparr>clock := t\<rparr>) = opens_as E"
  by (intro ext) (simp add: opens_as_def open_packet_def)

lemma granted_clock [simp]: "granted (E\<lparr>clock := t\<rparr>) nd d ev = granted E nd d ev"
  by (cases ev) simp_all

text \<open>The datagrams of a run that pay for an event.\<close>

definition paid :: "env \<Rightarrow> turn_input list \<Rightarrow> link_event \<Rightarrow> bool" where
  "paid E inputs ev \<longleftrightarrow> ev = Silent \<or> ev = Expiry \<or>
     (\<exists>i \<in> set inputs. \<exists>d src nd. in_datagram i = Some (d, src) \<and> granted E nd d ev)"

lemma run_links:
  "\<exists>evs. link_path evs (links (the_node s)) (links (the_node (run_turns E A inputs s))) \<and> (\<forall>ev \<in> set evs. paid E inputs ev)"
proof (induction inputs arbitrary: s)
  case Nil
  show ?case by (auto intro: path_nil)
next
  case (Cons i rest)
  let ?s = "s\<lparr>the_shared := in_controls i (the_shared s)\<rparr>"
  let ?t = "loop_turn (E\<lparr>clock := at_time i\<rparr>) A (in_datagram i) (in_samples i) ?s"
  obtain ev m where ev: "link_step ev (links (the_node s)) m" "link_step Expiry m (links (the_node ?t))"
    "ev = Silent \<or> (\<exists>d src. in_datagram i = Some (d, src) \<and> granted E (the_node s) d ev)"
    using turn_links [of ?s "E\<lparr>clock := at_time i\<rparr>" A "in_datagram i" "in_samples i"] by auto
  obtain evs where evs: "link_path evs (links (the_node ?t)) (links (the_node (run_turns E A rest ?t)))" "\<forall>ev \<in> set evs. paid E rest ev"
    using Cons.IH by blast
  have pay: "paid E (i # rest) ev" "paid E (i # rest) Expiry" "\<forall>ev \<in> set evs. paid E (i # rest) ev"
    using ev(3) evs(2) by (auto simp: paid_def)
  let ?ok = "\<lambda>n. \<exists>evs. link_path evs (links (the_node s)) (links (the_node n)) \<and> (\<forall>ev \<in> set evs. paid E (i # rest) ev)"
  have "?ok s" by (intro exI [of _ "[]"]) (simp add: path_nil)
  moreover have "?ok ?t" using ev(1,2) pay by (intro exI [of _ "[ev, Expiry]"]) (auto intro: path_cons path_nil)
  moreover have "?ok (run_turns E A rest ?t)"
    using ev(1,2) evs(1) pay by (intro exI [of _ "ev # Expiry # evs"]) (auto intro: path_cons)
  ultimately show ?case by (cases "in_running i"; cases "panicked ?t") (simp_all add: Let_def)
qed

section \<open>Properties\<close>

text \<open>C3. A session is a run of the connection machine: whatever it receives, captures and is told, the
  states of its peers change along a path of the abstract machine (a JOIN or a HELLO connects, an
  acknowledgement connects a known peer, a roster greets, a timeout parts a connected peer, nothing
  is ever forgotten), and every event of the path but the timeouts is paid for with a datagram of
  the run that opens under the pre-shared key as a packet of that type from that peer.\<close>

theorem session_refines_links:
  "\<exists>evs. link_path evs (links (the_node s)) (links (the_node (run_turns E A inputs s))) \<and>
    list_all (paid E inputs) evs"
  unfolding list_all_iff by (rule run_links)

text \<open>C4. Nobody is connected without the passphrase: at the end of any run of a session, every peer in the
  state \<^verbatim>\<open>Connected\<close> was let in by a datagram of the run that opens under the key derived from the
  passphrase, a JOIN or a HELLO or HELLO_ACK naming that peer.\<close>

theorem connections_authentic:
  assumes "session_run P A inputs ss = (r, Some s, calls)" "length (session_random P) = 8"
    and "get_peer pid (peer_mgr (the_node s)) = Some p" "state p = Connected"
  shows "\<exists>key i d src sid h pt. derive_key_from_passphrase (prims (base_env P)) (passphrase (the_config ss)) = Ok key \<and>
    i \<in> set inputs \<and> in_datagram i = Some (d, src) \<and>
    (opens_as ((base_env P)\<lparr>psk := key\<rparr>) d sid PKT_JOIN h pt \<or>
     (opens_as ((base_env P)\<lparr>psk := key\<rparr>) d sid PKT_HELLO h pt \<or> opens_as ((base_env P)\<lparr>psk := key\<rparr>) d sid PKT_HELLO_ACK h pt) \<and>
      peer_id h = pid)"
proof -
  from assms(1) obtain E s0 cs ps w where st: "start_up P (the_config ss) (shared ss) = (Ok (E, s0, cs, ps), w)"
    and s: "s = run_turns E A inputs s0"
    by (auto simp: session_run_def Let_def split: prod.splits outcome.splits)
  from start_up_Ok [OF st assms(2)] obtain key where
    key: "derive_key_from_passphrase (prims (base_env P)) (passphrase (the_config ss)) = Ok key" "psk E = key" by blast
  from st start_up_cases [of P "the_config ss" "shared ss"] obtain key' sock sh' where
    o: "open_session P (the_config ss) sock sh' key' (initial_node (the_config ss) key' (session_random P)) = Ok (E, s0, cs, ps)" by auto
  have "links (initial_node (the_config ss) key' (session_random P)) = Map.empty"
    by (simp add: links_def initial_node_def Let_def new_host_def new_joiner_def get_peer_def)
  then have "links (snd (join_host E (the_config ss) (initial_node (the_config ss) key' (session_random P)))) = Map.empty"
    by (auto simp: join_host_def send_join_def intro!: links_attempt_eq split: option.splits)
  then have s0: "links (the_node s0) pid = None" using open_session_Ok(2) [OF o] by simp
  have pr: "prims E = prims (base_env P)" using open_session_Ok(1) [OF o] by simp
  then have op: "opens_as E = opens_as ((base_env P)\<lparr>psk := key\<rparr>)"
    using key(2) by (intro ext) (simp add: opens_as_def open_packet_def)
  obtain evs where evs: "link_path evs (links (the_node s0)) (links (the_node s))" "\<forall>ev \<in> set evs. paid E inputs ev"
    using run_links [of s0 E A inputs] by (auto simp: s)
  have "links (the_node s) pid = Some Connected" using assms(3,4) by (simp add: links_def)
  from link_path_connected [OF evs(1) this] s0 evs(2)
  have "paid E inputs (JoinOf pid) \<or> paid E inputs (HelloFrom pid) \<or> paid E inputs (AckFrom pid)" by auto
  then show ?thesis using key(1) unfolding paid_def granted.simps op by blast
qed

theorem connections_authentic_witness:
  "\<exists>w r s calls key sid h pt. session_run demo_platform demo_audio_env
       [\<lparr>in_running = True, at_time = 1000, in_recv = Arrives w (demo_addr 5001), in_samples = [], in_controls = (\<lambda>sh. sh)\<rparr>]
       (session_new demo_config) = (r, Some s, calls) \<and>
     map_option state (get_peer 1 (peer_mgr (the_node s))) = Some Connected \<and>
     (\<exists>ty. opens_as (demo_env\<lparr>psk := key\<rparr>) w sid ty h pt)"
proof -
  obtain E s0 cs ps wd where st: "start_up demo_platform demo_config (shared (session_new demo_config)) = (Ok (E, s0, cs, ps), wd)"
    using demo_starts by blast
  with start_up_cases [of demo_platform demo_config "shared (session_new demo_config)"] obtain key sock sh where
    o: "open_session demo_platform demo_config sock sh key (initial_node demo_config key (session_random demo_platform)) = Ok (E, s0, cs, ps)" by auto
  have E: "E = demo_env\<lparr>psk := key, key_pair := key_exchange_new demo_prims [3]\<rparr>"
    using open_session_Ok(1) [OF o] by (simp add: demo_platform_def demo_env_def)
  then have ok: "env_ok (E\<lparr>clock := 1000\<rparr>)" using demo_env_ok by (simp add: env_ok_def)
  have nd: "the_node s0 = fresh_host key (replicate 8 7)"
    using open_session_Ok(2) [OF o]
    by (auto simp: join_host_def demo_config_def initial_node_def fresh_host_def demo_platform_def Let_def)
  let ?h = "header_to_bytes (packet_header_new PKT_JOIN 0 0 0)" and ?E = "E\<lparr>clock := 1000\<rparr>"
  obtain c where c: "encrypt (prims ?E) (crypto_context_new key ZERO_SESSION) ?h (join_to_bytes \<lparr>listen_port = 1\<rparr>) 0 0 0 = Ok c"
    using env_ok_seal [OF ok] by metis
  let ?i = "\<lparr>in_running = True, at_time = 1000, in_recv = Arrives (?h @ c) (demo_addr 5001), in_samples = [], in_controls = (\<lambda>sh. sh)\<rparr>"
  let ?t = "loop_turn ?E demo_audio_env (Some (?h @ c, demo_addr 5001)) [] s0"
  have e: "psk ?E = key" "local_address ?E = Some (demo_addr 5000)" "\<not> is_unspecified (addr_ip (demo_addr 5000))" "iterates (peer_iter ?E)"
    by (simp_all add: E demo_env_def demo_addr_def iterates_rev)
  obtain p c' where p: "state p = Connected" and inc: "handle_incoming ?E (?h @ c) (demo_addr 5001) (fresh_host key (replicate 8 7)) =
       (Ok (), (fresh_host key (replicate 8 7))\<lparr>peer_mgr := (new_host (replicate 8 7))\<lparr>peers := [(1, p)],
            addr_to_id := [demo_addr 5001 \<mapsto> 1], next_peer_id := 2\<rparr>,
          outbox := [(header_to_bytes (packet_header_new PKT_PEER_LIST 0 0 0) @ c', demo_addr 5001)]\<rparr>)"
    using host_answers_join [OF ok e c, of "demo_addr 5001" "replicate 8 7"] by blast
  have z: "as_secs_f64 0 = Fin 0" by (rule as_secs_f64_cases [of 0]) simp_all
  have t0: "last_keepalive (the_timers s0) = 1000"
    using o by (auto simp: open_session_def Let_def and_then_eq_Ok demo_platform_def demo_env_def join_host_def demo_config_def)
  let ?r = "receive_part ?E (Some (?h @ c, demo_addr 5001)) (sync_controls s0)"
  have r: "links (the_node ?r) 1 = Some Connected" "\<not> panicked ?r" "the_timers ?r = the_timers s0"
    using p inc by (simp_all add: receive_part_def sync_controls_def Let_def nd links_def get_peer_def)
  have "the_timers (playout_part ?E (capture_part ?E demo_audio_env [] ?r)) = (the_timers s0)\<lparr>last_playout := x\<rparr> \<or>
      the_timers (playout_part ?E (capture_part ?E demo_audio_env [] ?r)) = the_timers s0" if "x = 1000" for x
    using r(3) that by (auto simp: playout_part_def capture_part_def split: prod.splits)
  then have "last_keepalive (the_timers (playout_part ?E (capture_part ?E demo_audio_env [] ?r))) = 1000" using t0 by fastforce
  then have "links (the_node ?t) 1 = Some Connected"
    using r by (simp add: loop_turn_def Let_def links_parts keepalive_part_def z)
  moreover have "length (?h @ c) \<le> MAX_PACKET_LEN"
    using c by (auto simp: encrypt_def ok_or_eq_Ok E demo_env_def demo_prims_def demo_tag_def join_to_bytes_def
        u16_to_be_bytes_def header_length HEADER_LEN_def MAX_PACKET_LEN_def)
  then have dg: "in_datagram ?i = Some (?h @ c, demo_addr 5001)" by (simp add: in_datagram_def)
  then have "the_node (run_turns E demo_audio_env [?i] s0) = the_node ?t" by (simp add: Let_def)
  ultimately obtain q where q: "get_peer 1 (peer_mgr (the_node (run_turns E demo_audio_env [?i] s0))) = Some q" "state q = Connected"
    by (auto simp: links_def)
  obtain r calls where run: "session_run demo_platform demo_audio_env [?i] (session_new demo_config) =
      (r, Some (run_turns E demo_audio_env [?i] s0), calls)"
    using st by (simp add: session_run_def session_new_def Let_def)
  have "length (session_random demo_platform) = 8" by (simp add: demo_platform_def)
  from connections_authentic [OF run this q] dg obtain key sid h pt ty where "opens_as (demo_env\<lparr>psk := key\<rparr>) (?h @ c) sid ty h pt"
    by (auto simp: demo_platform_def simp del: run_turns.simps)
  moreover have "map_option state (get_peer 1 (peer_mgr (the_node (run_turns E demo_audio_env [?i] s0)))) = Some Connected"
    using q by simp
  ultimately show ?thesis using run by blast
qed

end
