(* ===== verification/Parted.thy ===== *)
theory Parted
  imports Nonces Links
begin

text \<open>
  Two sessions that have lost sight of each other. A greeting is only ever sent for a greeting received,
  but for the first JOIN, and nothing but a greeting ends the state \<^verbatim>\<open>Disconnected\<close>: so a pair that was
  parted by ten seconds of silence stays parted, however long the network works again.
\<close>

section \<open>Greetings\<close>

definition is_greeting :: "bytes \<Rightarrow> bool" where
  "is_greeting w \<longleftrightarrow> (\<exists>h. datagram_header w = Some h \<and> pkt_type h \<in> set greeting_types)"

lemma is_greeting_wire: "is_greeting (header_to_bytes h @ ct) \<longleftrightarrow> pkt_type h \<in> set greeting_types"
  by (simp add: is_greeting_def datagram_header_def header_from_to)

text \<open>What was sent since the outbox was \<open>ob\<close> has no greeting in it.\<close>

definition ungreeting :: "(bytes \<times> socket_addr) list \<Rightarrow> node \<Rightarrow> bool" where
  "ungreeting ob nd \<longleftrightarrow> (\<exists>new. outbox nd = ob @ new \<and> (\<forall>(w, a) \<in> set new. \<not> is_greeting w))"

lemma ungreeting_send:
  "ungreeting ob nd \<Longrightarrow> seal E ctx ty lid sn c m = Ok w \<Longrightarrow> ty \<notin> set greeting_types \<Longrightarrow> ungreeting ob (snd (send_to E w a nd))"
  by (auto simp: ungreeting_def send_to_def seal_Ok is_greeting_wire packet_header_new_def)

lemma ungreeting_frame: "ungreeting ob nd \<Longrightarrow> outbox nd' = outbox nd \<Longrightarrow> ungreeting ob nd'"
  by (simp add: ungreeting_def)

lemma greeting_types_other [simp]:
  "PKT_KEY_EXCHANGE \<notin> set greeting_types" "PKT_AUDIO \<notin> set greeting_types"
  "ty \<in> set counted_types \<Longrightarrow> ty \<notin> set greeting_types"
  by (auto simp: greeting_types_def counted_types_def pkt_defs)

interpretation quiet_law: outbox_law "ungreeting ob" "\<lambda>_. True" "\<lambda>_. True" "\<lambda>_. True" "\<lambda>ty. ty \<notin> set greeting_types" for ob
proof (unfold_locales, goal_cases)
  case (5 E nd cause ty m ctx lid w a)
  then show ?case by (auto simp: answers_def greeting_types_def)
next
  case (6 E nd pid p m ctx lid w a)
  have "ungreeting ob (snd (send_to E w a nd))" by (rule ungreeting_send [OF 6(2,6)]) simp
  then show ?case by (rule ungreeting_frame) simp
next
  case (8 E nd c ctx ty sn m lid w a)
  have "ungreeting ob (nd\<lparr>crypto_ctx := ctx\<rparr>)" using 8(2) by (rule ungreeting_frame) simp
  from this 8(7) show ?case by (rule ungreeting_send) (use 8(4) in simp)
next
  case (10 E nd pid p m ctx lid sn c w a)
  from 10(2,6) show ?case by (rule ungreeting_send) simp
qed (auto simp: set_identity_def elim: ungreeting_frame)

section \<open>A pair of sessions\<close>

text \<open>Either of the two takes a turn, with nothing received or with a datagram that the other one has
  sent since its outbox was \<open>oA\<close> or \<open>oB\<close>, in any order and as often as the network likes.\<close>

definition since :: "(bytes \<times> socket_addr) list \<Rightarrow> session_state \<Rightarrow> (bytes \<times> socket_addr) option \<Rightarrow> bool" where
  "since ob s received \<longleftrightarrow> (\<forall>d src. received = Some (d, src) \<longrightarrow> (\<exists>dst. (d, dst) \<in> set (drop (length ob) (outbox (the_node s)))))"

inductive pair_step ::
  "bytes \<Rightarrow> (bytes \<times> socket_addr) list \<Rightarrow> (bytes \<times> socket_addr) list \<Rightarrow>
     session_state \<times> session_state \<Rightarrow> session_state \<times> session_state \<Rightarrow> bool" for key oA oB where
  turn_A: "psk E = key \<Longrightarrow> iterates (ping_iter E) \<Longrightarrow> since oB sB received \<Longrightarrow>
    pair_step key oA oB (sA, sB) (loop_turn E A received popped sA, sB)"
| turn_B: "psk E = key \<Longrightarrow> iterates (ping_iter E) \<Longrightarrow> since oA sA received \<Longrightarrow>
    pair_step key oA oB (sA, sB) (sA, loop_turn E A received popped sB)"

definition parted :: "bytes \<Rightarrow> (bytes \<times> socket_addr) list \<Rightarrow> u8 \<Rightarrow> session_state \<Rightarrow> bool" where
  "parted key ob pid s \<longleftrightarrow> reach (session_start key) (session_step key) s \<and>
     links (the_node s) pid = Some Disconnected \<and> ungreeting ob (the_node s)"

text \<open>Silence and timeouts leave a parted peer parted.\<close>

lemma parted_links:
  assumes "links (the_node s) pid = Some Disconnected" "\<And>d src. received = Some (d, src) \<Longrightarrow> \<not> is_greeting d"
  shows "links (the_node (loop_turn E A received popped s)) pid = Some Disconnected"
proof -
  obtain ev m where ev: "link_step ev (links (the_node s)) m" "link_step Expiry m (links (the_node (loop_turn E A received popped s)))"
    "ev = Silent \<or> (\<exists>d src. received = Some (d, src) \<and> granted E (the_node s) d ev)"
    using turn_links by blast
  have "granted E (the_node s) d ev \<Longrightarrow> \<not> is_greeting d \<Longrightarrow> ev = Silent" for d
    by (cases ev) (auto simp: opens_as_def is_greeting_wire greeting_types_def)
  then have "ev = Silent" using ev(3) assms(2) by blast
  with ev(1) have "m = links (the_node s)" by (auto elim: link_stepE)
  with ev(2) assms(1) show ?thesis by (auto elim!: link_stepE dest: spec [of _ pid])
qed

lemma parted_turn:
  assumes "parted key ob pid s" "ungreeting ob' (the_node s')" "psk E = key" "iterates (ping_iter E)" "since ob' s' received"
  shows "parted key ob pid (loop_turn E A received popped s)"
proof -
  have quiet: "\<not> is_greeting d" if "received = Some (d, src)" for d src
    using assms(2,5) that by (auto simp: since_def ungreeting_def)
  have r: "reach (session_start key) (session_step key) s" using assms(1) by (simp add: parted_def)
  have "node_inv key (the_node s)" using session_sys.reach_inv [OF r] by simp
  then have "ungreeting ob (the_node (loop_turn E A received popped s))"
    using assms(1) quiet by (intro quiet_law.turn_law [where key = key]) (auto simp: parted_def is_greeting_wire)
  moreover have "links (the_node (loop_turn E A received popped s)) pid = Some Disconnected"
    using assms(1) quiet by (intro parted_links) (auto simp: parted_def)
  moreover have "reach (session_start key) (session_step key) (loop_turn E A received popped s)"
    using r step_turn [OF assms(3,4)] by (rule reach_step)
  ultimately show ?thesis by (simp add: parted_def)
qed

interpretation parted_sys: invariant_system
  "\<lambda>s. parted key oA idB (fst s) \<and> parted key oB idA (snd s)" "pair_step key oA oB"
  "\<lambda>s. parted key oA idB (fst s) \<and> parted key oB idA (snd s)" for key oA oB idA idB
proof (unfold_locales, goal_cases)
  case (2 s t)
  have quiet: "parted key ob pid u \<Longrightarrow> ungreeting ob (the_node u)" for ob pid u by (simp add: parted_def)
  from 2(2) show ?case
  proof cases
    case (turn_A E sB received sA A popped)
    then have p: "parted key oA idB sA" "parted key oB idA sB" using 2(1) by simp_all
    from parted_turn [OF p(1) quiet [OF p(2)] turn_A(3,4,5)] p(2) show ?thesis by (simp add: turn_A(2))
  next
    case (turn_B E sA received sB A popped)
    then have p: "parted key oA idB sA" "parted key oB idA sB" using 2(1) by simp_all
    from parted_turn [OF p(2) quiet [OF p(1)] turn_B(3,4,5)] p(1) show ?thesis by (simp add: turn_B(2))
  qed
qed simp

section \<open>Properties\<close>

text \<open>C29. Parted for good: once two sessions have each taken the other for gone, then whatever turns they take,
  with whatever they capture and whatever the clocks say, and whichever of the datagrams they send each
  other from then on arrive, in any order and any number, each still has the other as disconnected.\<close>

theorem parted_for_good:
  assumes "reach (session_start key) (session_step key) sA" "reach (session_start key) (session_step key) sB"
    and "links (the_node sA) idB = Some Disconnected" "links (the_node sB) idA = Some Disconnected"
    and "(pair_step key (outbox (the_node sA)) (outbox (the_node sB)))\<^sup>*\<^sup>* (sA, sB) (sA', sB')"
  shows "links (the_node sA') idB = Some Disconnected \<and> links (the_node sB') idA = Some Disconnected"
proof -
  have "ungreeting (outbox nd) nd" for nd by (simp add: ungreeting_def)
  with parted_sys.steps_inv [OF assms(5), where idA = idA and idB = idB] assms(1-4) show ?thesis
    by (simp add: parted_def)
qed

text \<open>A host that nobody answers: a joiner enters at time 0 and is gone at the 20th second.\<close>

lemma last_seen_playout:
  "get_peer pid (peer_mgr nd) = Some p \<Longrightarrow> state p = Connected \<Longrightarrow>
     \<exists>q. get_peer pid (peer_mgr (snd (playout_step E nd))) = Some q \<and> last_seen q = last_seen p \<and> state q = Connected"
  by (simp add: playout_step_def Let_def get_peer_def map_of_map playout_peer_def split: prod.splits option.splits)

lemma keepalive_times_out:
  assumes "get_peer pid (peer_mgr nd) = Some p" "state p = Connected" "clock E = last_seen p + 11000000000"
  shows "links (keepalive_step E nd) pid = Some Disconnected"
proof -
  have "peer_mgr (keepalive_to E lid dst n) = peer_mgr n" for lid dst n
    by (auto simp: keepalive_to_def send_sealed_def send_to_def split: prod.splits outcome.splits)
  then have "peer_mgr (foldl (\<lambda>nd dst. keepalive_to E lid dst nd) nd xs) = peer_mgr nd" for lid xs
    by (induction xs arbitrary: nd) simp_all
  moreover have "is_timed_out (clock E) p" using timed_out_iff [of "clock E" p] assms(3) by simp
  ultimately show ?thesis using assms(1,2) by (simp add: keepalive_step_def Let_def links_def get_check_timeouts)
qed

lemma turn_times_out:
  assumes "get_peer pid (peer_mgr (the_node s)) = Some p" "state p = Connected" "clock E = last_seen p + 11000000000"
    and "capture_accum (the_capture s) = []" "last_keepalive (the_timers s) = 0" "\<not> panicked s" "last_seen p = 0"
  shows "links (the_node (loop_turn E A None [] s)) pid = Some Disconnected"
proof -
  let ?c = "capture_part E A [] (sync_controls s)" let ?u = "playout_part E ?c"
  have sync: "the_node (sync_controls s) = the_node s" "the_timers (sync_controls s) = the_timers s" "panicked (sync_controls s) = panicked s"
    "capture_accum (the_capture (sync_controls s)) = []"
    using assms(4) by (simp_all add: sync_controls_def Let_def)
  have c: "the_node ?c = the_node s" "the_timers ?c = the_timers s" using capture_idle [OF sync(4), of E A] sync by simp_all
  obtain q where q: "get_peer pid (peer_mgr (the_node ?u)) = Some q" "last_seen q = last_seen p" "state q = Connected"
  proof (cases "FRAME_DURATION_US * 1000 \<le> clock E - last_playout (the_timers s)")
    case True
    then have "the_node ?u = snd (playout_step E (the_node s))" by (simp add: playout_part_def c split: prod.splits)
    with last_seen_playout [OF assms(1,2), of E] that show ?thesis by auto
  next
    case False
    then have "the_node ?u = the_node s" by (simp add: playout_part_def c)
    with assms(1,2) that show ?thesis by simp
  qed
  have k: "last_keepalive (the_timers ?u) = 0" using assms(5) c by (simp add: playout_part_def split: prod.splits)
  have "clock E = 11000000000" using assms(3,7) by simp
  moreover obtain v where "as_secs_f64 11000000000 = Fin v" "of_nat (11000000000 div 1000000000) \<le> v"
    by (rule as_secs_f64_cases [of 11000000000]) simp_all
  ultimately have "Fin 1 \<le> as_secs_f64 (clock E)" by simp
  then have "links (the_node (keepalive_part E ?u)) pid = Some Disconnected"
    using keepalive_times_out [OF q(1,3)] assms(3) q(2) k by (simp add: keepalive_part_def)
  then show ?thesis using assms(6) sync by (simp add: loop_turn_def Let_def links_parts receive_part_def)
qed

theorem parted_for_good_witness:
  "\<exists>s. reach (session_start (replicate 32 5)) (session_step (replicate 32 5)) s \<and> links (the_node s) 1 = Some Disconnected \<and>
     links (the_node (loop_turn demo_env demo_audio_env None [] s)) 1 = Some Disconnected"
proof -
  let ?key = "replicate 32 5 :: bytes"
  obtain s1 p where r1: "reach (session_start ?key) (session_step ?key) s1"
    and inc: "get_peer 1 (peer_mgr (the_node s1)) = Some p" and p: "state p = Connected" "last_seen p = 0"
    and s1: "capture_accum (the_capture s1) = []" "last_keepalive (the_timers s1) = 0" "\<not> panicked s1"
    by (rule demo_joined) (simp add: timers_zero_def)
  let ?s2 = "loop_turn (demo_env\<lparr>clock := last_seen p + 11000000000\<rparr>) demo_audio_env None [] s1"
  have "session_step ?key s1 ?s2" by (auto intro!: step_turn simp: demo_env_def iterates_rev)
  with r1 have r: "reach (session_start ?key) (session_step ?key) ?s2" by (rule reach_step)
  have l: "links (the_node ?s2) 1 = Some Disconnected"
    by (rule turn_times_out [OF inc p(1)]) (use s1 p(2) in simp_all)
  have "pair_step ?key oA oB (?s2, ?s2) (loop_turn demo_env demo_audio_env None [] ?s2, ?s2)" for oA oB
    by (intro turn_A) (simp_all add: demo_env_def iterates_rev since_def)
  then have "(pair_step ?key (outbox (the_node ?s2)) (outbox (the_node ?s2)))\<^sup>*\<^sup>* (?s2, ?s2) (loop_turn demo_env demo_audio_env None [] ?s2, ?s2)"
    by (rule r_into_rtranclp)
  from parted_for_good [OF r r l l this] r l show ?thesis by blast
qed

end
