(* ===== verification/Loopback.thy ===== *)
theory Loopback
  imports Audio Capture
begin

text \<open>
  The loopback test, \<^verbatim>\<open>run_loopback\<close> in \<^verbatim>\<open>vc-core/src/lib.rs\<close>: captured samples go through noise
  suppression, the encoder and the decoder straight to the playout buffer.
\<close>

section \<open>State and steps\<close>

record loopback =
  lb_encoder :: encoder
  lb_decoder :: decoder
  lb_suppressor :: noise_suppressor
  lb_accum :: "fl list"
  lb_out :: "fl list list"

definition loopback_new :: "audio_host \<Rightarrow> opus_prims \<Rightarrow> string option \<Rightarrow> string option \<Rightarrow> bool \<Rightarrow> loopback outcome" where
  "loopback_new H opus input_dev output_dev noise_suppression =
     and_then (start_capture H input_dev) (\<lambda>_.
     and_then (start_playout H output_dev) (\<lambda>_.
     and_then (encoder_new opus) (\<lambda>en.
     and_then (decoder_new opus) (\<lambda>de.
     Ok \<lparr>lb_encoder = en, lb_decoder = de, lb_suppressor = set_enabled noise_suppression noise_suppressor_new,
         lb_accum = [], lb_out = []\<rparr>))))"

text \<open>One chunk: encode, decode, hand over; errors are logged.\<close>

definition loopback_chunk :: "opus_prims \<Rightarrow> fl list \<Rightarrow> loopback \<Rightarrow> loopback" where
  "loopback_chunk opus chunk lb =
     (case opus_encode_frame opus (lb_encoder lb) (f32_to_i16 chunk) of (r, en) \<Rightarrow>
      let lb = lb\<lparr>lb_encoder := en\<rparr> in
      case r of
        Ok opus_data \<Rightarrow>
          (case opus_decode_packet opus (lb_decoder lb) opus_data of (d, de) \<Rightarrow>
           let lb = lb\<lparr>lb_decoder := de\<rparr> in
           case d of Ok decoded \<Rightarrow> lb\<lparr>lb_out := lb_out lb @ [i16_to_f32 decoded]\<rparr> | _ \<Rightarrow> lb)
      | _ \<Rightarrow> lb)"

function loopback_chunks :: "opus_prims \<Rightarrow> fl list \<Rightarrow> loopback \<Rightarrow> loopback" where
  "loopback_chunks opus xs lb =
     (if length xs < FRAME_SAMPLES then lb
      else loopback_chunks opus (drop FRAME_SAMPLES xs) (loopback_chunk opus (take FRAME_SAMPLES xs) lb))"
  by pat_completeness auto

termination
  by (relation "measure (\<lambda>(_, xs, _). length xs)") (auto simp: FRAME_SAMPLES_def)

definition loopback_frame :: "denoise \<Rightarrow> opus_prims \<Rightarrow> fl list \<Rightarrow> loopback \<Rightarrow> loopback" where
  "loopback_frame dn opus frame lb =
     (case ns_process dn (lb_suppressor lb) frame of (processed, ns) \<Rightarrow>
      let lb = lb\<lparr>lb_suppressor := ns\<rparr> in
      case processed of Some denoised \<Rightarrow> loopback_chunks opus denoised lb | None \<Rightarrow> lb)"

function loopback_drain :: "denoise \<Rightarrow> opus_prims \<Rightarrow> fl list \<Rightarrow> loopback \<Rightarrow> loopback" where
  "loopback_drain dn opus xs lb =
     (if length xs < FRAME_SAMPLES then lb\<lparr>lb_accum := xs\<rparr>
      else loopback_drain dn opus (drop FRAME_SAMPLES xs) (loopback_frame dn opus (take FRAME_SAMPLES xs) lb))"
  by pat_completeness auto

termination
  by (relation "measure (\<lambda>(_, _, xs, _). length xs)") (auto simp: FRAME_SAMPLES_def)

declare loopback_chunks.simps [simp del] loopback_drain.simps [simp del]

definition loopback_turn :: "denoise \<Rightarrow> opus_prims \<Rightarrow> fl list \<Rightarrow> loopback \<Rightarrow> loopback" where
  "loopback_turn dn opus popped lb = loopback_drain dn opus (lb_accum lb @ popped) lb"

text \<open>The turns until the test is stopped, one batch of captured samples each.\<close>

definition run_loopback ::
  "audio_host \<Rightarrow> denoise \<Rightarrow> opus_prims \<Rightarrow> string option \<Rightarrow> string option \<Rightarrow> bool \<Rightarrow> fl list list \<Rightarrow> loopback outcome" where
  "run_loopback H dn opus input_dev output_dev noise_suppression batches =
     and_then (loopback_new H opus input_dev output_dev noise_suppression)
       (\<lambda>lb. Ok (foldl (\<lambda>lb popped. loopback_turn dn opus popped lb) lb batches))"

section \<open>The loops as folds\<close>

interpretation loopback_inner: chunk_loop FRAME_SAMPLES "loopback_chunk opus" "\<lambda>_ lb. lb" "loopback_chunks opus"
  for opus
  by unfold_locales (simp_all add: FRAME_SAMPLES_def loopback_chunks.simps [of opus])

interpretation loopback_outer: chunk_loop FRAME_SAMPLES "loopback_frame dn opus" "\<lambda>rest lb. lb\<lparr>lb_accum := rest\<rparr>"
    "loopback_drain dn opus"
  for dn opus
  by unfold_locales (simp_all add: FRAME_SAMPLES_def loopback_drain.simps [of dn opus])

lemma loopback_chunk_accum:
  "loopback_chunk opus c (lb\<lparr>lb_accum := xs\<rparr>) = (loopback_chunk opus c lb)\<lparr>lb_accum := xs\<rparr>"
  by (simp add: loopback_chunk_def Let_def split: prod.splits outcome.splits)

lemma loopback_frame_accum:
  "loopback_frame dn opus c (lb\<lparr>lb_accum := xs\<rparr>) = (loopback_frame dn opus c lb)\<lparr>lb_accum := xs\<rparr>"
proof -
  have "foldl (\<lambda>s c. loopback_chunk opus c s) (lb\<lparr>lb_accum := xs\<rparr>) cs =
      (foldl (\<lambda>s c. loopback_chunk opus c s) lb cs)\<lparr>lb_accum := xs\<rparr>" for cs lb
    by (induction cs arbitrary: lb) (simp_all add: loopback_chunk_accum)
  then have "loopback_chunks opus zs (lb\<lparr>lb_accum := xs\<rparr>) = (loopback_chunks opus zs lb)\<lparr>lb_accum := xs\<rparr>" for zs lb
    by (simp add: loopback_inner.loop_fold)
  note chunks = this
  obtain r ns where p: "ns_process dn (lb_suppressor lb) c = (r, ns)" by fastforce
  have c: "lb\<lparr>lb_accum := xs, lb_suppressor := ns\<rparr> = lb\<lparr>lb_suppressor := ns, lb_accum := xs\<rparr>" by simp
  show ?thesis
    using chunks [of _ "lb\<lparr>lb_suppressor := ns\<rparr>"] by (cases r) (simp_all add: loopback_frame_def p c)
qed

text \<open>A turn is the fold over the whole frames; two turns are one turn over both batches.\<close>

lemma loopback_turn_fold:
  "loopback_turn dn opus popped lb =
     (foldl (\<lambda>s c. loopback_frame dn opus c s) lb (chunks_exact FRAME_SAMPLES (lb_accum lb @ popped)))
       \<lparr>lb_accum := drop (length (lb_accum lb @ popped) div FRAME_SAMPLES * FRAME_SAMPLES) (lb_accum lb @ popped)\<rparr>"
  by (simp add: loopback_turn_def loopback_outer.loop_fold)

lemma loopback_turn_turn:
  "loopback_turn dn opus late (loopback_turn dn opus early lb) = loopback_turn dn opus (early @ late) lb"
proof -
  let ?xs = "lb_accum lb @ early"
  let ?rest = "drop (length ?xs div FRAME_SAMPLES * FRAME_SAMPLES) ?xs"
  let ?lb = "foldl (\<lambda>s c. loopback_frame dn opus c s) lb (chunks_exact FRAME_SAMPLES ?xs)"
  have "loopback_turn dn opus late (loopback_turn dn opus early lb) =
      loopback_drain dn opus (?rest @ late) (?lb\<lparr>lb_accum := ?rest\<rparr>)"
    by (simp only: loopback_turn_fold [of dn opus early lb]) (simp add: loopback_turn_def)
  also have "\<dots> = loopback_drain dn opus (?xs @ late) lb"
    by (rule loopback_outer.loop_slices [where put = "\<lambda>lb. lb\<lparr>lb_accum := ?rest\<rparr>"])
      (simp_all add: loopback_frame_accum)
  finally show ?thesis by (simp add: loopback_turn_def)
qed

lemma loopback_turns: "foldl (\<lambda>lb p. loopback_turn dn opus p lb) lb (b # bs) = loopback_turn dn opus (concat (b # bs)) lb"
proof (induction bs arbitrary: b)
  case (Cons c bs)
  have "foldl (\<lambda>lb p. loopback_turn dn opus p lb) lb (b # c # bs) =
      foldl (\<lambda>lb p. loopback_turn dn opus p lb) lb ((b @ c) # bs)"
    by (simp add: loopback_turn_turn)
  then show ?case using Cons [of "b @ c"] by simp
qed simp

section \<open>Without noise suppression\<close>

text \<open>The reference: encode and decode frame after frame.\<close>

fun codec_roundtrip :: "opus_prims \<Rightarrow> encoder \<Rightarrow> decoder \<Rightarrow> i16 list list \<Rightarrow> i16 list list" where
  "codec_roundtrip opus en de [] = []"
| "codec_roundtrip opus en de (pcm # rest) =
     (case opus_encode_frame opus en pcm of
        (Ok d, en) \<Rightarrow>
          (case opus_decode_packet opus de d of
             (Ok out, de) \<Rightarrow> out # codec_roundtrip opus en de rest
           | (_, de) \<Rightarrow> codec_roundtrip opus en de rest)
      | (_, en) \<Rightarrow> codec_roundtrip opus en de rest)"

lemma loopback_frame_plain:
  assumes "\<not> enabled (lb_suppressor lb)" "length c = FRAME_SAMPLES"
  shows "loopback_frame dn opus c lb = loopback_chunk opus c lb"
  using assms
  by (simp add: loopback_frame_def ns_process_def loopback_chunks.simps [of opus c] loopback_chunks.simps [of opus "[]"]
      FRAME_SAMPLES_def)

lemma loopback_chunk_suppressor [simp]: "lb_suppressor (loopback_chunk opus c lb) = lb_suppressor lb"
  by (simp add: loopback_chunk_def Let_def split: prod.splits outcome.splits)

lemma loopback_fold_plain:
  assumes "\<not> enabled (lb_suppressor lb)" "\<forall>c \<in> set cs. length c = FRAME_SAMPLES"
  shows "lb_out (foldl (\<lambda>s c. loopback_frame dn opus c s) lb cs) =
    lb_out lb @ map i16_to_f32 (codec_roundtrip opus (lb_encoder lb) (lb_decoder lb) (map f32_to_i16 cs))"
  using assms
proof (induction cs arbitrary: lb)
  case (Cons c cs)
  have "lb_out (foldl (\<lambda>s c. loopback_frame dn opus c s) lb (c # cs)) =
      lb_out (foldl (\<lambda>s c. loopback_frame dn opus c s) (loopback_chunk opus c lb) cs)"
    using Cons.prems by (simp add: loopback_frame_plain)
  also have "\<dots> = lb_out (loopback_chunk opus c lb) @ map i16_to_f32 (codec_roundtrip opus
      (lb_encoder (loopback_chunk opus c lb)) (lb_decoder (loopback_chunk opus c lb)) (map f32_to_i16 cs))"
    using Cons by simp
  finally show ?case
    by (simp add: loopback_chunk_def Let_def split: prod.splits outcome.splits)
qed simp

lemma chunks_exact_length: "c \<in> set (chunks_exact n xs) \<Longrightarrow> length c = n"
proof (induction n xs rule: chunks_exact.induct)
  case (1 n xs)
  then show ?case by (subst (asm) chunks_exact.simps) (auto split: if_splits)
qed

section \<open>Properties\<close>

text \<open>C39. The loopback test without noise suppression plays exactly what the codec makes of the captured
  sound: however the device slices its samples into batches, the slices handed to playout are, in
  order, the decoded encodings of the successive 120-sample frames.\<close>

theorem loopback_is_codec:
  assumes "run_loopback H dn opus input_dev output_dev False batches = Ok lb"
  shows "lb_out lb = map i16_to_f32 (codec_roundtrip opus \<lparr>enc_calls = []\<rparr> \<lparr>dec_calls = []\<rparr>
    (map f32_to_i16 (chunks_exact FRAME_SAMPLES (concat batches))))"
proof -
  let ?lb = "\<lparr>lb_encoder = \<lparr>enc_calls = []\<rparr>, lb_decoder = \<lparr>dec_calls = []\<rparr>,
    lb_suppressor = set_enabled False noise_suppressor_new, lb_accum = [], lb_out = []\<rparr>"
  have lb: "lb = foldl (\<lambda>lb p. loopback_turn dn opus p lb) ?lb batches"
    using assms by (auto simp: run_loopback_def loopback_new_def and_then_eq_Ok encoder_new_def decoder_new_def split: if_splits)
  show ?thesis
  proof (cases batches)
    case Nil
    then show ?thesis by (simp add: lb chunks_exact.simps FRAME_SAMPLES_def)
  next
    case (Cons b bs)
    have "lb_out lb = lb_out (foldl (\<lambda>s c. loopback_frame dn opus c s) ?lb (chunks_exact FRAME_SAMPLES (concat batches)))"
      unfolding lb Cons loopback_turns by (simp add: loopback_turn_fold)
    then show ?thesis
      using loopback_fold_plain [of ?lb "chunks_exact FRAME_SAMPLES (concat batches)" dn opus]
      by (simp add: set_enabled_def chunks_exact_length)
  qed
qed

definition demo_loop_opus :: opus_prims where
  "demo_loop_opus = \<lparr>opus_encoder_init = True, opus_decoder_init = True,
     opus_encode = (\<lambda>h pcm n. Some [1]), opus_packet_ok = (\<lambda>d. d \<noteq> []),
     opus_decode = (\<lambda>h x n. Some [5])\<rparr>"

theorem loopback_is_codec_witness:
  "\<exists>lb. run_loopback \<lparr>input_devs = None, output_devs = None,
       default_input_device = Some \<lparr>dev_name = None, default_config = None, builds = (\<lambda>_. True), plays = (\<lambda>_. True)\<rparr>,
       default_output_device = Some \<lparr>dev_name = None, default_config = None, builds = (\<lambda>_. True), plays = (\<lambda>_. True)\<rparr>\<rparr>
     (\<lambda>h x. (x, Fin 0)) demo_loop_opus None None False [replicate 100 (Fin 0), replicate 100 (Fin 0)] = Ok lb \<and>
     lb_out lb = [i16_to_f32 [5]]"
proof -
  let ?d = "\<lparr>dev_name = None, default_config = None, builds = (\<lambda>_. True), plays = (\<lambda>_. True)\<rparr>"
  let ?H = "\<lparr>input_devs = None, output_devs = None, default_input_device = Some ?d, default_output_device = Some ?d\<rparr>"
  let ?b = "[replicate 100 (Fin 0), replicate 100 (Fin 0)]"
  obtain lb where lb: "run_loopback ?H (\<lambda>h x. (x, Fin 0)) demo_loop_opus None None False ?b = Ok lb"
    by (simp add: run_loopback_def loopback_new_def start_capture_def start_playout_def pick_device_def
        candidate_configs_def encoder_new_def decoder_new_def demo_loop_opus_def)
  have "concat ?b = replicate 200 (Fin 0)" by (simp flip: replicate_add)
  then have "chunks_exact FRAME_SAMPLES (concat ?b) = [replicate 120 (Fin 0)]"
    by (simp add: FRAME_SAMPLES_def chunks_exact.simps [of 120 "replicate _ _"] min_def)
  with loopback_is_codec [OF lb] have "lb_out lb = [i16_to_f32 [5]]"
    by (simp add: opus_encode_frame_def opus_decode_packet_def demo_loop_opus_def f32_to_i16_def FRAME_SAMPLES_def)
  with lb show ?thesis by blast
qed

end
