(* ===== verification/Tray.thy ===== *)
theory Tray
  imports Startup
begin

text \<open>
  The tray application, \<^verbatim>\<open>vc-tray/src/main.rs\<close>: the lobby with its widgets, starting a session from it,
  the screen of a running session with its controls, and the threads of the sessions started, each
  with the flag it shares with the window. The user interface draws one frame at a time and may do
  one thing per frame (\<open>frame_step\<close>); sessions run concurrently, and may fail or panic
  (\<open>thread_step\<close>): every interleaving is a history of \<open>tray_step\<close>. Layout, colours and texts that carry no state are left out.
\<close>

section \<open>State\<close>

datatype app_screen = Lobby | InSession

record lobby_config =
  lb_is_host :: bool
  lb_bind_addr :: string
  lb_host_addr :: string
  lb_passphrase :: bytes
  lb_denoise :: bool
  lb_upnp :: bool
  input_mode_idx :: nat
  input_devices :: "string list"
  output_devices :: "string list"
  selected_input :: nat
  selected_output :: nat

text \<open>A session the window has started: its thread has not run yet, runs, is over or has died of a
  panic. The flag and the shared state belong to the session and are also in the hands of the window, which refers to them
  by the session's position.\<close>

datatype thread_state = Spawned | Running | Finished | Panicked

record session_slot =
  slot_session :: session
  slot_thread :: thread_state

record tray =
  screen :: app_screen
  lobby :: lobby_config
  session_shared :: "nat option"
  running_flag :: "nat option"
  error_msg :: "error option"
  slots_of :: "session_slot list"

text \<open>\<^verbatim>\<open>VoiceChatApp::new\<close>; device lists that cannot be read are empty. The window's flag before the first
  session belongs to no session.\<close>

definition app_new :: "audio_host \<Rightarrow> tray" where
  "app_new H =
     \<lparr>screen = Lobby,
      lobby = \<lparr>lb_is_host = True, lb_bind_addr = ''0.0.0.0:4567'', lb_host_addr = ''127.0.0.1:4567'', lb_passphrase = [],
        lb_denoise = False, lb_upnp = True, input_mode_idx = 0,
        input_devices = (case list_input_devices H of Ok ds \<Rightarrow> ds | _ \<Rightarrow> []),
        output_devices = (case list_output_devices H of Ok ds \<Rightarrow> ds | _ \<Rightarrow> []),
        selected_input = 0, selected_output = 0\<rparr>,
      session_shared = None, running_flag = None, error_msg = None, slots_of = []\<rparr>"

section \<open>Starting and leaving a session\<close>

definition mode_of_idx :: "nat \<Rightarrow> input_mode" where
  "mode_of_idx i = (if i = 1 then PushToTalk else if i = 2 then VoiceActivation else AlwaysOn)"

fun idx_of_mode :: "input_mode \<Rightarrow> nat" where
  "idx_of_mode AlwaysOn = 0"
| "idx_of_mode PushToTalk = 1"
| "idx_of_mode VoiceActivation = 2"

text \<open>The device chosen in a list where 0 stands for the default one.\<close>

definition chosen_device :: "string list \<Rightarrow> nat \<Rightarrow> string option outcome" where
  "chosen_device devices selected =
     (if selected = 0 then Ok None else and_then (index devices (selected - 1)) (\<lambda>d. Ok (Some d)))"

text \<open>The configuration built from the lobby; \<open>parse\<close> is the standard library's \<^verbatim>\<open>SocketAddr::from_str\<close>.\<close>

definition lobby_session_config :: "(string \<Rightarrow> socket_addr option) \<Rightarrow> lobby_config \<Rightarrow> session_config outcome" where
  "lobby_session_config parse lb =
     and_then (ok_or AddrParseFailed (parse (lb_bind_addr lb))) (\<lambda>bind.
     and_then (if lb_is_host lb then Ok None
               else and_then (ok_or AddrParseFailed (parse (lb_host_addr lb))) (\<lambda>a. Ok (Some a))) (\<lambda>host.
     and_then (chosen_device (input_devices lb) (selected_input lb)) (\<lambda>inp.
     and_then (chosen_device (output_devices lb) (selected_output lb)) (\<lambda>outp.
     Ok \<lparr>bind_addr = bind, passphrase = lb_passphrase lb, cfg_is_host = lb_is_host lb, host_addr = host,
         input_device = inp, output_device = outp, cfg_noise_suppression = lb_denoise lb,
         cfg_input_mode = mode_of_idx (input_mode_idx lb), cfg_vad_config = vad_config_default,
         cfg_upnp = lb_is_host lb \<and> lb_upnp lb\<rparr>))))"

definition start_session :: "(string \<Rightarrow> socket_addr option) \<Rightarrow> tray \<Rightarrow> unit outcome \<times> tray" where
  "start_session parse t =
     attempt (lobby_session_config parse (lobby t)) t (\<lambda>cfg.
       (Ok (), t\<lparr>session_shared := Some (length (slots_of t)), running_flag := Some (length (slots_of t)),
          slots_of := slots_of t @ [\<lparr>slot_session = session_new cfg, slot_thread = Spawned\<rparr>],
          screen := InSession\<rparr>))"

definition upd_session :: "nat \<Rightarrow> (session \<Rightarrow> session) \<Rightarrow> tray \<Rightarrow> tray" where
  "upd_session i f t =
     t\<lparr>slots_of := (slots_of t)[i := (slots_of t ! i)\<lparr>slot_session := f (slot_session (slots_of t ! i))\<rparr>]\<rparr>"

definition disconnect :: "tray \<Rightarrow> tray" where
  "disconnect t =
     (case running_flag t of
        Some i \<Rightarrow> upd_session i session_stop t
      | None \<Rightarrow> t)\<lparr>session_shared := None, screen := Lobby\<rparr>"

section \<open>The lobby\<close>

text \<open>What the widgets of the lobby can do in one frame; the host's address can be edited only when
  joining, the port forwarding only when hosting, the lists offer what they hold, and the button is
  enabled only with a passphrase.\<close>

datatype lobby_event =
    ChooseHost bool | EditBind string | EditHost string | EditPassphrase bytes | SetDenoise bool | SetUpnp bool
  | SelectInput nat | SelectOutput nat | SelectMode nat | ClickConnect | LobbyIdle

fun lobby_offers :: "lobby_config \<Rightarrow> lobby_event \<Rightarrow> bool" where
  "lobby_offers lb (EditHost _) = (\<not> lb_is_host lb)"
| "lobby_offers lb (SetUpnp _) = lb_is_host lb"
| "lobby_offers lb (SelectInput i) = (i \<le> length (input_devices lb))"
| "lobby_offers lb (SelectOutput i) = (i \<le> length (output_devices lb))"
| "lobby_offers lb (SelectMode i) = (i \<le> 2)"
| "lobby_offers lb ClickConnect = (lb_passphrase lb \<noteq> [])"
| "lobby_offers lb _ = True"

text \<open>Drawing the lists indexes the device lists with the selections.\<close>

definition draw_lobby :: "(string \<Rightarrow> socket_addr option) \<Rightarrow> lobby_event \<Rightarrow> tray \<Rightarrow> unit outcome \<times> tray" where
  "draw_lobby parse ev t =
     attempt (chosen_device (input_devices (lobby t)) (selected_input (lobby t))) t (\<lambda>_.
     attempt (chosen_device (output_devices (lobby t)) (selected_output (lobby t))) t (\<lambda>_.
     case ev of
       ChooseHost b \<Rightarrow> (Ok (), t\<lparr>lobby := (lobby t)\<lparr>lb_is_host := b\<rparr>\<rparr>)
     | EditBind a \<Rightarrow> (Ok (), t\<lparr>lobby := (lobby t)\<lparr>lb_bind_addr := a\<rparr>\<rparr>)
     | EditHost a \<Rightarrow> (Ok (), t\<lparr>lobby := (lobby t)\<lparr>lb_host_addr := a\<rparr>\<rparr>)
     | EditPassphrase p \<Rightarrow> (Ok (), t\<lparr>lobby := (lobby t)\<lparr>lb_passphrase := p\<rparr>\<rparr>)
     | SetDenoise b \<Rightarrow> (Ok (), t\<lparr>lobby := (lobby t)\<lparr>lb_denoise := b\<rparr>\<rparr>)
     | SetUpnp b \<Rightarrow> (Ok (), t\<lparr>lobby := (lobby t)\<lparr>lb_upnp := b\<rparr>\<rparr>)
     | SelectInput i \<Rightarrow> (Ok (), t\<lparr>lobby := (lobby t)\<lparr>selected_input := i\<rparr>\<rparr>)
     | SelectOutput i \<Rightarrow> (Ok (), t\<lparr>lobby := (lobby t)\<lparr>selected_output := i\<rparr>\<rparr>)
     | SelectMode i \<Rightarrow> (Ok (), t\<lparr>lobby := (lobby t)\<lparr>input_mode_idx := i\<rparr>\<rparr>)
     | ClickConnect \<Rightarrow>
         (case start_session parse t of
            (Ok _, t) \<Rightarrow> (Ok (), t\<lparr>error_msg := None\<rparr>)
          | (Err e, t) \<Rightarrow> (Ok (), t\<lparr>error_msg := Some e\<rparr>)
          | (Panic, t) \<Rightarrow> (Panic, t))
     | LobbyIdle \<Rightarrow> (Ok (), t)))"

section \<open>The session screen\<close>

datatype session_event = ToggleDenoise bool | PickMode nat | ClickPtt | ClickDisconnect | SessionIdle

definition draw_connected :: "session_event \<Rightarrow> tray \<Rightarrow> tray" where
  "draw_connected ev t =
     (case session_shared t of
        None \<Rightarrow> t\<lparr>screen := Lobby\<rparr>
      | Some i \<Rightarrow>
          if \<not> (case running_flag t of Some k \<Rightarrow> running (slot_session (slots_of t ! k)) | None \<Rightarrow> False)
          then disconnect t
          else case ev of
            ToggleDenoise b \<Rightarrow>
              upd_session i (\<lambda>ss. ss\<lparr>shared := (shared ss)\<lparr>sh_noise_suppression := b\<rparr>\<rparr>) t
          | PickMode k \<Rightarrow>
              upd_session i (\<lambda>ss. ss\<lparr>shared := (shared ss)\<lparr>sh_input_mode := mode_of_idx k\<rparr>\<rparr>) t
          | ClickPtt \<Rightarrow>
              upd_session i (\<lambda>ss. if sh_input_mode (shared ss) = PushToTalk
                then ss\<lparr>shared := (shared ss)\<lparr>sh_ptt_active := \<not> sh_ptt_active (shared ss)\<rparr>\<rparr> else ss) t
          | ClickDisconnect \<Rightarrow> disconnect t
          | SessionIdle \<Rightarrow> t)"

text \<open>What a row of the peer list shows.\<close>

datatype colour = Green | Yellow | LightBlue | Red

fun format_peer_state :: "peer_state \<Rightarrow> string \<times> colour" where
  "format_peer_state Connected = (''Connected'', Green)"
| "format_peer_state HelloSent = (''Connecting...'', Yellow)"
| "format_peer_state Discovered = (''Discovered'', LightBlue)"
| "format_peer_state Disconnected = (''Disconnected'', Red)"

text \<open>The two numbers, in milliseconds, that are printed; none before the first measurement.\<close>

definition format_latency :: "peer_display_info \<Rightarrow> (fl \<times> fl) option" where
  "format_latency p =
     (if sample_count (info_latency p) = 0 then None
      else Some (f_div F64 (u64_as_f64 (avg_rtt_us (info_latency p))) (Fin 1000),
                 f_div F64 (u64_as_f64 (jitter_us (info_latency p))) (Fin 1000)))"

record peer_row =
  row_id :: u8
  row_addr :: socket_addr
  row_state :: "string \<times> colour"
  row_latency :: "(fl \<times> fl) option"
  row_security :: string

definition peer_rows :: "peer_display_info list \<Rightarrow> peer_row list" where
  "peer_rows ps = map (\<lambda>p. \<lparr>row_id = info_id p, row_addr = info_addr p, row_state = format_peer_state (info_state p),
     row_latency = format_latency p, row_security = (if key_exchange_done p then ''PFS'' else ''PSK'')\<rparr>) ps"

section \<open>Frames and threads\<close>

text \<open>A frame draws the screen, with what the user does in it.\<close>

inductive frame_step :: "(string \<Rightarrow> socket_addr option) \<Rightarrow> tray \<Rightarrow> tray \<Rightarrow> bool" for parse where
  frame_lobby: "screen t = Lobby \<Longrightarrow> lobby_offers (lobby t) ev \<Longrightarrow> frame_step parse t (snd (draw_lobby parse ev t))"
| frame_session: "screen t = InSession \<Longrightarrow> frame_step parse t (draw_connected ev t)"

text \<open>The thread of the \<open>i\<close>-th session first raises the flag; while it runs it writes to the shared
  state; it lowers the flag after \<^verbatim>\<open>session.run()\<close> has returned, which it does with an error at
  any time or when the loop finds the flag lowered. A panic in \<^verbatim>\<open>session.run()\<close> ends the thread before
  the line that lowers the flag.\<close>

definition set_slot :: "nat \<Rightarrow> session \<Rightarrow> thread_state \<Rightarrow> tray \<Rightarrow> tray" where
  "set_slot i ss th t = t\<lparr>slots_of := (slots_of t)[i := \<lparr>slot_session = ss, slot_thread = th\<rparr>]\<rparr>"

inductive thread_step :: "nat \<Rightarrow> tray \<Rightarrow> tray \<Rightarrow> bool" for i where
  thread_starts: "i < length (slots_of t) \<Longrightarrow> slots_of t ! i = \<lparr>slot_session = ss, slot_thread = Spawned\<rparr> \<Longrightarrow>
    thread_step i t (set_slot i (ss\<lparr>running := True\<rparr>) Running t)"
| thread_publishes: "i < length (slots_of t) \<Longrightarrow> slots_of t ! i = \<lparr>slot_session = ss, slot_thread = Running\<rparr> \<Longrightarrow>
    thread_step i t (set_slot i (ss\<lparr>shared := sh\<rparr>) Running t)"
| thread_fails: "i < length (slots_of t) \<Longrightarrow> slots_of t ! i = \<lparr>slot_session = ss, slot_thread = Running\<rparr> \<Longrightarrow>
    thread_step i t (set_slot i (ss\<lparr>running := False\<rparr>) Finished t)"
| thread_stops: "i < length (slots_of t) \<Longrightarrow> slots_of t ! i = \<lparr>slot_session = ss, slot_thread = Running\<rparr> \<Longrightarrow> \<not> running ss \<Longrightarrow>
    thread_step i t (set_slot i (ss\<lparr>running := False\<rparr>) Finished t)"
| thread_panics: "i < length (slots_of t) \<Longrightarrow> slots_of t ! i = \<lparr>slot_session = ss, slot_thread = Running\<rparr> \<Longrightarrow>
    thread_step i t (set_slot i ss Panicked t)"

inductive tray_step :: "(string \<Rightarrow> socket_addr option) \<Rightarrow> tray \<Rightarrow> tray \<Rightarrow> bool" for parse where
  a_frame: "frame_step parse t u \<Longrightarrow> tray_step parse t u"
| a_thread: "thread_step i t u \<Longrightarrow> tray_step parse t u"

inductive_cases frame_stepE: "frame_step parse t u"
inductive_cases thread_stepE: "thread_step i t u"
inductive_cases tray_stepE: "tray_step parse t u"

section \<open>The invariant of the window\<close>

text \<open>The selections stay within the lists, the window holds the flag of the session it shows, and there
  is a session on the session screen. Nothing ties a flag to the life of its thread.\<close>

definition tray_inv :: "tray \<Rightarrow> bool" where
  "tray_inv t \<longleftrightarrow>
     selected_input (lobby t) \<le> length (input_devices (lobby t)) \<and>
     selected_output (lobby t) \<le> length (output_devices (lobby t)) \<and>
     (\<forall>i. session_shared t = Some i \<longrightarrow> running_flag t = Some i) \<and>
     (\<forall>i. running_flag t = Some i \<longrightarrow> i < length (slots_of t)) \<and>
     (screen t = InSession \<longrightarrow> session_shared t \<noteq> None)"

lemma chosen_device_in_range: "sel \<le> length ds \<Longrightarrow> \<exists>d. chosen_device ds sel = Ok d"
  by (cases sel) (simp_all add: chosen_device_def)

lemma chosen_device_not_Err: "chosen_device ds sel \<noteq> Err e"
  by (simp add: chosen_device_def index_def)

lemma lobby_config_not_Panic:
  "selected_input lb \<le> length (input_devices lb) \<Longrightarrow> selected_output lb \<le> length (output_devices lb) \<Longrightarrow>
     lobby_session_config parse lb \<noteq> Panic"
  using chosen_device_in_range [of "selected_input lb" "input_devices lb"]
    chosen_device_in_range [of "selected_output lb" "output_devices lb"]
  by (auto simp: lobby_session_config_def and_then_eq_Panic)

lemma draw_lobby_not_Panic:
  assumes "tray_inv t"
  shows "fst (draw_lobby parse ev t) \<noteq> Panic"
proof -
  have sel: "selected_input (lobby t) \<le> length (input_devices (lobby t))"
    "selected_output (lobby t) \<le> length (output_devices (lobby t))" using assms by (simp_all add: tray_inv_def)
  obtain d d' where "chosen_device (input_devices (lobby t)) (selected_input (lobby t)) = Ok d"
    "chosen_device (output_devices (lobby t)) (selected_output (lobby t)) = Ok d'"
    using sel chosen_device_in_range by metis
  moreover have "fst (start_session parse t) \<noteq> Panic"
    using lobby_config_not_Panic [OF sel, of parse]
    by (cases "lobby_session_config parse (lobby t)") (simp_all add: start_session_def)
  ultimately show ?thesis
    by (cases ev) (auto simp: draw_lobby_def split: prod.splits outcome.splits)
qed

lemma upd_session_simps [simp]:
  "screen (upd_session i f t) = screen t" "lobby (upd_session i f t) = lobby t"
  "session_shared (upd_session i f t) = session_shared t" "running_flag (upd_session i f t) = running_flag t"
  "length (slots_of (upd_session i f t)) = length (slots_of t)"
  "j \<noteq> i \<Longrightarrow> slots_of (upd_session i f t) ! j = slots_of t ! j"
  "slot_thread (slots_of (upd_session i f t) ! j) = slot_thread (slots_of t ! j)"
  by (simp_all add: upd_session_def) (cases "i < length (slots_of t)", auto simp: nth_list_update list_update_beyond)

lemma set_slot_simps [simp]:
  "screen (set_slot i ss th t) = screen t" "lobby (set_slot i ss th t) = lobby t"
  "session_shared (set_slot i ss th t) = session_shared t" "running_flag (set_slot i ss th t) = running_flag t"
  "length (slots_of (set_slot i ss th t)) = length (slots_of t)"
  "j \<noteq> i \<Longrightarrow> slots_of (set_slot i ss th t) ! j = slots_of t ! j"
  "i < length (slots_of t) \<Longrightarrow> slots_of (set_slot i ss th t) ! i = \<lparr>slot_session = ss, slot_thread = th\<rparr>"
  by (simp_all add: set_slot_def)

lemma upd_session_inv: "tray_inv t \<Longrightarrow> tray_inv (upd_session i f t)"
  by (simp add: tray_inv_def)

lemma disconnect_inv: "tray_inv t \<Longrightarrow> tray_inv (disconnect t)"
  by (auto simp: disconnect_def tray_inv_def split: option.splits)

lemma start_session_inv: "tray_inv t \<Longrightarrow> tray_inv (snd (start_session parse t))"
  by (cases "lobby_session_config parse (lobby t)") (auto simp: start_session_def tray_inv_def)

lemma draw_lobby_inv:
  assumes "tray_inv t" "lobby_offers (lobby t) ev"
  shows "tray_inv (snd (draw_lobby parse ev t))"
proof -
  have err: "tray_inv u \<Longrightarrow> tray_inv (u\<lparr>error_msg := m\<rparr>)" for u m by (simp add: tray_inv_def)
  have "tray_inv (snd (case start_session parse t of (Ok _, t) \<Rightarrow> (Ok (), t\<lparr>error_msg := None\<rparr>)
      | (Err e, t) \<Rightarrow> (Ok (), t\<lparr>error_msg := Some e\<rparr>) | (Panic, t) \<Rightarrow> (Panic, t)))"
    using start_session_inv [OF assms(1), of parse] err by (auto split: prod.splits outcome.splits)
  moreover have "tray_inv (t\<lparr>lobby := lb\<rparr>)"
    if "selected_input lb \<le> length (input_devices lb)" "selected_output lb \<le> length (output_devices lb)" for lb
    using assms(1) that by (simp add: tray_inv_def)
  moreover have "selected_input (lobby t) \<le> length (input_devices (lobby t))"
    "selected_output (lobby t) \<le> length (output_devices (lobby t))" using assms(1) by (simp_all add: tray_inv_def)
  ultimately show ?thesis
    using assms by (cases ev) (auto simp: draw_lobby_def attempt_split [where P = "\<lambda>x. tray_inv (snd x)"])
qed

lemma draw_connected_inv: "tray_inv t \<Longrightarrow> tray_inv (draw_connected ev t)"
  using disconnect_inv [of t]
  by (auto simp: draw_connected_def intro!: upd_session_inv split: option.splits session_event.splits if_splits)
    (auto simp: tray_inv_def)

lemma tray_step_inv: "tray_step parse t u \<Longrightarrow> tray_inv t \<Longrightarrow> tray_inv u"
  by (erule tray_stepE; (erule frame_stepE | erule thread_stepE))
    (simp_all add: draw_lobby_inv draw_connected_inv, simp_all add: tray_inv_def)

interpretation tray_sys: invariant_system "\<lambda>t. t = app_new H" "tray_step parse" tray_inv
  for H parse
proof unfold_locales
  show "t = app_new H \<Longrightarrow> tray_inv t" for t by (simp add: app_new_def tray_inv_def)
qed (rule tray_step_inv)

section \<open>Escaped sessions\<close>

text \<open>A session that is not shown and whose flag no control of the window reaches: the lobby has none
  that lowers a flag, and the session screen lowers the flag it holds.\<close>

definition escaped :: "nat \<Rightarrow> tray \<Rightarrow> bool" where
  "escaped i t \<longleftrightarrow> i < length (slots_of t) \<and> session_shared t \<noteq> Some i \<and> (screen t = Lobby \<or> running_flag t \<noteq> Some i) \<and>
     (slot_thread (slots_of t ! i) = Running \<longrightarrow> running (slot_session (slots_of t ! i)))"

lemma start_session_escaped:
  "escaped i t \<Longrightarrow> escaped i (snd (start_session parse t)) \<and> slots_of (snd (start_session parse t)) ! i = slots_of t ! i"
  by (cases "lobby_session_config parse (lobby t)") (auto simp: start_session_def escaped_def nth_append)

lemma draw_lobby_escaped:
  assumes "escaped i t"
  shows "escaped i (snd (draw_lobby parse ev t)) \<and> slots_of (snd (draw_lobby parse ev t)) ! i = slots_of t ! i"
proof -
  have "escaped i u \<Longrightarrow> escaped i (u\<lparr>error_msg := m\<rparr>)" "escaped i u \<Longrightarrow> escaped i (u\<lparr>lobby := lb\<rparr>)" for u m lb
    by (simp_all add: escaped_def)
  then show ?thesis
    using assms start_session_escaped [OF assms, of parse]
    by (cases ev) (auto simp: draw_lobby_def attempt_split
        [where P = "\<lambda>x. escaped i (snd x) \<and> slots_of (snd x) ! i = slots_of t ! i"] split: prod.splits outcome.splits)
qed

lemma draw_connected_escaped:
  assumes "escaped i t" "tray_inv t" "screen t = InSession"
  shows "escaped i (draw_connected ev t) \<and> slots_of (draw_connected ev t) ! i = slots_of t ! i"
proof -
  obtain j where j: "session_shared t = Some j" "running_flag t = Some j" using assms(2,3) by (auto simp: tray_inv_def)
  then have "i \<noteq> j" using assms(1) by (auto simp: escaped_def)
  then have upd: "escaped i (upd_session j f t) \<and> slots_of (upd_session j f t) ! i = slots_of t ! i" for f
    using assms(1) by (auto simp: escaped_def)
  then have "escaped i (disconnect t) \<and> slots_of (disconnect t) ! i = slots_of t ! i"
    using upd [of session_stop] by (simp add: disconnect_def j escaped_def)
  with upd assms(1) j show ?thesis by (cases ev) (simp_all add: draw_connected_def)
qed

lemma frame_escaped:
  "frame_step parse t u \<Longrightarrow> tray_inv t \<Longrightarrow> escaped i t \<Longrightarrow> escaped i u \<and> slots_of u ! i = slots_of t ! i"
  by (erule frame_stepE) (simp_all add: draw_lobby_escaped draw_connected_escaped)

lemma other_thread_escaped: "thread_step j t u \<Longrightarrow> j \<noteq> i \<Longrightarrow> slots_of u ! i = slots_of t ! i"
  by (erule thread_stepE) simp_all

lemma thread_escaped: "thread_step j t u \<Longrightarrow> escaped i t \<Longrightarrow> escaped i u"
  by (erule thread_stepE; cases "j = i") (simp_all add: escaped_def)

lemma tray_escaped: "tray_step parse t u \<Longrightarrow> tray_inv t \<Longrightarrow> escaped i t \<Longrightarrow> escaped i u"
  using frame_escaped thread_escaped by (blast elim: tray_stepE)

lemma steps_escaped:
  assumes "(tray_step parse)\<^sup>*\<^sup>* t u" "tray_inv t" "escaped i t"
  shows "tray_inv u \<and> escaped i u"
  using assms by (induction rule: rtranclp_induct) (auto intro: tray_step_inv tray_escaped)

text \<open>Starting a session from the lobby.\<close>

lemma click_connect:
  assumes "tray_inv t" "lobby_session_config parse (lobby t) = Ok cfg"
  shows "snd (draw_lobby parse ClickConnect t) =
    t\<lparr>session_shared := Some (length (slots_of t)), running_flag := Some (length (slots_of t)),
      slots_of := slots_of t @ [\<lparr>slot_session = session_new cfg, slot_thread = Spawned\<rparr>], screen := InSession, error_msg := None\<rparr>"
proof -
  obtain d d' where "chosen_device (input_devices (lobby t)) (selected_input (lobby t)) = Ok d"
    "chosen_device (output_devices (lobby t)) (selected_output (lobby t)) = Ok d'"
    using assms(1) chosen_device_in_range unfolding tray_inv_def by metis
  then show ?thesis by (simp add: draw_lobby_def start_session_def assms(2))
qed

section \<open>Dead sessions\<close>

text \<open>The session screen shows a session whose thread has died with the flag up.\<close>

definition shows_dead :: "nat \<Rightarrow> tray \<Rightarrow> bool" where
  "shows_dead i t \<longleftrightarrow> i < length (slots_of t) \<and> screen t = InSession \<and> session_shared t = Some i \<and> running_flag t = Some i \<and>
     slot_thread (slots_of t ! i) = Panicked \<and> running (slot_session (slots_of t ! i))"

lemma upd_session_dead:
  "shows_dead i t \<Longrightarrow> (\<And>ss. running (f ss) = running ss) \<Longrightarrow> shows_dead i (upd_session i f t)"
  by (simp add: shows_dead_def) (simp add: upd_session_def)

lemma draw_connected_dead: "shows_dead i t \<Longrightarrow> ev \<noteq> ClickDisconnect \<Longrightarrow> shows_dead i (draw_connected ev t)"
proof -
  assume dead: "shows_dead i t" and "ev \<noteq> ClickDisconnect"
  moreover have "session_shared t = Some i" "running_flag t = Some i" "running (slot_session (slots_of t ! i))"
    using dead by (simp_all add: shows_dead_def)
  ultimately show ?thesis by (cases ev) (auto simp: draw_connected_def intro!: upd_session_dead split: if_splits)
qed

lemma thread_dead: "thread_step j t u \<Longrightarrow> shows_dead i t \<Longrightarrow> shows_dead i u"
  by (erule thread_stepE; cases "j = i") (simp_all add: shows_dead_def)

lemma tray_step_dead:
  assumes "tray_step parse t u" "shows_dead i t" "u \<noteq> disconnect t"
  shows "shows_dead i u"
  using assms(1)
proof cases
  case a_frame
  then show ?thesis
  proof cases
    case (frame_session ev)
    have "draw_connected ClickDisconnect t = disconnect t" using assms(2) by (simp add: draw_connected_def shows_dead_def)
    with frame_session assms draw_connected_dead show ?thesis by (cases "ev = ClickDisconnect") auto
  qed (use assms(2) in \<open>simp add: shows_dead_def\<close>)
next
  case (a_thread j)
  then show ?thesis using thread_dead assms(2) by blast
qed

section \<open>Properties\<close>

text \<open>C36. The window never panics: in every state it reaches, whatever the user does and however the
  threads of its sessions interleave with the frames, panicking threads included, the device
  selections are within the lists they index and the session it shows exists, with the flag the
  window holds being that session's.\<close>

theorem tray_never_panics:
  assumes "reach (\<lambda>t. t = app_new H) (tray_step parse) t"
  shows "fst (draw_lobby parse ev t) \<noteq> Panic \<and>
    (screen t = InSession \<longrightarrow> (\<exists>i < length (slots_of t). session_shared t = Some i \<and> running_flag t = Some i))"
proof -
  have inv: "tray_inv t" by (rule tray_sys.reach_inv [OF assms])
  then have "screen t = InSession \<longrightarrow> (\<exists>i < length (slots_of t). session_shared t = Some i \<and> running_flag t = Some i)"
    by (auto simp: tray_inv_def)
  with draw_lobby_not_Panic [OF inv] show ?thesis by blast
qed

definition demo_parse :: "string \<Rightarrow> socket_addr option" where
  "demo_parse s = (if s = ''0.0.0.0:4567'' then Some (demo_addr 4567) else None)"

definition demo_tray :: tray where
  "demo_tray = app_new \<lparr>input_devs = Some [\<lparr>dev_name = Some ''mic'', default_config = None, builds = (\<lambda>_. True), plays = (\<lambda>_. True)\<rparr>],
     output_devs = None, default_input_device = None, default_output_device = None\<rparr>"

theorem tray_never_panics_witness:
  "fst (draw_lobby demo_parse ClickConnect (snd (draw_lobby demo_parse (SelectInput 1) demo_tray))) \<noteq> Panic"
proof -
  let ?H = "\<lparr>input_devs = Some [\<lparr>dev_name = Some ''mic'', default_config = None, builds = (\<lambda>_. True), plays = (\<lambda>_. True)\<rparr>],
     output_devs = None, default_input_device = None, default_output_device = None\<rparr>"
  have "reach (\<lambda>t. t = app_new ?H) (tray_step demo_parse) demo_tray" by (rule reach_start) (simp add: demo_tray_def)
  moreover have "tray_step demo_parse demo_tray (snd (draw_lobby demo_parse (SelectInput 1) demo_tray))"
    by (rule a_frame, rule frame_lobby) (simp_all add: demo_tray_def app_new_def list_input_devices_def map_filter_def)
  ultimately have "reach (\<lambda>t. t = app_new ?H) (tray_step demo_parse) (snd (draw_lobby demo_parse (SelectInput 1) demo_tray))"
    by (rule reach_step)
  from tray_never_panics [OF this] show ?thesis by blast
qed

text \<open>C35. A session can escape its window. The flag of a session goes up only when its thread first runs,
  but the session screen takes a lowered flag for the end of the session. So when, after the button
  is clicked, a frame is drawn before the thread has run, whatever the user does in that frame, the
  window is back in the lobby while the session still starts. Thereafter, in every interleaving, the
  window never shows that session again, no frame, hence no action of the user, and no thread of
  another session changes it, and as long as its thread runs its flag is up, so that only its own
  failure or panic can end it.\<close>

theorem tray_session_escapes:
  assumes "reach (\<lambda>t. t = app_new H) (tray_step parse) t" and "screen t = Lobby"
    and "lobby_offers (lobby t) ClickConnect" and "lobby_session_config parse (lobby t) = Ok cfg"
  shows "let i = length (slots_of t); click = snd (draw_lobby parse ClickConnect t); early = draw_connected ev click in
    screen click = InSession \<and> session_shared click = Some i \<and>
    screen early = Lobby \<and>
    (\<exists>u. tray_step parse early u \<and> slot_thread (slots_of u ! i) = Running) \<and>
    (\<forall>u. (tray_step parse)\<^sup>*\<^sup>* early u \<longrightarrow>
       session_shared u \<noteq> Some i \<and>
       (slot_thread (slots_of u ! i) = Running \<longrightarrow> running (slot_session (slots_of u ! i))) \<and>
       (\<forall>v. frame_step parse u v \<longrightarrow> slots_of v ! i = slots_of u ! i) \<and>
       (\<forall>v j. thread_step j u v \<and> j \<noteq> i \<longrightarrow> slots_of v ! i = slots_of u ! i))"
proof -
  define i click early where "i = length (slots_of t)" and "click = snd (draw_lobby parse ClickConnect t)"
    and "early = draw_connected ev click"
  have inv: "tray_inv t" by (rule tray_sys.reach_inv [OF assms(1)])
  note click = click_connect [OF inv assms(4), folded click_def i_def]
  have early: "early = (upd_session i session_stop click)\<lparr>session_shared := None, screen := Lobby\<rparr>"
    by (simp add: early_def click draw_connected_def disconnect_def session_new_def nth_append i_def)
  have inv': "tray_inv early"
    unfolding early_def click_def by (intro draw_connected_inv draw_lobby_inv inv assms(3))
  have esc: "escaped i early" "slot_thread (slots_of early ! i) = Spawned" "i < length (slots_of early)"
    by (simp_all add: early escaped_def) (simp_all add: click i_def nth_append)
  have "slots_of early ! i = \<lparr>slot_session = slot_session (slots_of early ! i), slot_thread = Spawned\<rparr>"
    using esc(2) by (cases "slots_of early ! i") simp
  from thread_starts [OF esc(3) this] esc(3)
  have starts: "\<exists>u. tray_step parse early u \<and> slot_thread (slots_of u ! i) = Running" by (force intro: a_thread)
  have "session_shared u \<noteq> Some i \<and> (slot_thread (slots_of u ! i) = Running \<longrightarrow> running (slot_session (slots_of u ! i))) \<and>
      (\<forall>v. frame_step parse u v \<longrightarrow> slots_of v ! i = slots_of u ! i) \<and>
      (\<forall>v j. thread_step j u v \<and> j \<noteq> i \<longrightarrow> slots_of v ! i = slots_of u ! i)"
    if "(tray_step parse)\<^sup>*\<^sup>* early u" for u
    using steps_escaped [OF that inv' esc(1)] frame_escaped other_thread_escaped by (auto simp: escaped_def)
  moreover have "screen click = InSession" "session_shared click = Some i" "screen early = Lobby"
    by (simp_all add: early, simp_all add: click)
  ultimately show ?thesis using starts by (simp add: Let_def flip: i_def click_def early_def)
qed

definition demo_lobby :: tray where
  "demo_lobby = snd (draw_lobby demo_parse (EditPassphrase [1]) demo_tray)"

lemma demo_lobby:
  "\<exists>H. reach (\<lambda>t. t = app_new H) (tray_step demo_parse) demo_lobby" "screen demo_lobby = Lobby" "slots_of demo_lobby = []"
  "lobby_offers (lobby demo_lobby) ClickConnect" "\<exists>cfg. lobby_session_config demo_parse (lobby demo_lobby) = Ok cfg"
proof -
  let ?H = "\<lparr>input_devs = Some [\<lparr>dev_name = Some ''mic'', default_config = None, builds = (\<lambda>_. True), plays = (\<lambda>_. True)\<rparr>],
     output_devs = None, default_input_device = None, default_output_device = None\<rparr>"
  have "reach (\<lambda>t. t = app_new ?H) (tray_step demo_parse) demo_tray" by (rule reach_start) (simp add: demo_tray_def)
  then have "reach (\<lambda>t. t = app_new ?H) (tray_step demo_parse) demo_lobby"
    unfolding demo_lobby_def by (rule reach_step) (rule a_frame, rule frame_lobby, simp_all add: demo_tray_def app_new_def)
  then show "\<exists>H. reach (\<lambda>t. t = app_new H) (tray_step demo_parse) demo_lobby" by blast
qed (simp_all add: demo_lobby_def demo_tray_def draw_lobby_def app_new_def chosen_device_def lobby_session_config_def demo_parse_def)

theorem tray_session_escapes_witness:
  "let early = draw_connected SessionIdle (snd (draw_lobby demo_parse ClickConnect demo_lobby)) in
     screen early = Lobby \<and> (\<exists>u. tray_step demo_parse early u \<and> slot_thread (slots_of u ! 0) = Running)"
proof -
  from demo_lobby(1,5) obtain H cfg where "reach (\<lambda>t. t = app_new H) (tray_step demo_parse) demo_lobby"
    "lobby_session_config demo_parse (lobby demo_lobby) = Ok cfg" by blast
  from tray_session_escapes [OF this(1) demo_lobby(2,4) this(2), of SessionIdle] show ?thesis
    by (simp add: Let_def demo_lobby(3))
qed

text \<open>C40. A session that dies of a panic is shown as running for good. The panic ends its thread before the
  line that lowers the flag, and the window looks at nothing else: in every interleaving the session
  screen stays, its controls writing to a session that no longer exists, until the user clicks
  Disconnect.\<close>

theorem tray_shows_dead_session:
  assumes "reach (\<lambda>t. t = app_new H) (tray_step parse) t" and "screen t = InSession" and "session_shared t = Some i"
    and "running (slot_session (slots_of t ! i))"
    and "thread_step i t u" and "slot_thread (slots_of u ! i) = Panicked"
    and "(\<lambda>v w. tray_step parse v w \<and> w \<noteq> disconnect v)\<^sup>*\<^sup>* u v"
  shows "screen v = InSession \<and> session_shared v = Some i \<and> slot_thread (slots_of v ! i) = Panicked \<and>
    screen (draw_connected SessionIdle v) = InSession"
proof -
  have "tray_inv t" by (rule tray_sys.reach_inv [OF assms(1)])
  then have "running_flag t = Some i" "i < length (slots_of t)" using assms(3) by (auto simp: tray_inv_def)
  with assms(2-6) have "shows_dead i u" by (elim thread_stepE) (auto simp: shows_dead_def)
  with assms(7) have "shows_dead i v" by (induction rule: rtranclp_induct) (auto intro: tray_step_dead)
  with draw_connected_dead [OF this, of SessionIdle] show ?thesis by (simp add: shows_dead_def)
qed

theorem tray_shows_dead_session_witness:
  "\<exists>t u. thread_step 0 t u \<and> slot_thread (slots_of u ! 0) = Panicked \<and> screen (draw_connected SessionIdle u) = InSession"
proof -
  from demo_lobby(1,5) obtain H cfg where R: "reach (\<lambda>t. t = app_new H) (tray_step demo_parse) demo_lobby"
    and cfg: "lobby_session_config demo_parse (lobby demo_lobby) = Ok cfg" by blast
  define t where "t = snd (draw_lobby demo_parse ClickConnect demo_lobby)"
  have t: "t = demo_lobby\<lparr>session_shared := Some 0, running_flag := Some 0,
      slots_of := [\<lparr>slot_session = session_new cfg, slot_thread = Spawned\<rparr>], screen := InSession, error_msg := None\<rparr>"
    unfolding t_def click_connect [OF tray_sys.reach_inv [OF R] cfg] by (simp add: demo_lobby(3))
  let ?ss = "(session_new cfg)\<lparr>running := True\<rparr>"
  let ?u = "set_slot 0 ?ss Running t"
  have "reach (\<lambda>t. t = app_new H) (tray_step demo_parse) t"
    unfolding t_def by (rule reach_step [OF R]) (intro a_frame frame_lobby demo_lobby)
  then have R': "reach (\<lambda>t. t = app_new H) (tray_step demo_parse) ?u"
    by (rule reach_step) (rule a_thread, rule thread_starts, simp_all add: t)
  have u: "screen ?u = InSession" "session_shared ?u = Some 0" "slots_of ?u ! 0 = \<lparr>slot_session = ?ss, slot_thread = Running\<rparr>"
    by (simp_all add: t)
  have panic: "thread_step 0 ?u (set_slot 0 ?ss Panicked ?u)" by (rule thread_panics) (simp_all add: t)
  have "slot_thread (slots_of (set_slot 0 ?ss Panicked ?u) ! 0) = Panicked" by (simp add: t)
  with tray_shows_dead_session [OF R' u(1,2) _ panic this rtranclp.rtrancl_refl] panic show ?thesis by (auto simp: u(3))
qed

end
