(* ===== verification/Cli.thy ===== *)
theory Cli
  imports Startup
begin

text \<open>
  The command line client, \<^verbatim>\<open>vc-cli/src/main.rs\<close>: the commands and the sessions they configure, the
  push-to-talk listener, what the statistics printer reports, and the life of the process with its
  two flags, the one Ctrl+C clears and the one the session's loop reads.
\<close>

section \<open>Commands\<close>

datatype input_mode_arg = ArgAlwaysOn | ArgPtt | ArgVox

record common_args =
  arg_bind :: socket_addr
  arg_passphrase :: bytes
  arg_input_device :: "string option"
  arg_output_device :: "string option"
  arg_denoise :: bool
  arg_input_mode :: input_mode_arg

datatype command =
    Host common_args bool
  | Join socket_addr common_args
  | Loopback "string option" "string option" bool
  | Devices

fun to_input_mode :: "input_mode_arg \<Rightarrow> input_mode" where
  "to_input_mode ArgAlwaysOn = AlwaysOn"
| "to_input_mode ArgPtt = PushToTalk"
| "to_input_mode ArgVox = VoiceActivation"

fun host_config :: "common_args \<Rightarrow> bool \<Rightarrow> session_config" where
  "host_config a upnp =
     \<lparr>bind_addr = arg_bind a, passphrase = arg_passphrase a, cfg_is_host = True, host_addr = None,
      input_device = arg_input_device a, output_device = arg_output_device a,
      cfg_noise_suppression = arg_denoise a, cfg_input_mode = to_input_mode (arg_input_mode a),
      cfg_vad_config = vad_config_default, cfg_upnp = upnp\<rparr>"

fun join_config :: "socket_addr \<Rightarrow> common_args \<Rightarrow> session_config" where
  "join_config host a =
     \<lparr>bind_addr = arg_bind a, passphrase = arg_passphrase a, cfg_is_host = False, host_addr = Some host,
      input_device = arg_input_device a, output_device = arg_output_device a,
      cfg_noise_suppression = arg_denoise a, cfg_input_mode = to_input_mode (arg_input_mode a),
      cfg_vad_config = vad_config_default, cfg_upnp = False\<rparr>"

text \<open>The session a command runs, and the listing of devices.\<close>

fun command_session :: "command \<Rightarrow> session option" where
  "command_session (Host a upnp) = Some (session_new (host_config a upnp))"
| "command_session (Join host a) = Some (session_new (join_config host a))"
| "command_session _ = None"

definition list_devices :: "audio_host \<Rightarrow> (string list \<times> string list) outcome" where
  "list_devices H =
     and_then (list_input_devices H) (\<lambda>ins. and_then (list_output_devices H) (\<lambda>outs. Ok (ins, outs)))"

section \<open>Push to talk and statistics\<close>

text \<open>Reading a line: how many bytes came, none at the end of the input, or an error.\<close>

datatype read_result = LineRead nat | LineError

definition ptt_read :: "read_result \<Rightarrow> bool \<times> shared_state \<Rightarrow> bool \<times> shared_state" where
  "ptt_read r st =
     (case r of
        LineRead _ \<Rightarrow> (let transmitting = \<not> fst st in (transmitting, (snd st)\<lparr>sh_ptt_active := transmitting\<rparr>))
      | LineError \<Rightarrow> st)"

text \<open>A line of the statistics: round-trip minimum, average, maximum and jitter in milliseconds, when
  there are any, and whether the peer has its own key.\<close>

record stats_line =
  line_id :: u8
  line_addr :: socket_addr
  line_state :: peer_state
  line_rtt :: "(fl \<times> fl \<times> fl \<times> fl) option"
  line_pfs :: bool

definition millis :: "u64 \<Rightarrow> fl" where
  "millis us = f_div F64 (u64_as_f64 us) (Fin 1000)"

definition stats_lines :: "peer_display_info list \<Rightarrow> stats_line list" where
  "stats_lines ps = map (\<lambda>p. \<lparr>line_id = info_id p, line_addr = info_addr p, line_state = info_state p,
     line_rtt = (let lat = info_latency p in
       if sample_count lat > 0
       then Some (millis (min_rtt_us lat), millis (avg_rtt_us lat), millis (max_rtt_us lat), millis (jitter_us lat))
       else None),
     line_pfs = key_exchange_done p\<rparr>) ps"

section \<open>The process\<close>

text \<open>
  Beside the main thread run the push-to-talk listener, which looks at the flag of the process and then
  waits for a line with its own note whether it transmits, and the statistics printer, which sleeps,
  looks at the flag of the session, sleeps and prints. They end with the process.
\<close>

datatype phase = Starting | InLoop | Exited

datatype listener_state = AtFlag bool | Reading bool

datatype printer_state = FirstSleep | AtRunFlag | BetweenReports

record cli =
  cli_running :: bool
  cli_session :: "session option"
  listener :: "listener_state option"
  printer :: "printer_state option"
  printed :: "stats_line list list"
  cli_phase :: phase

definition spawn_ptt_listener :: "session_config \<Rightarrow> listener_state option" where
  "spawn_ptt_listener cfg = (if cfg_input_mode cfg = PushToTalk then Some (AtFlag False) else None)"

text \<open>Up to the call of \<^verbatim>\<open>Session::run\<close> or \<^verbatim>\<open>run_loopback\<close>, when the handler of Ctrl+C could be set.\<close>

definition cli_main :: "bool \<Rightarrow> command \<Rightarrow> cli" where
  "cli_main handler_set cmd =
     (let ss = (if handler_set then command_session cmd else None) in
      \<lparr>cli_running = True, cli_session = ss,
       listener = Option.bind ss (\<lambda>ss. spawn_ptt_listener (the_config ss)),
       printer = map_option (\<lambda>_. FirstSleep) ss, printed = [],
       cli_phase = (if handler_set \<and> cmd \<noteq> Devices then Starting else Exited)\<rparr>)"

text \<open>The flag the loop reads: the session's own, or in the loopback test the one handed over.\<close>

definition loop_flag :: "cli \<Rightarrow> bool" where
  "loop_flag c = (case cli_session c of Some ss \<Rightarrow> running ss | None \<Rightarrow> cli_running c)"

definition raise_flag :: "cli \<Rightarrow> cli" where
  "raise_flag c =
     (case cli_session c of
        Some ss \<Rightarrow> c\<lparr>cli_session := Some (ss\<lparr>running := True\<rparr>)\<rparr>
      | None \<Rightarrow> c\<lparr>cli_running := True\<rparr>)"

text \<open>The head of the listener's loop, and a read that returns.\<close>

definition listener_check :: "bool \<Rightarrow> bool \<Rightarrow> listener_state option" where
  "listener_check flag tx = (if flag then Some (Reading tx) else None)"

definition listener_line :: "read_result \<Rightarrow> bool \<Rightarrow> session \<Rightarrow> listener_state \<times> session" where
  "listener_line r tx ss =
     (case ptt_read r (tx, shared ss) of (tx', sh) \<Rightarrow> (AtFlag tx', ss\<lparr>shared := sh\<rparr>))"

text \<open>The head of the printer's loop, and a report, left out when there are no peers.\<close>

definition printer_check :: "bool \<Rightarrow> printer_state option" where
  "printer_check flag = (if flag then Some BetweenReports else None)"

definition print_stats :: "session \<Rightarrow> stats_line list list \<Rightarrow> stats_line list list" where
  "print_stats ss out =
     (let ps = sh_peer_info (shared ss) in if ps = [] then out else out @ [stats_lines ps])"

text \<open>What the loop of the session writes for the others to see.\<close>

definition publish :: "bool \<Rightarrow> peer_display_info list \<Rightarrow> socket_addr option \<Rightarrow> session \<Rightarrow> session" where
  "publish tx ps ext ss = ss\<lparr>shared := (shared ss)\<lparr>sh_is_transmitting := tx, sh_peer_info := ps, sh_external_addr := ext\<rparr>\<rparr>"

inductive cli_step :: "cli \<Rightarrow> cli \<Rightarrow> bool" where
  run_starts: "cli_phase c = Starting \<Longrightarrow> cli_step c ((raise_flag c)\<lparr>cli_phase := InLoop\<rparr>)"
| run_publishes: "cli_phase c = InLoop \<Longrightarrow> cli_session c = Some ss \<Longrightarrow>
    cli_step c (c\<lparr>cli_session := Some (publish tx ps ext ss)\<rparr>)"
| run_fails: "cli_phase c = InLoop \<Longrightarrow> cli_step c (c\<lparr>cli_phase := Exited\<rparr>)"
| run_stops: "cli_phase c = InLoop \<Longrightarrow> \<not> loop_flag c \<Longrightarrow> cli_step c (c\<lparr>cli_phase := Exited\<rparr>)"
| ctrl_c: "cli_phase c \<noteq> Exited \<Longrightarrow> cli_step c (c\<lparr>cli_running := False\<rparr>)"
| listener_looks: "cli_phase c \<noteq> Exited \<Longrightarrow> listener c = Some (AtFlag tx) \<Longrightarrow>
    cli_step c (c\<lparr>listener := listener_check (cli_running c) tx\<rparr>)"
| listener_reads: "cli_phase c \<noteq> Exited \<Longrightarrow> listener c = Some (Reading tx) \<Longrightarrow> cli_session c = Some ss \<Longrightarrow>
    listener_line r tx ss = (l, ss') \<Longrightarrow> cli_step c (c\<lparr>listener := Some l, cli_session := Some ss'\<rparr>)"
| printer_wakes: "cli_phase c \<noteq> Exited \<Longrightarrow> printer c = Some FirstSleep \<Longrightarrow> cli_step c (c\<lparr>printer := Some AtRunFlag\<rparr>)"
| printer_looks: "cli_phase c \<noteq> Exited \<Longrightarrow> printer c = Some AtRunFlag \<Longrightarrow> cli_session c = Some ss \<Longrightarrow>
    cli_step c (c\<lparr>printer := printer_check (running ss)\<rparr>)"
| printer_prints: "cli_phase c \<noteq> Exited \<Longrightarrow> printer c = Some BetweenReports \<Longrightarrow> cli_session c = Some ss \<Longrightarrow>
    cli_step c (c\<lparr>printer := Some AtRunFlag, printed := print_stats ss (printed c)\<rparr>)"

inductive_cases cli_stepE: "cli_step c d"

text \<open>
  In a session's loop the session's flag is up; the listener's note is the flag it has stored; the
  process is alive only when the handler was set.
\<close>

definition cli_inv :: "bool \<Rightarrow> bool \<Rightarrow> cli \<Rightarrow> bool" where
  "cli_inv handler_set has_session c \<longleftrightarrow>
     (cli_phase c \<noteq> Exited \<longrightarrow> handler_set \<and> (cli_session c \<noteq> None) = has_session) \<and>
     (\<forall>ss. cli_session c = Some ss \<and> cli_phase c = InLoop \<longrightarrow> running ss) \<and>
     (\<forall>ss tx. cli_session c = Some ss \<and> (listener c = Some (AtFlag tx) \<or> listener c = Some (Reading tx)) \<longrightarrow>
        sh_ptt_active (shared ss) = tx)"

lemma listener_line_note:
  "listener_line r tx ss = (l, ss') \<Longrightarrow> sh_ptt_active (shared ss) = tx \<Longrightarrow>
     l = AtFlag (sh_ptt_active (shared ss')) \<and> running ss' = running ss"
  by (cases r) (auto simp: listener_line_def ptt_read_def Let_def)

interpretation cli_sys: invariant_system "\<lambda>c. c = cli_main h cmd" cli_step "cli_inv h (command_session cmd \<noteq> None)"
  for h cmd
proof unfold_locales
  fix c d :: cli
  have new: "\<not> sh_ptt_active (shared ss)" if "command_session cmd = Some ss" for ss
    using that by (cases cmd) (auto simp: session_new_def session_shared_new_def)
  show "cli_inv h (command_session cmd \<noteq> None) c" if "c = cli_main h cmd"
    using that new by (auto simp: cli_main_def cli_inv_def spawn_ptt_listener_def Let_def bind_eq_Some_conv split: if_splits)
  assume inv: "cli_inv h (command_session cmd \<noteq> None) c"
  assume "cli_step c d"
  then show "cli_inv h (command_session cmd \<noteq> None) d"
  proof cases
    case (listener_reads tx ss r l ss')
    then show ?thesis using inv listener_line_note [OF listener_reads(5)] by (auto simp: cli_inv_def)
  qed (use inv in \<open>auto simp: cli_inv_def raise_flag_def publish_def listener_check_def split: option.splits if_splits\<close>)
qed

text \<open>With the process flag down and no read in progress, the listener is over for good.\<close>

definition deaf :: "bool \<Rightarrow> cli \<Rightarrow> bool" where
  "deaf mic c \<longleftrightarrow> \<not> cli_running c \<and> (\<forall>tx. listener c \<noteq> Some (Reading tx)) \<and>
     (\<exists>ss. cli_session c = Some ss \<and> sh_ptt_active (shared ss) = mic)"

lemma cli_step_deaf: "cli_step c d \<Longrightarrow> deaf mic c \<Longrightarrow> deaf mic d"
  by (erule cli_stepE) (auto simp: deaf_def raise_flag_def publish_def listener_check_def)

lemma cli_steps_deaf: "cli_step\<^sup>*\<^sup>* c d \<Longrightarrow> deaf mic c \<Longrightarrow> deaf mic d"
  by (induction rule: rtranclp_induct) (auto intro: cli_step_deaf)

text \<open>A read that was in progress when the flag went down: once it returns, the listener is over.\<close>

definition last_read :: "bool \<Rightarrow> cli \<Rightarrow> bool" where
  "last_read mic c \<longleftrightarrow> \<not> cli_running c \<and> listener c = Some (Reading mic) \<and>
     (\<exists>ss. cli_session c = Some ss \<and> sh_ptt_active (shared ss) = mic)"

lemma cli_step_last_read:
  "cli_step c d \<Longrightarrow> last_read mic c \<Longrightarrow> last_read mic d \<or> deaf mic d \<or> deaf (\<not> mic) d"
  by (erule cli_stepE)
    (auto simp: last_read_def deaf_def raise_flag_def publish_def listener_line_def ptt_read_def Let_def split: read_result.splits)

lemma cli_steps_last_read:
  assumes "cli_step\<^sup>*\<^sup>* c d" "last_read mic c"
  shows "last_read mic d \<or> deaf mic d \<or> deaf (\<not> mic) d"
  using assms by (induction rule: rtranclp_induct) (auto dest: cli_step_last_read cli_step_deaf)

section \<open>Properties\<close>

text \<open>Ctrl+C does not end a session. In every state the process reaches while a hosted or joined
  session is in its loop, the flag that loop reads is up; it is still up after Ctrl+C, which clears
  another flag, so the loop is never left by it. In the loopback test, which reads the flag Ctrl+C
  clears, the loop can be left after it.\<close>

theorem ctrl_c_ignored_by_sessions:
  assumes "reach (\<lambda>c. c = cli_main h cmd) cli_step c" "cli_phase c = InLoop"
  shows "loop_flag (c\<lparr>cli_running := False\<rparr>) = (command_session cmd \<noteq> None) \<and>
    reach (\<lambda>c. c = cli_main h cmd) cli_step (c\<lparr>cli_running := False\<rparr>)"
proof -
  have "cli_inv h (command_session cmd \<noteq> None) c" by (rule cli_sys.reach_inv [OF assms(1)])
  then have "loop_flag (c\<lparr>cli_running := False\<rparr>) = (command_session cmd \<noteq> None)"
    using assms(2) by (auto simp: loop_flag_def cli_inv_def split: option.splits)
  moreover have "reach (\<lambda>c. c = cli_main h cmd) cli_step (c\<lparr>cli_running := False\<rparr>)"
    using assms by (intro reach_step [OF assms(1) ctrl_c]) simp
  ultimately show ?thesis by blast
qed

definition demo_ptt_command :: command where
  "demo_ptt_command = Host \<lparr>arg_bind = demo_addr 4567, arg_passphrase = [1], arg_input_device = None,
     arg_output_device = None, arg_denoise = False, arg_input_mode = ArgPtt\<rparr> True"

lemma demo_ptt_in_loop:
  "reach (\<lambda>c. c = cli_main True demo_ptt_command) cli_step
     ((raise_flag (cli_main True demo_ptt_command))\<lparr>cli_phase := InLoop\<rparr>)"
proof -
  have "cli_step (cli_main True demo_ptt_command) ((raise_flag (cli_main True demo_ptt_command))\<lparr>cli_phase := InLoop\<rparr>)"
    by (rule run_starts) (simp add: cli_main_def demo_ptt_command_def)
  then show ?thesis by (rule reach_step [OF reach_start, rotated]) simp
qed

theorem ctrl_c_ignored_by_sessions_witness:
  "\<exists>c. cli_phase c = InLoop \<and> \<not> cli_running c \<and> loop_flag c"
proof -
  from ctrl_c_ignored_by_sessions [OF demo_ptt_in_loop]
  have "loop_flag ((raise_flag (cli_main True demo_ptt_command))\<lparr>cli_phase := InLoop, cli_running := False\<rparr>)"
    by (simp add: demo_ptt_command_def)
  then show ?thesis
    by (intro exI [of _ "(raise_flag (cli_main True demo_ptt_command))\<lparr>cli_phase := InLoop, cli_running := False\<rparr>"]) simp
qed

text \<open>C37. After Ctrl+C the push-to-talk key is dead while the session runs on. From any state the process
  reaches after Ctrl+C, what happens later changes at most once whether the microphone is open, and
  only if the listener was inside a read at that moment, whose line still counts; after that line, or
  when the listener was not inside a read, nothing that happens later in the process changes it,
  although in all of those states that are in the session's loop the loop's own flag is still up.\<close>

theorem ctrl_c_freezes_microphone:
  assumes "reach (\<lambda>c. c = cli_main h cmd) cli_step c" "\<not> cli_running c"
    and "cli_session c = Some ss" "cli_step\<^sup>*\<^sup>* c d"
  shows "\<exists>ss'. cli_session d = Some ss' \<and> (cli_phase d = InLoop \<longrightarrow> loop_flag d) \<and>
    (sh_ptt_active (shared ss') = sh_ptt_active (shared ss) \<or>
     (\<exists>tx. listener c = Some (Reading tx)) \<and>
     (\<forall>e. cli_step\<^sup>*\<^sup>* d e \<longrightarrow>
        (\<exists>ss''. cli_session e = Some ss'' \<and> sh_ptt_active (shared ss'') = sh_ptt_active (shared ss'))))"
proof -
  let ?m = "sh_ptt_active (shared ss)"
  have inv: "cli_inv h (command_session cmd \<noteq> None) c" by (rule cli_sys.reach_inv [OF assms(1)])
  have "cli_inv h (command_session cmd \<noteq> None) d" by (rule cli_sys.steps_inv [OF assms(4) inv])
  then have loop: "cli_phase d = InLoop \<longrightarrow> loop_flag d" if "cli_session d \<noteq> None"
    using that by (auto simp: cli_inv_def loop_flag_def)
  have "last_read ?m c" if "listener c = Some (Reading tx)" for tx
    using inv assms(2,3) that by (simp add: cli_inv_def last_read_def)
  moreover have "deaf ?m c" if "\<nexists>tx. listener c = Some (Reading tx)" using assms(2,3) that by (simp add: deaf_def)
  ultimately consider tx where "listener c = Some (Reading tx)" "last_read ?m c" | "deaf ?m c" by blast
  then show ?thesis
  proof cases
    case 1
    from cli_steps_last_read [OF assms(4) 1(2)] consider "last_read ?m d \<or> deaf ?m d" | "deaf (\<not> ?m) d" by blast
    then show ?thesis
    proof cases
      case 2
      have "\<exists>ss''. cli_session e = Some ss'' \<and> sh_ptt_active (shared ss'') = (\<not> ?m)" if "cli_step\<^sup>*\<^sup>* d e" for e
        using cli_steps_deaf [OF that 2] by (auto simp: deaf_def)
      moreover obtain ss' where "cli_session d = Some ss'" "sh_ptt_active (shared ss') = (\<not> ?m)" using 2 by (auto simp: deaf_def)
      ultimately show ?thesis using 1(1) loop by simp
    qed (use loop in \<open>auto simp: last_read_def deaf_def\<close>)
  next
    case 2
    from cli_steps_deaf [OF assms(4) 2] show ?thesis using loop by (auto simp: deaf_def)
  qed
qed

text \<open>A line opens the microphone, the listener is back at its check, Ctrl+C: the microphone stays open.\<close>

theorem ctrl_c_freezes_microphone_witness:
  "\<exists>c ss. reach (\<lambda>c. c = cli_main True demo_ptt_command) cli_step c \<and> cli_phase c = InLoop \<and> \<not> cli_running c \<and>
     cli_session c = Some ss \<and> sh_ptt_active (shared ss) \<and>
     (\<forall>d. cli_step\<^sup>*\<^sup>* c d \<longrightarrow> (\<exists>ss'. cli_session d = Some ss' \<and> sh_ptt_active (shared ss')))"
proof -
  let ?c0 = "(raise_flag (cli_main True demo_ptt_command))\<lparr>cli_phase := InLoop\<rparr>"
  obtain ss where ss: "cli_session ?c0 = Some ss" by (simp add: raise_flag_def cli_main_def demo_ptt_command_def)
  have l0: "listener ?c0 = Some (AtFlag False)" "cli_running ?c0"
    by (simp_all add: raise_flag_def cli_main_def demo_ptt_command_def spawn_ptt_listener_def session_new_def)
  let ?c1 = "?c0\<lparr>listener := Some (Reading False)\<rparr>"
  have "cli_step ?c0 (?c0\<lparr>listener := listener_check (cli_running ?c0) False\<rparr>)"
    by (rule listener_looks) (use l0 in simp_all)
  then have "reach (\<lambda>c. c = cli_main True demo_ptt_command) cli_step ?c1"
    using l0 by (intro reach_step [OF demo_ptt_in_loop]) (simp add: listener_check_def)
  moreover obtain ss' where line: "listener_line (LineRead 1) False ss = (AtFlag True, ss')" and mic: "sh_ptt_active (shared ss')"
    by (simp add: listener_line_def ptt_read_def)
  let ?c2 = "?c1\<lparr>listener := Some (AtFlag True), cli_session := Some ss'\<rparr>"
  have "cli_step ?c1 ?c2" by (rule listener_reads [OF _ _ _ line]) (use ss in simp_all)
  ultimately have "reach (\<lambda>c. c = cli_main True demo_ptt_command) cli_step ?c2" by (rule reach_step)
  moreover have "cli_step ?c2 (?c2\<lparr>cli_running := False\<rparr>)" by (rule ctrl_c) simp
  ultimately have r: "reach (\<lambda>c. c = cli_main True demo_ptt_command) cli_step (?c2\<lparr>cli_running := False\<rparr>)"
    by (rule reach_step)
  show ?thesis
    using r mic ctrl_c_freezes_microphone [OF r]
    by (intro exI [of _ "?c2\<lparr>cli_running := False\<rparr>"] exI [of _ ss']) auto
qed

text \<open>The push-to-talk listener toggles: after any sequence of reads the microphone is open exactly
  when the number of successful reads is odd, whatever was on the lines; a read at the end of the
  input, which succeeds with no bytes, counts like a line.\<close>

theorem ptt_toggles:
  "let (tx, sh') = foldl (\<lambda>st r. ptt_read r st) (False, sh\<lparr>sh_ptt_active := False\<rparr>) rs in
     sh' = sh\<lparr>sh_ptt_active := odd (length (filter (\<lambda>r. case r of LineRead _ \<Rightarrow> True | LineError \<Rightarrow> False) rs))\<rparr> \<and>
     tx = sh_ptt_active sh'"
proof -
  have "foldl (\<lambda>st r. ptt_read r st) (b, sh\<lparr>sh_ptt_active := b\<rparr>) rs =
      (b \<noteq> odd (length (filter (\<lambda>r. case r of LineRead _ \<Rightarrow> True | LineError \<Rightarrow> False) rs)),
       sh\<lparr>sh_ptt_active := b \<noteq> odd (length (filter (\<lambda>r. case r of LineRead _ \<Rightarrow> True | LineError \<Rightarrow> False) rs))\<rparr>)" for b
  proof (induction rs arbitrary: b)
    case (Cons r rs)
    have "ptt_read r (b, sh\<lparr>sh_ptt_active := b\<rparr>) =
        (let b' = (case r of LineRead _ \<Rightarrow> \<not> b | LineError \<Rightarrow> b) in (b', sh\<lparr>sh_ptt_active := b'\<rparr>))"
      by (cases r) (simp_all add: ptt_read_def Let_def)
    then show ?case using Cons by (cases r; cases b) (auto simp: Let_def)
  qed simp
  from this [of False] show ?thesis by (simp add: Let_def)
qed

end
