(* ===== verification/Unit_Tests.thy ===== *)
theory Unit_Tests
  imports Peer Mixer Capture Key_Exchange
begin

text \<open>
  The unit tests of \<^verbatim>\<open>vc-core\<close> on the model: one definition per \<^verbatim>\<open>#[test]\<close> function, true when every
  assertion of it holds and every \<^verbatim>\<open>unwrap\<close> succeeds. They tie the definitions of the other theories to
  the behaviour the authors wrote down themselves, and for the tests that involve code outside the
  repository they say which documented behaviour of it the test needs. Random secrets and clock
  readings are arguments. Left out are the tests that only exercise that code: the Opus round trip
  and concealment, the rejections by the AEAD, the separation of HKDF outputs, and the detection of
  a sine wave; and the one of the flag shared between the gate and the session, which is a field of
  the gate here, so that the sharing it tests is not modelled.
\<close>

section \<open>Assertions\<close>

text \<open>\<^verbatim>\<open>unwrap\<close> and what is asserted of the value.\<close>

fun unwrap_then :: "'a outcome \<Rightarrow> ('a \<Rightarrow> bool) \<Rightarrow> bool" where
  "unwrap_then (Ok x) P = P x"
| "unwrap_then _ P = False"

fun fails :: "'a outcome \<Rightarrow> bool" where
  "fails (Err e) = True"
| "fails _ = False"

fun some_then :: "'a option \<Rightarrow> ('a \<Rightarrow> bool) \<Rightarrow> bool" where
  "some_then (Some x) P = P x"
| "some_then None P = False"

text \<open>\<^verbatim>\<open>(a - b).abs() < eps\<close>\<close>

definition close_to :: "fl \<Rightarrow> fl \<Rightarrow> fl \<Rightarrow> bool" where
  "close_to eps a b \<longleftrightarrow> f_abs (f_sub F32 a b) < eps"

definition f32_EPSILON :: fl where
  "f32_EPSILON = Fin (1 / 2 ^ 23)"

text \<open>A decimal literal of type \<^verbatim>\<open>f32\<close>.\<close>

definition lit :: "rat \<Rightarrow> fl" where
  "lit q = fround F32 q"

section \<open>Packets and the peer table\<close>

definition test_header_roundtrip :: bool where
  "test_header_roundtrip =
     (let hdr = packet_header_new PKT_AUDIO 2 1234 56789;
          bytes = header_to_bytes hdr
      in unwrap_then (header_from_bytes bytes) (\<lambda>parsed.
           pkt_type parsed = PKT_AUDIO \<and> peer_id parsed = 2 \<and> seq_num parsed = 1234 \<and> counter parsed = 56789))"

definition test_peer_list_roundtrip :: bool where
  "test_peer_list_roundtrip =
     (let payload = \<lparr>pl_session_id = replicate 8 0xAA,
            pl_peers = [(0, SocketV4 (Ipv4Addr 192 168 1 1) 5000), (1, SocketV4 (Ipv4Addr 10 0 0 2) 6000)]\<rparr>;
          bytes = peer_list_to_bytes payload
      in unwrap_then (peer_list_from_bytes bytes) (\<lambda>parsed.
           pl_session_id parsed = replicate 8 0xAA \<and> length (pl_peers parsed) = 2 \<and>
           fst (pl_peers parsed ! 0) = 0 \<and> fst (pl_peers parsed ! 1) = 1))"

definition localhost :: "u16 \<Rightarrow> socket_addr" where
  "localhost port = SocketV4 (Ipv4Addr 127 0 0 1) port"

definition test_peer_manager_host :: "opus_prims \<Rightarrow> instant \<Rightarrow> bool" where
  "test_peer_manager_host opus now =
     (let pm = new_host (replicate 8 0xAA) in
      local_id pm = 0 \<and> is_host pm \<and>
      (case allocate_peer_id pm of (r, pm) \<Rightarrow> unwrap_then r (\<lambda>id1.
         id1 = 1 \<and>
         (case add_peer opus now id1 (localhost 5001) pm of (r, pm) \<Rightarrow> unwrap_then r (\<lambda>_.
            length (peers pm) = 1 \<and> peer_by_addr (localhost 5001) pm = Some 1)))))"

text \<open>The loop of the test: every peer of the list is added, or the test fails.\<close>

fun add_all :: "opus_prims \<Rightarrow> instant \<Rightarrow> u8 list \<Rightarrow> peer_manager \<Rightarrow> (peer_manager \<Rightarrow> bool) \<Rightarrow> bool" where
  "add_all opus now [] pm k = k pm"
| "add_all opus now (i # is) pm k =
     (case add_peer opus now i (localhost (5000 + ucast i)) pm of (r, pm) \<Rightarrow>
        unwrap_then r (\<lambda>_. add_all opus now is pm k))"

definition test_max_peers :: "opus_prims \<Rightarrow> instant \<Rightarrow> bool" where
  "test_max_peers opus now =
     add_all opus now [1, 2, 3, 4] (new_host (replicate 8 0))
       (\<lambda>pm. fails (fst (add_peer opus now 5 (localhost 5005) pm)))"

section \<open>Cryptography\<close>

definition HELLO_OPUS :: bytes where
  "HELLO_OPUS = [0x68, 0x65, 0x6C, 0x6C, 0x6F, 0x20, 0x6F, 0x70, 0x75, 0x73, 0x20, 0x64, 0x61, 0x74, 0x61]"

definition TEST_PASSWORD :: bytes where
  "TEST_PASSWORD = [0x74, 0x65, 0x73, 0x74, 0x2D, 0x70, 0x61, 0x73, 0x73, 0x77, 0x6F, 0x72, 0x64]"

definition test_encrypt_decrypt_roundtrip :: "crypto_prims \<Rightarrow> bool" where
  "test_encrypt_decrypt_roundtrip P =
     unwrap_then (derive_key_from_passphrase P TEST_PASSWORD) (\<lambda>key.
       let sid = replicate 8 1;
           sender = crypto_context_new key sid;
           receiver = crypto_context_new key sid
       in case next_counter sender of (r, sender) \<Rightarrow> unwrap_then r (\<lambda>ctr.
            let header = [0x01, 0x00, 0x00, 0x01, 0x00, 0x00, 0x00, ucast ctr] in
            unwrap_then (encrypt P sender header HELLO_OPUS 0 1 ctr) (\<lambda>ciphertext.
            unwrap_then (decrypt P receiver header ciphertext 0 1 ctr) (\<lambda>decrypted.
              decrypted = HELLO_OPUS))))"

text \<open>The answers of the filter to a sequence of counters.\<close>

fun answers :: "replay_filter \<Rightarrow> u32 list \<Rightarrow> bool list" where
  "answers f [] = []"
| "answers f (c # cs) = (case check_and_accept f c of (ok, f) \<Rightarrow> ok # answers f cs)"

definition test_replay_filter :: bool where
  "test_replay_filter =
     (answers replay_filter_new [1, 2, 1, 3, 100, 30, 50, 50] =
        [True, True, False, True, True, False, True, False])"

definition test_both_sides_derive_same_key :: "crypto_prims \<Rightarrow> bytes \<Rightarrow> bytes \<Rightarrow> bool" where
  "test_both_sides_derive_same_key P s1 s2 =
     (let alice = key_exchange_new P s1;
          bob = key_exchange_new P s2;
          sid = replicate 8 0xAA
      in unwrap_then (derive_peer_key P alice (public_key_bytes bob) sid 0 1) (\<lambda>alice_key.
         unwrap_then (derive_peer_key P bob (public_key_bytes alice) sid 1 0) (\<lambda>bob_key.
           alice_key = bob_key)))"

definition test_payload_roundtrip :: "crypto_prims \<Rightarrow> bytes \<Rightarrow> bool" where
  "test_payload_roundtrip P s =
     (let kx = key_exchange_new P s;
          bytes = kx_to_bytes \<lparr>public_key = public_key_bytes kx\<rparr>
      in unwrap_then (kx_from_bytes bytes) (\<lambda>parsed. public_key parsed = public_key_bytes kx))"

section \<open>Jitter buffer and latency\<close>

definition make_frame :: "u16 \<Rightarrow> i16 list" where
  "make_frame sn = replicate FRAME_SAMPLES sn"

definition test_basic_push_pop :: bool where
  "test_basic_push_pop =
     (let jb = jb_push jitter_buffer_new 0 (make_frame 0)
      in some_then (fst (jb_pop jb)) (\<lambda>frame. length frame = FRAME_SAMPLES \<and> frame ! 0 = 0))"

definition test_out_of_order :: bool where
  "test_out_of_order =
     (let jb = jb_push jitter_buffer_new 1 (make_frame 1);
          jb = jb_push jb 0 (make_frame 0)
      in case jb_pop jb of (r, jb) \<Rightarrow> some_then r (\<lambda>f0. f0 ! 0 = 0 \<and>
           some_then (fst (jb_pop jb)) (\<lambda>f1. f1 ! 0 = 1)))"

definition test_missing_frame_returns_none :: bool where
  "test_missing_frame_returns_none =
     (let jb = jb_push jitter_buffer_new 0 (make_frame 0);
          jb = snd (jb_pop jb);
          jb = jb_push jb 2 (make_frame 2)
      in case jb_pop jb of (result, jb) \<Rightarrow> result = None \<and>
           some_then (fst (jb_pop jb)) (\<lambda>f2. f2 ! 0 = 2))"

definition test_duplicate_ignored :: bool where
  "test_duplicate_ignored =
     (let jb = jb_push jitter_buffer_new 0 (make_frame 0);
          jb = jb_push jb 0 (make_frame 0)
      in buffered_frames jb = 1)"

text \<open>The clock is read when the ping is sent and again after the sleep.\<close>

definition test_ping_pong_rtt :: "(u32 list \<Rightarrow> u32 list) \<Rightarrow> instant \<Rightarrow> instant \<Rightarrow> bool" where
  "test_ping_pong_rtt it t0 t1 =
     (case ping_sent it t0 latency_tracker_new of (pid, tracker) \<Rightarrow>
      case pong_received pid t1 tracker of (rtt, tracker) \<Rightarrow>
        some_then rtt (\<lambda>us. us \<ge> 500) \<and> sample_count (stats tracker) = 1)"

definition test_unknown_pong :: "instant \<Rightarrow> bool" where
  "test_unknown_pong now = (fst (pong_received 999 now latency_tracker_new) = None)"

definition test_ping_payload_roundtrip :: bool where
  "test_ping_payload_roundtrip =
     unwrap_then (ping_from_bytes (ping_to_bytes \<lparr>ping_id = 42\<rparr>)) (\<lambda>parsed. ping_id parsed = 42)"

text \<open>One pass of the loop for each pair of clock readings.\<close>

fun ping_pongs ::
  "(u32 list \<Rightarrow> u32 list) \<Rightarrow> (instant \<times> instant) list \<Rightarrow> latency_tracker \<Rightarrow> latency_tracker" where
  "ping_pongs it [] tracker = tracker"
| "ping_pongs it ((t0, t1) # ts) tracker =
     (case ping_sent it t0 tracker of (pid, tracker) \<Rightarrow>
        ping_pongs it ts (snd (pong_received pid t1 tracker)))"

definition test_stats_update :: "(u32 list \<Rightarrow> u32 list) \<Rightarrow> (instant \<times> instant) list \<Rightarrow> bool" where
  "test_stats_update it ts =
     (let s = stats (ping_pongs it ts latency_tracker_new)
      in sample_count s = 5 \<and> min_rtt_us s \<le> avg_rtt_us s \<and> avg_rtt_us s \<le> max_rtt_us s)"

section \<open>Samples\<close>

definition test_f32_i16_conversion :: bool where
  "test_f32_i16_conversion =
     (let f32_samples = [Fin 0, Fin 1, Fin (- 1), Fin (1 / 2), Fin (- 1 / 2)];
          i16_samples = f32_to_i16 f32_samples;
          back = i16_to_f32 i16_samples
      in list_all (\<lambda>(orig, conv). close_to (lit (1 / 1000)) orig conv) (zip f32_samples back))"

definition frame_of :: "fl \<Rightarrow> fl list" where
  "frame_of x = replicate FRAME_SAMPLES x"

definition test_mix_single_peer :: bool where
  "test_mix_single_peer =
     (let output = mix_peers [frame_of (Fin (1 / 2))] (frame_of (Fin 0))
      in close_to f32_EPSILON (output ! 0) (Fin (1 / 2)))"

definition test_mix_two_peers :: bool where
  "test_mix_two_peers =
     (let output = mix_peers [frame_of (lit (3 / 10)), frame_of (lit (4 / 10))] (frame_of (Fin 0))
      in close_to (lit (1 / 1000)) (output ! 0) (lit (7 / 10)))"

definition test_mix_clamp :: bool where
  "test_mix_clamp =
     (let output = mix_peers [frame_of (lit (8 / 10)), frame_of (lit (8 / 10))] (frame_of (Fin 0))
      in output ! 0 = Fin 1)"

definition test_mix_empty :: bool where
  "test_mix_empty =
     (let output = mix_peers [] (frame_of (Fin 1))
      in output ! 0 = Fin 0)"

section \<open>The capture chain\<close>

definition test_noise_suppressor_accumulates :: "denoise \<Rightarrow> bool" where
  "test_noise_suppressor_accumulates dn =
     (case ns_process dn noise_suppressor_new (frame_of (Fin 0)) of (r1, ns) \<Rightarrow>
      case ns_process dn ns (frame_of (Fin 0)) of (r2, ns) \<Rightarrow>
      case ns_process dn ns (frame_of (Fin 0)) of (r3, ns) \<Rightarrow>
      case ns_process dn ns (frame_of (Fin 0)) of (r4, ns) \<Rightarrow>
        r1 = None \<and> r2 = None \<and> r3 = None \<and> some_then r4 (\<lambda>output. length output = DENOISE_FRAME_SIZE))"

definition test_noise_suppressor_disabled_passthrough :: "denoise \<Rightarrow> bool" where
  "test_noise_suppressor_disabled_passthrough dn =
     (let ns = set_enabled False noise_suppressor_new
      in some_then (fst (ns_process dn ns (frame_of (Fin (1 / 2))))) (\<lambda>output.
           length output = FRAME_SAMPLES \<and> output ! 0 = Fin (1 / 2)))"

definition test_always_on :: bool where
  "test_always_on = fst (should_transmit (input_gate_new AlwaysOn))"

text \<open>The gate asked before, while and after its input is raised by \<open>set\<close>.\<close>

definition gate_follows :: "input_mode \<Rightarrow> (bool \<Rightarrow> input_gate \<Rightarrow> input_gate) \<Rightarrow> bool" where
  "gate_follows m set_input =
     (case should_transmit (input_gate_new m) of (r1, gate) \<Rightarrow>
      case should_transmit (set_input True gate) of (r2, gate) \<Rightarrow>
      case should_transmit (set_input False gate) of (r3, gate) \<Rightarrow> \<not> r1 \<and> r2 \<and> \<not> r3)"

definition test_ptt :: bool where
  "test_ptt = gate_follows PushToTalk set_ptt"

definition test_voice_activation :: bool where
  "test_voice_activation = gate_follows VoiceActivation set_vad_active"

definition test_silence_not_detected :: "float_math \<Rightarrow> bool" where
  "test_silence_not_detected fm = (\<not> fst (detect fm (vad_new vad_config_default) (frame_of (Fin 0)) None))"

definition test_hold_time :: "float_math \<Rightarrow> bool" where
  "test_hold_time fm =
     (let loud = frame_of (Fin (1 / 2));
          silence = frame_of (Fin 0)
      in vad_run fm (vad_new (vad_config_default\<lparr>hold_frames := 2\<rparr>))
           [(loud, None), (silence, None), (silence, None), (silence, None)] = [True, True, True, False])"

definition test_rnnoise_vad_gate :: "float_math \<Rightarrow> bool" where
  "test_rnnoise_vad_gate fm =
     (let loud = frame_of (Fin (1 / 2))
      in vad_run fm (vad_new vad_config_default)
           [(loud, Some (lit (1 / 10))), (loud, Some (lit (9 / 10)))] = [False, True])"

definition test_energy_db_values :: "float_math \<Rightarrow> bool" where
  "test_energy_db_values fm \<longleftrightarrow>
     compute_energy_db fm [Fin 1, Fin (- 1), Fin 1, Fin (- 1)] > lit (- 31 / 10) \<and>
     compute_energy_db fm (frame_of (Fin 0)) = NInf \<and> compute_energy_db fm [] = NInf"

section \<open>What the tests need of code outside the repository\<close>

text \<open>
  Argon2, the AEAD and HKDF do not fail on inputs of these sizes, and no two of the secrets make a
  zero shared secret.
\<close>

definition prims_succeed :: "crypto_prims \<Rightarrow> bool" where
  "prims_succeed P \<longleftrightarrow> (\<forall>p s. argon2id P 65536 3 1 p s 32 \<noteq> None) \<and>
     (\<forall>k n a m. aead_encrypt P k n a m \<noteq> None) \<and> (\<forall>s i f. hkdf_sha256 P s i f 32 \<noteq> None)"

text \<open>The square root is exact on squares; the decimal logarithm is exact at one and no less than
  minus one from a quarter to one.\<close>

definition math_ok :: "float_math \<Rightarrow> bool" where
  "math_ok fm \<longleftrightarrow> f32_sqrt fm (Fin 0) = Fin 0 \<and> f32_sqrt fm (Fin 1) = Fin 1 \<and>
     f32_sqrt fm (Fin (1 / 4)) = Fin (1 / 2) \<and> f32_log10 fm (Fin 1) = Fin 0 \<and>
     (\<exists>v. f32_log10 fm (Fin (1 / 2)) = Fin v \<and> - 1 \<le> v \<and> v \<le> 0)"

section \<open>Evaluation\<close>

text \<open>Mixing constant frames is adding their samples.\<close>

lemma add_into_replicate: "add_into (replicate n x) (replicate n y) = replicate n (f_add F32 x y)"
  by (induction n) simp_all

lemma mix_frames:
  "mix_peers (map frame_of xs) (frame_of y) = frame_of (f_clamp (Fin (- 1)) (Fin 1) (foldl (f_add F32) (Fin 0) xs))"
proof -
  have "foldl add_into (frame_of a) (map frame_of xs) = frame_of (foldl (f_add F32) a xs)" for a
    by (induction xs arbitrary: a) (simp_all add: frame_of_def add_into_replicate)
  then show ?thesis by (simp add: mix_peers_def mix_sum_def frame_of_def)
qed

lemma frame_of_nth [simp]: "frame_of x ! 0 = x"
  by (simp add: frame_of_def FRAME_SAMPLES_def)

lemma frame_of_length [simp]: "length (frame_of x) = 120"
  by (simp add: frame_of_def FRAME_SAMPLES_def)

lemma mixer_tests: "test_mix_single_peer" "test_mix_two_peers" "test_mix_clamp" "test_mix_empty"
proof -
  have m: "mix_peers [frame_of a] (frame_of y) ! 0 = f_clamp (Fin (- 1)) (Fin 1) (f_add F32 (Fin 0) a)"
    "mix_peers [frame_of a, frame_of b] (frame_of y) ! 0 =
       f_clamp (Fin (- 1)) (Fin 1) (f_add F32 (f_add F32 (Fin 0) a) b)"
    "mix_peers [] (frame_of y) ! 0 = f_clamp (Fin (- 1)) (Fin 1) (Fin 0)" for a b y
    using mix_frames [of "[a]" y] mix_frames [of "[a, b]" y] mix_frames [of "[]" y] by simp_all
  show "test_mix_single_peer" unfolding test_mix_single_peer_def Let_def m by code_simp
  show "test_mix_two_peers" unfolding test_mix_two_peers_def Let_def m by code_simp
  show "test_mix_clamp" unfolding test_mix_clamp_def Let_def m by code_simp
  show "test_mix_empty" unfolding test_mix_empty_def Let_def m by code_simp
qed

lemma conversion_test: "test_f32_i16_conversion"
  by code_simp

lemma net_tests: "test_header_roundtrip" "test_peer_list_roundtrip"
  by code_simp+

lemma replay_test: "test_replay_filter"
  by code_simp

lemma jitter_tests:
  "test_basic_push_pop" "test_out_of_order" "test_missing_frame_returns_none" "test_duplicate_ignored"
  by code_simp+

lemma gate_tests: "test_always_on" "test_ptt" "test_voice_activation"
  by code_simp+

lemma peer_tests:
  assumes "opus_decoder_init opus"
  shows "test_peer_manager_host opus now" "test_max_peers opus now"
  using assms
  by (simp_all add: test_peer_manager_host_def test_max_peers_def new_host_def allocate_peer_id_def add_peer_def
      remote_peer_new_def decoder_new_def get_peer_def peer_by_addr_def MAX_PEERS_def localhost_def)

lemma prims_succeed_Ok:
  assumes "prims_succeed P"
  shows "\<exists>key. derive_key_from_passphrase P pw = Ok key" "\<exists>c. encrypt P ctx h m pid sn ctr = Ok c"
    "\<exists>k. hkdf_sha256 P sid sec info 32 = Some k"
  using assms by (simp_all add: derive_key_from_passphrase_def encrypt_def ok_or_eq_Ok prims_succeed_def)

lemma seal_then_open:
  assumes "aead_ok P" "prims_succeed P" "cipher_key ctx' = cipher_key ctx" "ctx_session_id ctx' = ctx_session_id ctx"
  shows "unwrap_then (encrypt P ctx h m pid sn ctr) (\<lambda>c. unwrap_then (decrypt P ctx' h c pid sn ctr) (\<lambda>d. d = m))"
proof -
  obtain c where "encrypt P ctx h m pid sn ctr = Ok c" using prims_succeed_Ok [OF assms(2)] by blast
  with decrypt_encrypt [OF assms(1,3,4) this] show ?thesis by simp
qed

lemma crypto_tests:
  assumes "aead_ok P" "prims_succeed P"
  shows "test_encrypt_decrypt_roundtrip P"
proof -
  obtain key where "derive_key_from_passphrase P TEST_PASSWORD = Ok key" using prims_succeed_Ok [OF assms(2)] by blast
  moreover have "next_counter (crypto_context_new key sid) = (Ok 0, (crypto_context_new key sid)\<lparr>send_counter := 1\<rparr>)" for sid
    by (simp add: next_counter_def crypto_context_new_def checked_add_def)
  ultimately show ?thesis
    using seal_then_open [OF assms] by (simp add: test_encrypt_decrypt_roundtrip_def crypto_context_new_def)
qed

lemma key_exchange_tests:
  assumes "dh_ok P" "prims_succeed P" "\<exists>b \<in> set (x25519_dh P s1 (x25519_public P s2)). b \<noteq> 0"
  shows "test_both_sides_derive_same_key P s1 s2" "test_payload_roundtrip P s1"
proof -
  obtain k where "derive_peer_key P (key_exchange_new P s1) (public_key_bytes (key_exchange_new P s2)) (replicate 8 0xAA) 0 1 = Ok k"
    using assms(3) prims_succeed_Ok(3) [OF assms(2), of "replicate 8 0xAA" "x25519_dh P s1 (x25519_public P s2)" "INFO_PREFIX @ [0, 1]"]
    by (auto simp: derive_peer_key_Ok_iff key_exchange_new_def public_key_bytes_def)
  then show "test_both_sides_derive_same_key P s1 s2"
    using derive_peer_key_comm [OF assms(1), of s1 s2 "replicate 8 0xAA" 0 1]
    by (simp add: test_both_sides_derive_same_key_def Let_def)
  show "test_payload_roundtrip P s1"
    using assms(1) kx_wire.roundtrip by (simp add: test_payload_roundtrip_def Let_def wire_kx_def dh_ok_def key_exchange_new_def public_key_bytes_def)
qed

text \<open>A ping that is answered before the next is sent leaves nothing pending and counts once.\<close>

lemma ping_pong_round:
  fixes t0 t1 :: instant
  assumes "latency_inv lt" "pending lt = []" "(t1 - t0) div 1000 < 2 ^ 50"
    and "ping_sent it t0 lt = (pid, lt1)" "pong_received pid t1 lt1 = (r, lt2)"
  shows "r = Some (elapsed_micros t0 t1)" "latency_inv lt2" "pending lt2 = []"
    "sample_count (stats lt2) = sample_count (stats lt) + 1" "stats_ok (stats lt2)"
proof -
  have lt1: "lt1 = lt\<lparr>next_ping_id := next_ping_id lt + 1, pending := [(next_ping_id lt, t0)]\<rparr>"
    "pid = next_ping_id lt"
    using assms(2,4) by (auto simp: ping_sent_def Let_def MAX_PENDING_PINGS_def)
  let ?lt = "lt\<lparr>next_ping_id := next_ping_id lt + 1, pending := []\<rparr>"
  have lt2: "lt2 = record_rtt (elapsed_micros t0 t1) ?lt" "r = Some (elapsed_micros t0 t1)"
    using assms(5) by (auto simp: lt1 pong_received_def Let_def)
  have inv: "latency_inv ?lt" using assms(1) by (simp add: latency_inv_def pending_ok_def)
  have small: "uint (elapsed_micros t0 t1) < 2 ^ 50" by (rule elapsed_micros_small [OF assms(3)])
  show "r = Some (elapsed_micros t0 t1)" "pending lt2 = []" "stats_ok (stats lt2)"
    using record_rtt_ok [OF inv small] by (simp_all add: lt2 record_rtt_rest)
  show "sample_count (stats lt2) = sample_count (stats lt) + 1"
    by (simp add: lt2 record_rtt_def Let_def)
  have "latency_inv lt1" using assms(1) by (simp add: lt1 latency_inv_def pending_ok_def MAX_PENDING_PINGS_def)
  then show "latency_inv lt2"
    using pong_received_inv [of lt1 t1 pid] assms(3,5) by (simp add: lt1)
qed

lemma ping_pongs_stats:
  assumes "latency_inv lt" "pending lt = []" "\<forall>(t0, t1) \<in> set ts. (t1 - t0) div 1000 < 2 ^ 50"
  shows "sample_count (stats (ping_pongs it ts lt)) = sample_count (stats lt) + of_nat (length ts) \<and>
    (ts \<noteq> [] \<or> stats_ok (stats lt) \<longrightarrow> stats_ok (stats (ping_pongs it ts lt)))"
  using assms
proof (induction ts arbitrary: lt)
  case (Cons t ts)
  obtain t0 t1 where t: "t = (t0, t1)" by fastforce
  obtain pid lt1 r lt2 where eqs: "ping_sent it t0 lt = (pid, lt1)" "pong_received pid t1 lt1 = (r, lt2)"
    by (metis surj_pair)
  have "(t1 - t0) div 1000 < 2 ^ 50" using Cons.prems t by simp
  note r = ping_pong_round [OF Cons.prems(1,2) this eqs]
  show ?case using Cons.IH [OF r(2,3)] Cons.prems(3) r(4,5) by (simp add: t eqs)
qed simp

lemma latency_tests:
  assumes "t0 + 1000000 \<le> t1" "(t1 - t0) div 1000 < 2 ^ 50"
    and "length ts = 5" "\<forall>(t0, t1) \<in> set ts. (t1 - t0) div 1000 < 2 ^ 50"
  shows "test_ping_pong_rtt it t0 t1" "test_unknown_pong now" "test_ping_payload_roundtrip" "test_stats_update it ts"
proof -
  have new: "latency_inv latency_tracker_new" "pending latency_tracker_new = []" "sample_count (stats latency_tracker_new) = 0"
    using latency_sys.start_inv by (simp_all add: latency_tracker_new_def empty_stats_def)
  obtain pid lt1 r lt2 where eqs: "ping_sent it t0 latency_tracker_new = (pid, lt1)" "pong_received pid t1 lt1 = (r, lt2)"
    by (metis surj_pair)
  have "500 \<le> (t1 - t0) div 1000" using assms(1) by linarith
  then have "500 \<le> elapsed_micros t0 t1"
    using assms(2) by (simp add: elapsed_micros_def word_le_nat_alt unat_of_nat take_bit_nat_eq_self)
  then show "test_ping_pong_rtt it t0 t1"
    using ping_pong_round [OF new(1,2) assms(2) eqs] new(3) by (simp add: test_ping_pong_rtt_def eqs)
  show "test_unknown_pong now" by (simp add: test_unknown_pong_def pong_received_def new)
  show "test_ping_payload_roundtrip" using ping_wire.roundtrip by (simp add: test_ping_payload_roundtrip_def)
  have "ts \<noteq> []" using assms(3) by auto
  then show "test_stats_update it ts"
    using ping_pongs_stats [OF new(1,2) assms(4), of it] assms(3) new(3)
    by (simp add: test_stats_update_def Let_def stats_ok_def word_le_def)
qed

lemma suppressor_tests:
  assumes "denoise_ok dn"
  shows "test_noise_suppressor_accumulates dn" "test_noise_suppressor_disabled_passthrough dn"
proof -
  let ?fs = "replicate 4 (frame_of (Fin 0))"
  have "ns_rep [] noise_suppressor_new" by (simp add: ns_rep_def noise_suppressor_new_def scale_up_def)
  from ns_run_rep [OF this, of 0 dn ?fs] assms
  have "map (map_option length) (fst (ns_run dn noise_suppressor_new ?fs)) = [None, None, None, Some 480]"
    by (simp add: noise_suppressor_new_def upt_rec)
  then show "test_noise_suppressor_accumulates dn"
    by (auto simp: test_noise_suppressor_accumulates_def DENOISE_FRAME_SIZE_def numeral_nat split: prod.splits)
  show "test_noise_suppressor_disabled_passthrough dn"
    by (simp add: test_noise_suppressor_disabled_passthrough_def ns_process_def set_enabled_def FRAME_SAMPLES_def)
qed

text \<open>The energy of a constant frame: the sum of equal dyadic squares is exact.\<close>

lemma fround_F32_quarters: "k < 1000 \<Longrightarrow> fround F32 (of_nat k / 4) = Fin (of_nat k / 4)"
proof (rule fround_exact)
  assume k: "k < 1000"
  show "representable F32 (of_nat k / 4)"
    unfolding representable_def
    by (rule exI [of _ "int k"], rule exI [of _ "- 2"]) (use k in \<open>simp add: power_int_def power2_eq_square\<close>)
  have "of_nat k < (of_nat 1000 :: rat)" using k by (simp only: of_nat_less_iff)
  then have "of_nat k / 4 < (2 :: rat) powi 10" by simp
  also have "\<dots> \<le> 2 powi 128" using powi_le_iff [of 10 128] by simp
  finally show "\<bar>of_nat k / 4\<bar> < (2 powi fmax_exp F32 :: rat)" by simp
qed

lemma sum_quarters:
  "n + k < 1000 \<Longrightarrow> foldl (f_add F32) (Fin (of_nat k / 4)) (replicate n (Fin (1 / 4))) = Fin (of_nat (n + k) / 4)"
proof (induction n arbitrary: k)
  case (Suc n)
  have "of_nat k / 4 + 1 / 4 = (of_nat (Suc k) / 4 :: rat)" by (simp add: add_divide_distrib)
  then have "f_add F32 (Fin (of_nat k / 4)) (Fin (1 / 4)) = Fin (of_nat (Suc k) / 4)"
    using Suc.prems fround_F32_quarters [of "Suc k"] by (simp only: f_add.simps)
  with Suc.IH [of "Suc k"] Suc.prems show ?case by simp
qed simp

lemma sum_zeros: "foldl (f_add F32) (Fin 0) (replicate n (Fin 0)) = Fin 0"
  by (induction n) (simp_all add: fround_def round_fmt_def)

lemma energy_values:
  assumes "math_ok fm"
  shows "compute_energy_db fm (frame_of (Fin 0)) = NInf"
    "Fin (- 40) < compute_energy_db fm (frame_of (Fin (1 / 2)))"
    "compute_energy_db fm [Fin 1, Fin (- 1), Fin 1, Fin (- 1)] = Fin 0"
proof -
  have n: "f_of_int F32 120 = Fin 120" by code_simp
  have d0: "f_div F32 (Fin 0) (Fin 120) = Fin 0" by code_simp
  have d30: "f_div F32 (Fin 30) (Fin 120) = Fin (1 / 4)" by code_simp
  have l0: "Fin 0 < fround F32 (1 / 10 ^ 10)" by code_simp
  have l2: "\<not> Fin (1 / 2) < fround F32 (1 / 10 ^ 10)" by code_simp
  have l1: "\<not> Fin 1 < fround F32 (1 / 10 ^ 10)" by code_simp
  have m2: "f_mul F32 (Fin (1 / 2)) (Fin (1 / 2)) = Fin (1 / 4)" by code_simp
  have m0: "f_mul F32 (Fin 0) (Fin 0) = Fin 0" by code_simp
  have e4: "f_div F32 (foldl (f_add F32) (Fin 0) (map (\<lambda>s. f_mul F32 s s) [Fin 1, Fin (- 1), Fin 1, Fin (- 1)]))
    (f_of_int F32 4) = Fin 1" by code_simp
  have m20: "f_mul F32 (Fin 20) (Fin 0) = Fin 0" by code_simp
  have frame: "compute_energy_db fm (frame_of x) =
      (let rms = f32_sqrt fm (f_div F32 (foldl (f_add F32) (Fin 0) (replicate 120 (f_mul F32 x x))) (Fin 120))
       in if rms < fround F32 (1 / 10 ^ 10) then NInf else f_mul F32 (Fin 20) (f32_log10 fm rms))" for x
    by (simp add: compute_energy_db_def Let_def frame_of_def FRAME_SAMPLES_def n)
  show "compute_energy_db fm (frame_of (Fin 0)) = NInf"
    unfolding frame m0 sum_zeros d0 using assms l0 by (simp add: math_ok_def)
  show "compute_energy_db fm [Fin 1, Fin (- 1), Fin 1, Fin (- 1)] = Fin 0"
  proof -
    have "4 = int (length [Fin 1, Fin (- 1), Fin 1, Fin (- 1)])" by simp
    note e = e4 [unfolded this]
    show ?thesis unfolding compute_energy_db_def Let_def e using assms l1 m20 by (simp add: math_ok_def)
  qed
  have s: "foldl (f_add F32) (Fin 0) (replicate 120 (Fin (1 / 4))) = Fin 30"
    using sum_quarters [of 120 0] by simp
  obtain v where v: "f32_log10 fm (Fin (1 / 2)) = Fin v" "- 1 \<le> v" "v \<le> 0"
    using assms by (auto simp: math_ok_def)
  have "f32_sqrt fm (Fin (1 / 4)) = Fin (1 / 2)" using assms by (simp add: math_ok_def)
  then have loud: "compute_energy_db fm (frame_of (Fin (1 / 2))) = fround F32 (20 * v)"
    unfolding frame m2 s d30 using l2 v(1) by simp
  have "representable F32 (of_int (- 20))" "representable F32 (of_int 0)" by (rule representable_int, simp)+
  with v(2,3) obtain w where "fround F32 (20 * v) = Fin w" "- 20 \<le> w"
    using fround_between [of "- 20" "20 * v" 0 F32] by auto
  then show "Fin (- 40) < compute_energy_db fm (frame_of (Fin (1 / 2)))" by (simp add: loud)
qed

lemma detection_tests:
  assumes "math_ok fm"
  shows "test_silence_not_detected fm" "test_hold_time fm" "test_rnnoise_vad_gate fm" "test_energy_db_values fm"
proof -
  note e = energy_values [OF assms]
  have p: "\<not> Fin (1 / 2) < lit (1 / 10)" unfolding lit_def by code_simp
  have q: "Fin (1 / 2) < lit (9 / 10)" unfolding lit_def by code_simp
  have r: "lit (- 31 / 10) < Fin 0" unfolding lit_def by code_simp
  have loud: "voice_detected fm c (frame_of (Fin (1 / 2))) None" if "energy_threshold_db c = Fin (- 40)" for c
    using e(2) that by (simp add: voice_detected_def)
  have quiet: "\<not> voice_detected fm c (frame_of (Fin 0)) p" if "energy_threshold_db c = Fin (- 40)" for c p
    using e(1) that by (simp add: voice_detected_def split: option.split)
  show "test_silence_not_detected fm"
    using quiet by (simp add: test_silence_not_detected_def detect_def vad_new_def vad_config_default_def)
  show "test_hold_time fm"
    using quiet loud by (simp add: test_hold_time_def detect_def vad_new_def vad_config_default_def)
  show "test_rnnoise_vad_gate fm"
    using e(2) p q by (simp add: test_rnnoise_vad_gate_def detect_def vad_new_def vad_config_default_def voice_detected_def)
  show "test_energy_db_values fm"
    using e(1,3) r by (simp add: test_energy_db_values_def compute_energy_db_def [of fm "[]"])
qed

end
