(* ===== verification/Spec2Isabelle.thy ===== *)
theory Spec2Isabelle
  imports Replay Stuck Mesh Parted Loopback Tray Cli Unit_Tests
begin

text \<open>
  A verification development for voicechat, a serverless encrypted voice chat for up to five
  participants (Rust, crates \<^verbatim>\<open>vc-core\<close>, \<^verbatim>\<open>vc-cli\<close>, \<^verbatim>\<open>vc-tray\<close>). Every definition that models code is a
  translation of the named function; the theorems are about those definitions.

  \<^bold>\<open>The program.\<close> A session (\<^verbatim>\<open>vc-core/src/lib.rs\<close>) is one thread that turns a loop: take the controls
  from the user interface, receive one datagram and handle it, take captured samples through noise
  suppression, voice detection and the input gate to the encoder and send the sealed result to
  every connected peer, pop one frame per peer from its jitter buffer at the frame rate and mix
  them for the sound device, and on timers send keepalives and pings, exchange keys, time peers
  out, adapt the jitter buffers and publish what the user interface shows.

  \<^bold>\<open>Theories.\<close>
  \<^item> \<^verbatim>\<open>Prelude\<close>: machine words, the \<^verbatim>\<open>outcome\<close> type (\<^verbatim>\<open>Ok\<close>, \<^verbatim>\<open>Err\<close>, \<^verbatim>\<open>Panic\<close>) and its sequencing,
    big-endian bytes, vector operations, hash-map iteration orders, and three interfaces as locales:
    \<^verbatim>\<open>wire_format\<close> (an encoder and a decoder that accepts exactly the encodings, interpreted on every
    packet format), \<^verbatim>\<open>chunk_loop\<close> (a loop that works off whole chunks of waiting samples, interpreted
    on the four such loops) and \<^verbatim>\<open>invariant_system\<close> (start, step, invariant, interpreted on the jitter
    buffer, the latency tracker, the session, the window and the command line process).
  \<^item> \<^verbatim>\<open>Net\<close>: \<^verbatim>\<open>net.rs\<close>, packet header, datagrams, JOIN and PEER_LIST payloads.
  \<^item> \<^verbatim>\<open>Socket\<close>: \<^verbatim>\<open>UdpSocket\<close> of \<^verbatim>\<open>net.rs\<close> and \<^verbatim>\<open>resolve_local_ip\<close>, as sequences of system calls.
  \<^item> \<^verbatim>\<open>Crypto\<close>: \<^verbatim>\<open>crypto.rs\<close>, nonces, send counters, sealing, opening, the replay filter; the locale
    \<^verbatim>\<open>replay_guard\<close> is the contract of a replay filter, interpreted on the bitmap.
  \<^item> \<^verbatim>\<open>Key_Exchange\<close>: \<^verbatim>\<open>key_exchange.rs\<close>.
  \<^item> \<^verbatim>\<open>Rust_Float\<close>: \<^verbatim>\<open>f32\<close> and \<^verbatim>\<open>f64\<close> arithmetic with rounding to nearest even, as rationals with
    infinities and NaN (one zero: no modelled operation tells the two zeros apart).
  \<^item> \<^verbatim>\<open>Jitter\<close>: \<^verbatim>\<open>jitter.rs\<close>; the locale \<^verbatim>\<open>playout_buffer\<close> is the contract of a buffer that plays frames
    by number, interpreted on the sorted deque of the code.
  \<^item> \<^verbatim>\<open>Latency\<close>, \<^verbatim>\<open>Codec\<close>, \<^verbatim>\<open>Mixer\<close>, \<^verbatim>\<open>Capture\<close> (\<^verbatim>\<open>dsp.rs\<close>, \<^verbatim>\<open>vad.rs\<close>, \<^verbatim>\<open>input.rs\<close>), \<^verbatim>\<open>Peer\<close>: the files of
    these names.
  \<^item> \<^verbatim>\<open>Session\<close>: \<^verbatim>\<open>Session::handle_incoming\<close>, one definition per packet type.
  \<^item> \<^verbatim>\<open>Run_Loop\<close>: one turn of \<^verbatim>\<open>Session::run\<close> and sessions as sequences of turns.
  \<^item> \<^verbatim>\<open>Handshake\<close>: two nodes exchanging datagrams; \<^verbatim>\<open>Voice\<close>: frames from one node played by the other,
    with the locale \<^verbatim>\<open>audio_stream\<close> for what makes a stream of frames be heard;
    \<^verbatim>\<open>Replay\<close>: the same datagram delivered twice, at any time in the life of a session.
  \<^item> \<^verbatim>\<open>Mesh\<close>: up to five nodes; the table of each is abstracted to a roster (numbers, addresses, states), of
    which the handlers of JOIN, PEER_LIST, HELLO and HELLO_ACK are shown to be updates.
  \<^item> \<^verbatim>\<open>Audio\<close>: \<^verbatim>\<open>audio.rs\<close>, the search for a stream configuration and the capture and playout callbacks.
  \<^item> \<^verbatim>\<open>Upnp\<close>: \<^verbatim>\<open>upnp.rs\<close>; \<^verbatim>\<open>Startup\<close>: \<^verbatim>\<open>Session::new\<close> and \<^verbatim>\<open>Session::run\<close> from its first line to its end.
  \<^item> \<^verbatim>\<open>Outbox\<close>: the locale \<^verbatim>\<open>outbox_law\<close>, the contract of a claim about everything a node sends or
    remembers: what the changes the code makes to a node must keep for its handlers, turns, runs and
    (\<^verbatim>\<open>steps_law\<close>) all later steps to keep it. It is interpreted in \<^verbatim>\<open>Sizes\<close> (form and length of
    the datagrams), in \<^verbatim>\<open>Nonces\<close> (the nonces under the pre-shared key), in \<^verbatim>\<open>Stuck\<close> (key exchanges
    paid for since a given moment, ids handed out), in \<^verbatim>\<open>Parted\<close> (greetings sent) and in \<^verbatim>\<open>Replay\<close> (the
    counters the replay filters hold); \<^verbatim>\<open>outbox_run\<close> extends it by the first JOIN.
  \<^item> \<^verbatim>\<open>Stuck\<close>: what a session never recovers from, a lost KEY_EXCHANGE and ids used up by JOINs.
  \<^item> \<^verbatim>\<open>Links\<close>: the abstract machine of connections (\<^verbatim>\<open>link_step\<close>) and the refinement of it by a session.
  \<^item> \<^verbatim>\<open>Parted\<close>: two sessions as a closed system of turns and deliveries, after they have lost each other.
  \<^item> \<^verbatim>\<open>Loopback\<close>: \<^verbatim>\<open>run_loopback\<close>.
  \<^item> \<^verbatim>\<open>Cli\<close>: \<^verbatim>\<open>vc-cli/src/main.rs\<close>; \<^verbatim>\<open>Tray\<close>: \<^verbatim>\<open>vc-tray/src/main.rs\<close>, both with their threads as step relations; in
    \<^verbatim>\<open>Tray\<close> the frames (\<^verbatim>\<open>frame_step\<close>) and the threads of the sessions (\<^verbatim>\<open>thread_step\<close>, which may fail or
    panic) are apart, so that what the user can do is told from what happens.
  \<^item> \<^verbatim>\<open>Unit_Tests\<close>: the \<^verbatim>\<open>#[test]\<close> functions of \<^verbatim>\<open>vc-core\<close> on the model's definitions.

  \<^bold>\<open>State.\<close> A Rust struct is a record with the fields of the struct; a method with \<^verbatim>\<open>&mut self\<close> returns the
  new record beside its result. Fallible code returns an \<^verbatim>\<open>outcome\<close>; \<^verbatim>\<open>?\<close> is \<^verbatim>\<open>and_then\<close>, \<^verbatim>\<open>attempt\<close> or
  \<^verbatim>\<open>attempt_st\<close>, the last keeping the state changed so far. Integers keep their width: counters,
  sequence numbers and microseconds are machine words. Time is a clock reading in nanoseconds,
  read once per handler call or turn of the loop.

  \<^bold>\<open>Parameters.\<close> Code outside the repository is an argument: the primitives of Argon2,
  XChaCha20-Poly1305, X25519 and HKDF (\<^verbatim>\<open>crypto_prims\<close>, with \<^verbatim>\<open>aead_ok\<close>: opening what was sealed
  gives the plaintext back and the tag is 16 bytes, \<^verbatim>\<open>dh_ok\<close>: the shared secret is symmetric, and, for
  the lost KEY_EXCHANGE alone, \<^verbatim>\<open>wrong_key_fails\<close>: what is sealed under one of two keys does not open
  under the other), libopus (\<^verbatim>\<open>opus_prims\<close>), RNNoise
  (\<^verbatim>\<open>denoise\<close>), square root and logarithm (\<^verbatim>\<open>float_math\<close>), the operating system behind the sockets
  (\<^verbatim>\<open>socket_os\<close>: which system call it grants after which others and the address it reports; in \<^verbatim>\<open>env\<close> the
  sends it accepts and the socket's own address), the iteration orders of hash maps, the ring buffer
  (\<^verbatim>\<open>ring_ops\<close>, with \<^verbatim>\<open>ring_ok\<close>: a bounded queue), the sound devices (\<^verbatim>\<open>device\<close>, \<^verbatim>\<open>audio_host\<close>), the router
  (\<^verbatim>\<open>gateway_ops\<close>) and the parser of socket addresses. Each hypothesis on them has a witness with a
  concrete instance.

  \<^bold>\<open>What is shown.\<close>
  \<^item> Wire formats: parsers accept exactly the encodings; where the PEER_LIST parser panics.
  \<^item> Cryptography: nonces are injective and never repeat within a context; what is sealed opens; the
    bitmap filter is the window rule, accepts nothing twice and drops nothing that is in order.
  \<^item> Audio path: sample conversions, mixing, noise suppression blocks, voice hold time, the jitter
    buffer's refinement of a map with delivery on time and repair of reordering, adaptation in
    floating point against exact arithmetic.
  \<^item> Session: packets that do not open under the keys their type calls for change nothing, an audio
    packet once accepted is refused for the rest of the session, sealed audio is delivered, the
    only packet that can panic the handler, the invariant of whole sessions and that every run of a
    session is covered by it, push-to-talk privacy, end-to-end joining, key agreement and voice of
    two nodes, the mesh of up to five in which everyone is connected to and hears everyone, how a
    run ends, the release of the port mapping on every way out, that every datagram of a run is
    well-formed and fits the receive buffer, that no nonce is used twice under the pre-shared key
    while no peer list and no key exchange comes in, the refinement of the connection machine, and
    that nobody is connected without the passphrase.
  \<^item> Devices: captured samples are conserved under every interleaving, playout is first-in first-out
    on any number of channels, slicing of the input makes no difference.
  \<^item> Weaknesses, as theorems about what the code does: the nonce JOIN and PEER_LIST share, the nonce
    KEY_EXCHANGE shares with the first counted packet, the counter resets by replayed PEER_LIST and
    KEY_EXCHANGE packets, the KEY_EXCHANGE that is sent once and mutes a direction when it is lost, the
    host that four JOINs (copies of one will do) lock, the pair that ten seconds of silence part for
    good, the unauthenticated KEEPALIVE, a session that escapes its window, a dead session that the
    window goes on showing, and Ctrl+C that does not reach a session but freezes its push-to-talk key.
  \<^item> Tests: as a check of the definitions, the unit tests of \<^verbatim>\<open>vc-core\<close> pass on the model, but for those
    left out in \<^verbatim>\<open>Unit_Tests\<close>.

  \<^bold>\<open>Bounds.\<close> No definition uses fuel; the four chunk loops are functions with a termination measure
  on the number of waiting samples, and a run is given its turns, each with
  what it meets, as a list (it stops at the first turn that finds the running flag down). Floating-point theorems state the ranges in which they hold
  (silences under fifty days, round trips under 35 years, fewer than \<open>2\<^sup>5\<^sup>3\<close> packets).

  \<^bold>\<open>Not modelled.\<close> The text of log output and the formatting of numbers; the argument parser of the
  command line (\<^verbatim>\<open>clap\<close>); the layout of the window; the unit tests that only exercise code outside
  the repository, and the one of the sharing of a flag between handles. None of these changes state.
\<close>

end
